(* ===== verification/Prelude.thy ===== *)
theory Prelude
  imports Main "HOL-Library.AList" "HOL-Library.Sublist" "HOL-Library.Multiset"
begin

text \<open>
  Shared vocabulary of the development: the type of byte strings, the collections of rewrite
  rules the component theories fill, and the generic facts on lists, association lists and
  sums that more than one component uses.

  A Go \<open>string\<close> and a Go \<open>[]byte\<close> are both sequences of bytes; a \<^typ>\<open>char\<close> of HOL is
  exactly one byte, so both become \<^typ>\<open>string\<close>. A Go \<open>map\<close> that the code ranges over is an
  association list with distinct keys: lookup is \<^const>\<open>map_of\<close>, assignment
  \<^const>\<open>AList.update\<close>, the builtin \<open>delete\<close> is \<^const>\<open>AList.delete\<close>.
\<close>

type_synonym bytes = string

named_theorems frame_simps \<open>what an operation leaves unchanged\<close>
named_theorems inv_intros \<open>invariants kept by the operations\<close>

section \<open>Association lists\<close>

lemmas alist_simps = update_conv' delete_conv'

lemma alist_update_keys_distinct [intro]:
  "distinct (map fst al) \<Longrightarrow> distinct (map fst (AList.update k v al))"
  by (rule distinct_update)

lemma alist_delete_keys_distinct [intro]:
  "distinct (map fst al) \<Longrightarrow> distinct (map fst (AList.delete k al))"
  by (rule distinct_delete)

lemma alist_dom_map_of: "dom (map_of al) = fst ` set al"
  by (rule dom_map_of_conv_image_fst)

lemma alist_Nil_if_dom_empty: "dom (map_of al) = {} \<Longrightarrow> al = []"
  by (cases al) auto

section \<open>Lists\<close>

lemma take_append_take:
  "n \<le> length (take m xs) \<or> length xs \<le> m \<Longrightarrow> take n (take m xs @ ys) = take n (xs @ ys)"
  by (auto simp: min_def)

lemma take_prefix_grow:
  "take m xs @ take (m - length (take m xs)) ys = take m (xs @ ys)"
  by (cases "length xs \<le> m") auto

lemma sorted_desc_take_drop:
  fixes f :: "'a \<Rightarrow> 'b::linorder"
  assumes "sorted_wrt (\<lambda>a b. f b \<le> f a) xs" "x \<in> set (take n xs)" "y \<in> set (drop n xs)"
  shows "f y \<le> f x"
  using assms by (metis append_take_drop_id sorted_wrt_append)

lemma mset_distinct_set_eqI:
  "distinct xs \<Longrightarrow> distinct ys \<Longrightarrow> set xs = set ys \<Longrightarrow> mset xs = mset ys"
  by (simp add: set_eq_iff_mset_eq_distinct)

lemma fold_invariant:
  assumes "P s" and "\<And>x s. x \<in> set xs \<Longrightarrow> P s \<Longrightarrow> P (f x s)"
  shows "P (fold f xs s)"
  using assms by (induction xs arbitrary: s) auto

lemma fold_frame:
  assumes "\<And>x s. g (f x s) = g s"
  shows "g (fold f xs s) = g s"
  using assms by (induction xs arbitrary: s) auto

section \<open>Sums used as results\<close>

text \<open>A Go function returning \<open>(T, error)\<close> returns \<open>Inl e\<close> with a non-nil error and \<open>Inr v\<close>
  otherwise. \<open>is_ok\<close> is \<open>err == nil\<close>.\<close>

definition is_ok :: "'e + 'a \<Rightarrow> bool" where
  "is_ok r = (case r of Inl _ \<Rightarrow> False | Inr _ \<Rightarrow> True)"

lemma is_ok_simps [simp]: "is_ok (Inr v)" "\<not> is_ok (Inl e)"
  by (simp_all add: is_ok_def)

lemma is_okE: "is_ok r \<Longrightarrow> (\<And>v. r = Inr v \<Longrightarrow> P) \<Longrightarrow> P"
  by (cases r) auto

text \<open>Collect the results of a fallible step over a list, stopping at the first error.\<close>

fun collect :: "('a \<Rightarrow> 'e + 'b) \<Rightarrow> 'a list \<Rightarrow> 'e + 'b list" where
  "collect f [] = Inr []"
| "collect f (x # xs) =
     (case f x of Inl e \<Rightarrow> Inl e
      | Inr y \<Rightarrow> (case collect f xs of Inl e \<Rightarrow> Inl e | Inr ys \<Rightarrow> Inr (y # ys)))"

lemma collect_Inr_iff: "collect f xs = Inr ys \<longleftrightarrow> map f xs = map Inr ys"
proof (induction xs arbitrary: ys)
  case (Cons x xs)
  then show ?case
    by (cases ys) (auto simp flip: Cons.IH split: sum.splits)
qed auto

lemma collect_total:
  "(\<And>x. x \<in> set xs \<Longrightarrow> f x = Inr (g x)) \<Longrightarrow> collect f xs = Inr (map g xs)"
  by (induction xs) auto

end
