(* ===== verification/Go_Time.thy ===== *)
theory Go_Time
  imports Go_Strings
begin

text \<open>
  The part of Go's \<open>time\<close> package the program uses. A \<open>time.Time\<close> is its instant, in
  nanoseconds since the Unix epoch; \<open>Before\<close> and \<open>After\<close> are the linear order of the type.
  The monotonic reading that \<open>time.Now\<close> attaches is taken to agree with the wall clock. A
  \<open>time.Duration\<close> is a signed 64-bit number of nanoseconds: \<open>Sub\<close> saturates at its bounds
  and division truncates towards zero, both written out on \<^typ>\<open>int\<close>.
\<close>

datatype gotime = Time (nanos: int)

instantiation gotime :: linorder
begin

definition less_eq_gotime :: "gotime \<Rightarrow> gotime \<Rightarrow> bool" where
  "less_eq_gotime t u = (nanos t \<le> nanos u)"

definition less_gotime :: "gotime \<Rightarrow> gotime \<Rightarrow> bool" where
  "less_gotime t u = (nanos t < nanos u)"

instance
  by standard (auto simp: less_eq_gotime_def less_gotime_def gotime.expand)

end

lemmas gotime_order_simps = less_eq_gotime_def less_gotime_def

definition Before :: "gotime \<Rightarrow> gotime \<Rightarrow> bool" where
  "Before t u = (t < u)"

definition After :: "gotime \<Rightarrow> gotime \<Rightarrow> bool" where
  "After t u = (u < t)"

text \<open>The zero \<open>time.Time\<close> is January 1, year 1, 00:00:00 UTC.\<close>

definition zero_time :: gotime where
  "zero_time = Time (- 62135596800 * 1000000000)"

definition IsZero :: "gotime \<Rightarrow> bool" where
  "IsZero t = (t = zero_time)"

text \<open>\<open>UnixMilli\<close> rounds down, since a \<open>Time\<close> stores a non-negative nanosecond offset.\<close>

definition UnixMilli :: "gotime \<Rightarrow> int" where
  "UnixMilli t = nanos t div 1000000"

definition time_UnixMilli :: "int \<Rightarrow> gotime" where
  "time_UnixMilli ms = Time (ms * 1000000)"

definition max_int64 :: int where
  "max_int64 = 9223372036854775807"

definition min_int64 :: int where
  "min_int64 = - 9223372036854775808"

definition Add :: "gotime \<Rightarrow> int \<Rightarrow> gotime" where
  "Add t d = Time (nanos t + d)"

definition Sub :: "gotime \<Rightarrow> gotime \<Rightarrow> int" where
  "Sub t u = max min_int64 (min max_int64 (nanos t - nanos u))"

text \<open>Go's integer division truncates towards zero.\<close>

definition go_div :: "int \<Rightarrow> int \<Rightarrow> int" where
  "go_div a b = sgn a * sgn b * (\<bar>a\<bar> div \<bar>b\<bar>)"

definition Milliseconds :: "int \<Rightarrow> int" where
  "Milliseconds d = go_div d 1000000"

lemma UnixMilli_time_UnixMilli [simp]: "UnixMilli (time_UnixMilli ms) = ms"
  by (simp add: UnixMilli_def time_UnixMilli_def)

lemma UnixMilli_mono: "t \<le> u \<Longrightarrow> UnixMilli t \<le> UnixMilli u"
  by (simp add: UnixMilli_def less_eq_gotime_def zdiv_mono1)

lemma time_UnixMilli_le: "time_UnixMilli (UnixMilli t) \<le> t"
  unfolding UnixMilli_def time_UnixMilli_def less_eq_gotime_def
  by (simp add: minus_mod_eq_div_mult [symmetric])

lemma Milliseconds_nonneg: "0 \<le> d \<Longrightarrow> 0 \<le> Milliseconds d"
  by (simp add: Milliseconds_def go_div_def sgn_if pos_imp_zdiv_nonneg_iff)

lemma Sub_nonneg: "u \<le> t \<Longrightarrow> 0 \<le> Sub t u"
  by (simp add: Sub_def less_eq_gotime_def max_int64_def min_int64_def)

section \<open>Duration.String\<close>

definition pad_left :: "nat \<Rightarrow> bytes \<Rightarrow> bytes" where
  "pad_left n s = replicate (n - length s) CHR ''0'' @ s"

definition fmtFrac :: "nat \<Rightarrow> nat \<Rightarrow> bytes" where
  "fmtFrac v prec =
     (let ds = rev (dropWhile (\<lambda>c. c = CHR ''0'') (rev (pad_left prec (show_nat (v mod 10 ^ prec)))))
      in if ds = [] \<or> prec = 0 then [] else CHR ''.'' # ds)"

definition duration_abs :: "nat \<Rightarrow> bytes" where
  "duration_abs u =
     (if u = 0 then ''0s''
      else if u < 1000 then show_nat u @ ''ns''
      else if u < 1000000 then show_nat (u div 1000) @ fmtFrac u 3 @ [CHR 0xC2, CHR 0xB5, CHR ''s'']
      else if u < 1000000000 then show_nat (u div 1000000) @ fmtFrac u 6 @ ''ms''
      else let secs = u div 1000000000; frac = fmtFrac u 9 in
        if secs < 60 then show_nat secs @ frac @ ''s''
        else let mins = secs div 60; s = show_nat (secs mod 60) @ frac @ ''s'' in
          if mins < 60 then show_nat mins @ ''m'' @ s
          else show_nat (mins div 60) @ ''h'' @ show_nat (mins mod 60) @ ''m'' @ s)"

definition Duration_String :: "int \<Rightarrow> bytes" where
  "Duration_String d =
     (if d < 0 then CHR ''-'' # duration_abs (nat (- d)) else duration_abs (nat d))"

lemma test_durations:
  "Duration_String 300000000000 = ''5m0s''" "Duration_String 1500000000 = ''1.5s''"
  "Duration_String 5400000000000 = ''1h30m0s''" "Duration_String 250000000 = ''250ms''"
  "Milliseconds (-1500000) = -1"
  by (simp_all add: Duration_String_def duration_abs_def fmtFrac_def pad_left_def show_nat.simps
      digit_char_def char_of_def Let_def Milliseconds_def go_div_def bit_0)

end
