(* ===== verification/Entry.thy ===== *)
theory Entry
  imports Go_Time
begin

text \<open>
  The data model of \<open>internal/store/store.go\<close>: \<open>Entry\<close>, the string-typed enumerations
  \<open>Status\<close>, \<open>Format\<close> and \<open>Side\<close>, \<open>Clone\<close>, and the errors the store returns. The
  enumerations are Go string types whose values may come from the database or from a URL, so
  they stay strings, with the source's constants. A pointer to a number or a time that may be
  nil is an option. A header is an association list with its keys in any order; the nil header
  is the empty one.
\<close>

type_synonym status = bytes
type_synonym format = bytes
type_synonym side = bytes
type_synonym header = "(bytes \<times> bytes list) list"

definition StatusPending :: status where "StatusPending = ''pending''"
definition StatusDone :: status where "StatusDone = ''done''"
definition StatusError :: status where "StatusError = ''error''"

lemmas status_defs = StatusPending_def StatusDone_def StatusError_def

definition FormatJSON :: format where "FormatJSON = ''json''"
definition FormatXML :: format where "FormatXML = ''xml''"
definition FormatNDJSON :: format where "FormatNDJSON = ''ndjson''"
definition FormatSSE :: format where "FormatSSE = ''sse''"
definition FormatRaw :: format where "FormatRaw = ''raw''"

lemmas format_defs = FormatJSON_def FormatXML_def FormatNDJSON_def FormatSSE_def FormatRaw_def

definition SideRequest :: side where "SideRequest = ''request''"
definition SideResponse :: side where "SideResponse = ''response''"

lemmas side_defs = SideRequest_def SideResponse_def

record entry =
  ID :: bytes
  Method :: bytes
  URL :: bytes
  Status :: status
  StatusCode :: int
  Error :: bytes
  RequestFormat :: format
  ResponseFormat :: format
  IsOllama :: bool
  IsReplay :: bool
  RequestHeaders :: header
  ResponseHeaders :: header
  RequestBody :: bytes
  RequestBodyPath :: bytes
  RequestBodySize :: int
  RequestSpilled :: bool
  ResponseBody :: bytes
  ResponseBodyPath :: bytes
  ResponseBodySize :: int
  ResponseSpilled :: bool
  StartedAt :: gotime
  FinishedAt :: "gotime option"
  TTFBMs :: "int option"
  StreamMs :: "int option"
  TotalMs :: "int option"

text \<open>The zero value \<open>Entry{}\<close>, from which composite literals start.\<close>

definition zero_entry :: entry where
  "zero_entry = \<lparr>ID = [], Method = [], URL = [], Status = [], StatusCode = 0, Error = [],
     RequestFormat = [], ResponseFormat = [], IsOllama = False, IsReplay = False,
     RequestHeaders = [], ResponseHeaders = [],
     RequestBody = [], RequestBodyPath = [], RequestBodySize = 0, RequestSpilled = False,
     ResponseBody = [], ResponseBodyPath = [], ResponseBodySize = 0, ResponseSpilled = False,
     StartedAt = zero_time, FinishedAt = None, TTFBMs = None, StreamMs = None, TotalMs = None\<rparr>"

definition cloneHeader :: "header \<Rightarrow> header" where
  "cloneHeader h = map (\<lambda>(k, vs). (k, map id vs)) h"

definition cloneInt64 :: "int option \<Rightarrow> int option" where
  "cloneInt64 v = (case v of None \<Rightarrow> None | Some n \<Rightarrow> Some n)"

definition Clone :: "entry \<Rightarrow> entry" where
  "Clone e = e\<lparr>RequestHeaders := cloneHeader (RequestHeaders e),
     ResponseHeaders := cloneHeader (ResponseHeaders e),
     RequestBody := [] @ RequestBody e,
     ResponseBody := [] @ ResponseBody e,
     FinishedAt := (case FinishedAt e of None \<Rightarrow> None | Some t \<Rightarrow> Some t),
     TTFBMs := cloneInt64 (TTFBMs e),
     StreamMs := cloneInt64 (StreamMs e),
     TotalMs := cloneInt64 (TotalMs e)\<rparr>"

lemma cloneHeader_id [simp]: "cloneHeader h = h"
  by (induction h) (auto simp: cloneHeader_def)

lemma cloneInt64_id [simp]: "cloneInt64 v = v"
  by (cases v) (simp_all add: cloneInt64_def)

text \<open>Copies share nothing in the model, so a clone is the value itself.\<close>

lemma Clone_id [simp]: "Clone e = e"
  by (cases e) (auto simp: Clone_def split: option.splits)

text \<open>The errors returned by the store, by where they arise.\<close>

datatype go_error =
    ErrNotFound
  | ErrDataDir
  | ErrRand
  | ErrOS bytes
  | ErrSQL
  | ErrJSON

end
