(* ===== verification/Contracts.thy ===== *)
theory Contracts
  imports Prelude
begin

text \<open>
  The interfaces between the components, as locales: the operations a client calls and the
  laws it relies on. Each is interpreted on the model's own definitions in the theory of the
  component that provides it, and the client's lemmas are proved here or in the client's
  theory, inside the locale.
\<close>

section \<open>The event bus: what the store relies on from the broker\<close>

text \<open>
  \<open>live n b\<close>: subscriber \<open>n\<close> is connected; \<open>seen n b\<close>: the events queued for it. A publication
  reaches every subscriber that stays connected, at the end of its queue, and never touches a
  disconnected one.
\<close>

locale event_bus =
  fixes publish :: "'e \<Rightarrow> 'b \<Rightarrow> 'b"
    and ok :: "'b \<Rightarrow> bool"
    and live :: "nat \<Rightarrow> 'b \<Rightarrow> bool"
    and seen :: "nat \<Rightarrow> 'b \<Rightarrow> 'e list"
  assumes publish_ok: "ok b \<Longrightarrow> ok (publish e b)"
    and publish_live: "ok b \<Longrightarrow> live n (publish e b) \<Longrightarrow> live n b \<and> seen n (publish e b) = seen n b @ [e]"
    and publish_dead: "ok b \<Longrightarrow> \<not> live n (publish e b) \<Longrightarrow> seen n (publish e b) = seen n b"
begin

lemma fold_publish_ok: "ok b \<Longrightarrow> ok (fold publish es b)"
  by (rule fold_invariant) (auto intro: publish_ok)

lemma fold_publish_live:
  assumes "ok b" "live n (fold publish es b)"
  shows "live n b \<and> seen n (fold publish es b) = seen n b @ es"
  using assms
proof (induction es arbitrary: b)
  case (Cons e es)
  then have "live n (publish e b) \<and>
      seen n (fold publish (e # es) b) = seen n (publish e b) @ es"
    by (simp add: publish_ok)
  with Cons.prems(1) show ?case by (auto dest: publish_live)
qed simp

lemma fold_publish_dead:
  assumes "ok b" "\<not> live n b"
  shows "\<not> live n (fold publish es b) \<and> seen n (fold publish es b) = seen n b"
  using assms
proof (induction es arbitrary: b)
  case (Cons e es)
  then have "\<not> live n (publish e b)" by (auto dest: publish_live)
  moreover from this Cons.prems have "seen n (publish e b) = seen n b"
    by (auto intro: publish_dead)
  ultimately show ?case using Cons.IH [of "publish e b"] Cons.prems by (auto intro: publish_ok)
qed simp

text \<open>Whatever happens, a subscriber is handed a prefix of what is published, in order.\<close>

lemma fold_publish_prefix:
  assumes "ok b"
  shows "\<exists>k. seen n (fold publish es b) = seen n b @ take k es"
  using assms
proof (induction es arbitrary: b)
  case (Cons e es)
  show ?case
  proof (cases "live n (publish e b)")
    case True
    then have s: "seen n (publish e b) = seen n b @ [e]" using Cons.prems by (auto dest: publish_live)
    obtain k where "seen n (fold publish es (publish e b)) = seen n (publish e b) @ take k es"
      using Cons publish_ok by blast
    with s have "seen n (fold publish (e # es) b) = seen n b @ take (Suc k) (e # es)" by simp
    then show ?thesis by blast
  next
    case False
    then have "seen n (publish e b) = seen n b" using Cons.prems by (auto intro: publish_dead)
    moreover have "seen n (fold publish es (publish e b)) = seen n (publish e b)"
      using False Cons.prems fold_publish_dead publish_ok by blast
    ultimately have "seen n (fold publish (e # es) b) = seen n b @ take 0 (e # es)" by simp
    then show ?thesis by blast
  qed
qed simp

end


section \<open>A byte sink: what a producer of fragments relies on\<close>

text \<open>
  \<open>holds c s\<close>: the sink \<open>s\<close> is healthy and has taken exactly the bytes \<open>c\<close>. A write that
  reports success appends its bytes; nothing is asked of a write that reports an error.
\<close>

fun write_all :: "('p \<Rightarrow> 's \<Rightarrow> ('e + nat) \<times> 's) \<Rightarrow> 'p list \<Rightarrow> 's \<Rightarrow> ('e + nat) list \<times> 's" where
  "write_all w [] s = ([], s)"
| "write_all w (p # ps) s =
     (let (r, s1) = w p s; (rs, s2) = write_all w ps s1 in (r # rs, s2))"

locale byte_sink =
  fixes wr :: "bytes \<Rightarrow> 's \<Rightarrow> ('e + nat) \<times> 's"
    and holds :: "bytes \<Rightarrow> 's \<Rightarrow> bool"
  assumes write_ok: "holds c s \<Longrightarrow> wr p s = (Inr n, s') \<Longrightarrow> n = length p \<and> holds (c @ p) s'"
begin

lemma write_all_ok:
  assumes "holds c s" "write_all wr ps s = (rs, s')" "\<forall>r \<in> set rs. is_ok r"
  shows "holds (c @ concat ps) s'"
  using assms
proof (induction ps arbitrary: c s rs)
  case (Cons p ps)
  obtain r s1 rs1 where w: "wr p s = (r, s1)" "write_all wr ps s1 = (rs1, s')" "rs = r # rs1"
    using Cons.prems(2) by (auto simp: Let_def split: prod.splits)
  with Cons.prems have "holds (c @ p) s1" by (auto dest: write_ok elim: is_okE)
  with Cons.IH [OF this w(2)] w Cons.prems(3) show ?case by simp
qed simp

text \<open>How the bytes are cut into fragments does not matter.\<close>

lemma write_all_fragments:
  assumes "holds c s" "write_all wr ps s = (rs, s')" "\<forall>r \<in> set rs. is_ok r"
    and "write_all wr qs s = (rs', s'')" "\<forall>r \<in> set rs'. is_ok r" "concat ps = concat qs"
  shows "\<exists>d. holds d s' \<and> holds d s''"
  using write_all_ok [OF assms(1-3)] write_all_ok [OF assms(1,4,5)] assms(6) by auto

end


section \<open>A response sink: what the capturing reader relies on from the store\<close>

text \<open>
  \<open>holds c s\<close>: the response of the entry in question is in flight and is \<open>c\<close> so far. \<open>good e\<close>: the
  circumstances \<open>e\<close> of a call, its clock and system calls, are such that it does not fail. Appending
  appends, and an update of the entry's metadata leaves its bytes alone.
\<close>

locale response_sink =
  fixes append :: "'e \<Rightarrow> bytes \<Rightarrow> bool \<Rightarrow> 's \<Rightarrow> 's"
    and update :: "'e \<Rightarrow> 'u \<Rightarrow> 's \<Rightarrow> 's"
    and good :: "'e \<Rightarrow> bool"
    and harmless :: "'u \<Rightarrow> bool"
    and holds :: "bytes \<Rightarrow> 's \<Rightarrow> bool"
  assumes append_holds: "good e \<Longrightarrow> holds c s \<Longrightarrow> holds (c @ p) (append e p d s)"
    and update_holds: "harmless u \<Longrightarrow> holds c s \<Longrightarrow> holds c (update e u s)"
begin

text \<open>A list of appends, each in circumstances of its own.\<close>

lemma fold_append_holds:
  assumes "\<forall>(e, p, d) \<in> set calls. good e" "holds c s"
  shows "holds (c @ concat (map (\<lambda>(e, p, d). p) calls)) (fold (\<lambda>(e, p, d). append e p d) calls s)"
  using assms
proof (induction calls arbitrary: c s)
  case (Cons call calls)
  obtain e p d where "call = (e, p, d)" by (cases call)
  with Cons.prems Cons.IH [of "c @ p" "append e p d s"] append_holds [of e c s p d] show ?case by simp
qed simp

end

end
