(* ===== verification/Events.thy ===== *)
theory Events
  imports Entry Contracts
begin

text \<open>
  \<open>internal/store/events.go\<close>: events, the broker and its subscribers' channels.

  A buffered Go channel is its queue of unreceived values and its closed flag; the heap of
  channels is the function \<open>chans\<close>, an address is a \<^typ>\<open>nat\<close>, and \<open>next_chan\<close> is the next
  fresh one. \<open>subs\<close> lists the keys of the map \<open>subs\<close> in the order a \<open>range\<close> visits them.
  Closing a closed channel and sending on one are run-time panics in Go: the flag \<open>panicked\<close>
  records that one happened. Every operation holds the broker's mutex from its first to its
  last access, so each is one atomic step.
\<close>

datatype event_type = EventCreated | EventUpdated | EventDelta | EventDeleted

record event =
  ev_Type :: event_type
  ev_ID :: bytes
  ev_Entry :: "entry option"
  ev_Chunk :: bytes

record chan =
  queue :: "event list"
  chan_closed :: bool

record broker =
  subs :: "nat list"
  chans :: "nat \<Rightarrow> chan"
  next_chan :: nat
  closed :: bool
  panicked :: bool

definition subscriberBuffer :: nat where
  "subscriberBuffer = 256"

definition fresh_chan :: chan where
  "fresh_chan = \<lparr>queue = [], chan_closed = False\<rparr>"

definition NewBroker :: broker where
  "NewBroker = \<lparr>subs = [], chans = (\<lambda>_. fresh_chan), next_chan = 0, closed = False, panicked = False\<rparr>"

section \<open>Channel operations of the language\<close>

definition close_chan :: "nat \<Rightarrow> broker \<Rightarrow> broker" where
  "close_chan ch b =
     (if chan_closed (chans b ch) then b\<lparr>panicked := True\<rparr>
      else b\<lparr>chans := (chans b)(ch := (chans b ch)\<lparr>chan_closed := True\<rparr>)\<rparr>)"

definition delete_sub :: "nat \<Rightarrow> broker \<Rightarrow> broker" where
  "delete_sub ch b = b\<lparr>subs := removeAll ch (subs b)\<rparr>"

text \<open>The pair \<open>delete(b.subs, ch); close(ch)\<close>.\<close>

definition disconnect :: "nat \<Rightarrow> broker \<Rightarrow> broker" where
  "disconnect ch b = close_chan ch (delete_sub ch b)"

text \<open>A receive: the oldest value; else \<open>ok = false\<close> on a closed channel; else it blocks.\<close>

datatype received = Received event | ChanClosed | Blocked

definition chan_receive :: "nat \<Rightarrow> broker \<Rightarrow> received \<times> broker" where
  "chan_receive ch b =
     (case queue (chans b ch) of
        ev # q \<Rightarrow> (Received ev, b\<lparr>chans := (chans b)(ch := (chans b ch)\<lparr>queue := q\<rparr>)\<rparr>)
      | [] \<Rightarrow> (if chan_closed (chans b ch) then (ChanClosed, b) else (Blocked, b)))"

section \<open>The broker\<close>

text \<open>The function \<open>Subscribe\<close> returns releases its channel once (\<open>sync.Once\<close>).\<close>

datatype release = NoRelease | Release nat

record unsubscriber =
  target :: release
  once_done :: bool

definition Subscribe :: "broker \<Rightarrow> nat \<times> unsubscriber \<times> broker" where
  "Subscribe b =
     (let ch = next_chan b;
          b1 = b\<lparr>chans := (chans b)(ch := fresh_chan), next_chan := Suc ch\<rparr>
      in if closed b then (ch, \<lparr>target = NoRelease, once_done = False\<rparr>, close_chan ch b1)
         else (ch, \<lparr>target = Release ch, once_done = False\<rparr>, b1\<lparr>subs := subs b1 @ [ch]\<rparr>))"

definition drop_sub :: "nat \<Rightarrow> broker \<Rightarrow> broker" where
  "drop_sub ch b = (if ch \<in> set (subs b) then disconnect ch b else b)"

definition unsubscribe :: "unsubscriber \<Rightarrow> broker \<Rightarrow> unsubscriber \<times> broker" where
  "unsubscribe u b =
     (case target u of
        NoRelease \<Rightarrow> (u, b)
      | Release ch \<Rightarrow> if once_done u then (u, b) else (u\<lparr>once_done := True\<rparr>, drop_sub ch b))"

text \<open>One iteration of the loop of \<open>Publish\<close>: the \<open>select\<close> with a \<open>default\<close> branch.\<close>

definition publish_to :: "event \<Rightarrow> nat \<Rightarrow> broker \<Rightarrow> broker" where
  "publish_to ev ch b =
     (if chan_closed (chans b ch) then b\<lparr>panicked := True\<rparr>
      else if length (queue (chans b ch)) < subscriberBuffer
      then b\<lparr>chans := (chans b)(ch := (chans b ch)\<lparr>queue := queue (chans b ch) @ [ev]\<rparr>)\<rparr>
      else disconnect ch b)"

definition Publish :: "event \<Rightarrow> broker \<Rightarrow> broker" where
  "Publish ev b = (if closed b then b else fold (publish_to ev) (subs b) b)"

definition Close_broker :: "broker \<Rightarrow> broker" where
  "Close_broker b =
     (if closed b then b
      else fold disconnect (subs b) (b\<lparr>closed := True\<rparr>))"

section \<open>The broker's invariant\<close>

text \<open>
  The channels of \<open>subs\<close> are distinct, allocated and open, every other allocated channel is
  closed, none holds more than its capacity, a closed broker has no subscriber, and nothing
  has panicked.
\<close>

definition broker_ok :: "broker \<Rightarrow> bool" where
  "broker_ok b \<longleftrightarrow> distinct (subs b) \<and> \<not> panicked b \<and> (closed b \<longrightarrow> subs b = []) \<and>
     (\<forall>ch \<in> set (subs b). ch < next_chan b) \<and>
     (\<forall>ch < next_chan b. chan_closed (chans b ch) \<longleftrightarrow> ch \<notin> set (subs b)) \<and>
     (\<forall>ch < next_chan b. length (queue (chans b ch)) \<le> subscriberBuffer)"

lemma broker_okI:
  assumes "distinct (subs b)" "\<not> panicked b" "closed b \<Longrightarrow> subs b = []"
    "\<And>ch. ch \<in> set (subs b) \<Longrightarrow> ch < next_chan b"
    "\<And>ch. ch < next_chan b \<Longrightarrow> chan_closed (chans b ch) \<longleftrightarrow> ch \<notin> set (subs b)"
    "\<And>ch. ch < next_chan b \<Longrightarrow> length (queue (chans b ch)) \<le> subscriberBuffer"
  shows "broker_ok b"
  using assms by (auto simp: broker_ok_def)

lemma broker_ok_sub:
  "broker_ok b \<Longrightarrow> ch \<in> set (subs b) \<Longrightarrow> ch < next_chan b \<and> \<not> chan_closed (chans b ch)"
  by (auto simp: broker_ok_def)

lemma broker_ok_NewBroker [inv_intros]: "broker_ok NewBroker"
  by (simp add: broker_ok_def NewBroker_def)

lemma broker_ok_Subscribe [inv_intros]:
  "broker_ok b \<Longrightarrow> Subscribe b = (ch, u, b') \<Longrightarrow> broker_ok b'"
  by (auto simp: Subscribe_def Let_def broker_ok_def close_chan_def fresh_chan_def less_Suc_eq
      split: if_splits)

lemma broker_ok_drop_sub [inv_intros]: "broker_ok b \<Longrightarrow> broker_ok (drop_sub ch b)"
  by (auto simp: drop_sub_def disconnect_def close_chan_def delete_sub_def broker_ok_def distinct_removeAll)

lemma broker_ok_unsubscribe [inv_intros]:
  "broker_ok b \<Longrightarrow> unsubscribe u b = (u', b') \<Longrightarrow> broker_ok b'"
  by (auto simp: unsubscribe_def broker_ok_drop_sub split: release.splits if_splits)

lemma broker_ok_chan_receive [inv_intros]:
  "broker_ok b \<Longrightarrow> chan_receive ch b = (r, b') \<Longrightarrow> broker_ok b'"
  by (auto simp: chan_receive_def broker_ok_def split: list.splits if_splits) fastforce+


section \<open>Publish in closed form\<close>

text \<open>What one publication does to one channel: queue the event, or disconnect a full one.\<close>

definition has_room :: "chan \<Rightarrow> bool" where
  "has_room c \<longleftrightarrow> length (queue c) < subscriberBuffer"

definition offered :: "event \<Rightarrow> chan \<Rightarrow> chan" where
  "offered ev c = (if has_room c then c\<lparr>queue := queue c @ [ev]\<rparr> else c\<lparr>chan_closed := True\<rparr>)"

lemma publish_to_open:
  "\<not> chan_closed (chans b ch) \<Longrightarrow>
   publish_to ev ch b = b\<lparr>chans := (chans b)(ch := offered ev (chans b ch)),
     subs := (if has_room (chans b ch) then subs b else removeAll ch (subs b))\<rparr>"
  by (simp add: publish_to_def offered_def has_room_def disconnect_def close_chan_def delete_sub_def)

lemma publish_to_frame [frame_simps]:
  "closed (publish_to ev ch b) = closed b" "next_chan (publish_to ev ch b) = next_chan b"
  by (simp_all add: publish_to_def disconnect_def close_chan_def delete_sub_def)

lemma fold_publish_to:
  assumes "distinct xs" "\<And>ch. ch \<in> set xs \<Longrightarrow> \<not> chan_closed (chans b ch)"
  shows "fold (publish_to ev) xs b =
    b\<lparr>chans := (\<lambda>ch. if ch \<in> set xs then offered ev (chans b ch) else chans b ch),
      subs := filter (\<lambda>ch. ch \<in> set xs \<longrightarrow> has_room (chans b ch)) (subs b)\<rparr>"
  using assms
proof (induction xs arbitrary: b)
  case (Cons x xs)
  let ?b = "publish_to ev x b"
  have b: "?b = b\<lparr>chans := (chans b)(x := offered ev (chans b x)),
      subs := (if has_room (chans b x) then subs b else removeAll x (subs b))\<rparr>"
    using Cons.prems by (simp add: publish_to_open)
  have "fold (publish_to ev) xs ?b =
      ?b\<lparr>chans := (\<lambda>ch. if ch \<in> set xs then offered ev (chans ?b ch) else chans ?b ch),
        subs := filter (\<lambda>ch. ch \<in> set xs \<longrightarrow> has_room (chans ?b ch)) (subs ?b)\<rparr>"
    using Cons.prems by (intro Cons.IH) (auto simp: b)
  then show ?case
    using Cons.prems
    by (auto simp: b fun_eq_iff removeAll_filter_not_eq intro!: filter_cong broker.fold_congs
        cong: conj_cong)
qed (auto simp: fun_eq_iff)

lemma Publish_eq:
  assumes "broker_ok b"
  shows "Publish ev b =
    b\<lparr>chans := (\<lambda>ch. if ch \<in> set (subs b) then offered ev (chans b ch) else chans b ch),
      subs := filter (\<lambda>ch. has_room (chans b ch)) (subs b)\<rparr>"
proof (cases "closed b")
  case True
  with assms have "subs b = []" by (simp add: broker_ok_def)
  with True show ?thesis by (simp add: Publish_def)
next
  case False
  with assms show ?thesis
    by (simp add: Publish_def fold_publish_to broker_ok_def cong: filter_cong)
qed

lemma broker_ok_Publish [inv_intros]: "broker_ok b \<Longrightarrow> broker_ok (Publish ev b)"
  by (auto simp: Publish_eq broker_ok_def offered_def has_room_def Suc_le_eq)

lemma disconnect_open:
  "\<not> chan_closed (chans b ch) \<Longrightarrow>
   disconnect ch b = b\<lparr>chans := (chans b)(ch := (chans b ch)\<lparr>chan_closed := True\<rparr>),
     subs := removeAll ch (subs b)\<rparr>"
  by (simp add: disconnect_def close_chan_def delete_sub_def)

lemma fold_disconnect:
  assumes "distinct xs" "\<And>ch. ch \<in> set xs \<Longrightarrow> \<not> chan_closed (chans b ch)"
  shows "fold disconnect xs b =
    b\<lparr>chans := (\<lambda>ch. if ch \<in> set xs then (chans b ch)\<lparr>chan_closed := True\<rparr> else chans b ch),
      subs := filter (\<lambda>ch. ch \<notin> set xs) (subs b)\<rparr>"
  using assms
proof (induction xs arbitrary: b)
  case (Cons x xs)
  let ?b = "disconnect x b"
  have b: "?b = b\<lparr>chans := (chans b)(x := (chans b x)\<lparr>chan_closed := True\<rparr>),
      subs := removeAll x (subs b)\<rparr>"
    using Cons.prems by (simp add: disconnect_open)
  have "fold disconnect xs ?b =
      ?b\<lparr>chans := (\<lambda>ch. if ch \<in> set xs then (chans ?b ch)\<lparr>chan_closed := True\<rparr> else chans ?b ch),
        subs := filter (\<lambda>ch. ch \<notin> set xs) (subs ?b)\<rparr>"
    using Cons.prems by (intro Cons.IH) (auto simp: b)
  then show ?case
    using Cons.prems
    by (auto simp: b fun_eq_iff removeAll_filter_not_eq intro!: filter_cong broker.fold_congs)
qed (auto simp: fun_eq_iff)

lemma broker_ok_Close [inv_intros]: "broker_ok b \<Longrightarrow> broker_ok (Close_broker b)"
  by (auto simp: Close_broker_def fold_disconnect broker_ok_def)


section \<open>The broker as an event bus\<close>

definition subscribed :: "nat \<Rightarrow> broker \<Rightarrow> bool" where
  "subscribed ch b \<longleftrightarrow> ch \<in> set (subs b)"

definition unread :: "nat \<Rightarrow> broker \<Rightarrow> event list" where
  "unread ch b = queue (chans b ch)"

interpretation bus: event_bus Publish broker_ok subscribed unread
proof unfold_locales
  fix ev b n
  assume ok: "broker_ok b"
  then show "broker_ok (Publish ev b)" by (rule broker_ok_Publish)
  show "subscribed n b \<and> unread n (Publish ev b) = unread n b @ [ev]"
    if "subscribed n (Publish ev b)"
    using that by (auto simp: subscribed_def unread_def Publish_eq [OF ok] offered_def)
  show "unread n (Publish ev b) = unread n b" if "\<not> subscribed n (Publish ev b)"
    using that by (auto simp: subscribed_def unread_def Publish_eq [OF ok] offered_def)
qed

lemma Publish_disconnects_full:
  assumes "broker_ok b" "subscribed ch b"
  shows "subscribed ch (Publish ev b) \<longleftrightarrow> length (unread ch b) < subscriberBuffer"
  using assms by (simp add: Publish_eq subscribed_def unread_def has_room_def)

lemma fold_Publish_stays:
  assumes "broker_ok b" "subscribed ch b" "length (unread ch b) + length evs \<le> subscriberBuffer"
  shows "subscribed ch (fold Publish evs b)"
  using assms
proof (induction evs arbitrary: b)
  case (Cons ev evs)
  then have s: "subscribed ch (Publish ev b)" by (simp add: Publish_disconnects_full)
  moreover have "unread ch (Publish ev b) = unread ch b @ [ev]"
    using bus.publish_live [OF Cons.prems(1) s] by simp
  ultimately show ?case
    using Cons.IH [of "Publish ev b"] Cons.prems by (simp add: broker_ok_Publish)
qed simp

section \<open>Every sequence of calls\<close>

inductive broker_step :: "broker \<Rightarrow> broker \<Rightarrow> bool" where
  subscribe: "Subscribe b = (ch, u, b') \<Longrightarrow> broker_step b b'"
| release: "unsubscribe u b = (u', b') \<Longrightarrow> broker_step b b'"
| publish: "broker_step b (Publish ev b)"
| receive: "chan_receive ch b = (r, b') \<Longrightarrow> broker_step b b'"
| close: "broker_step b (Close_broker b)"

inductive_cases broker_stepE: "broker_step b b'"

inductive broker_reachable :: "broker \<Rightarrow> bool" where
  init: "broker_reachable NewBroker"
| step: "broker_reachable b \<Longrightarrow> broker_step b b' \<Longrightarrow> broker_reachable b'"

lemma broker_step_ok [inv_intros]: "broker_step b b' \<Longrightarrow> broker_ok b \<Longrightarrow> broker_ok b'"
  by (elim broker_stepE) (auto intro: inv_intros)

lemma broker_reachable_ok: "broker_reachable b \<Longrightarrow> broker_ok b"
  by (induction rule: broker_reachable.induct) (auto intro: inv_intros)

section \<open>Properties\<close>

text \<open>
  C36. No sequence of \<open>Subscribe\<close>, unsubscribe, \<open>Publish\<close>, receive and \<open>Close\<close> calls panics:
  no channel is closed twice or sent on after being closed. In every such state a channel
  holds at most 256 unread events, and exactly the channels that are not subscribed are closed.
\<close>

theorem broker_never_panics:
  assumes "broker_reachable b"
  shows "\<not> panicked b \<and>
    (\<forall>ch < next_chan b. length (unread ch b) \<le> 256 \<and>
       (chan_closed (chans b ch) \<longleftrightarrow> \<not> subscribed ch b))"
  using broker_reachable_ok [OF assms]
  by (auto simp: broker_ok_def unread_def subscribed_def subscriberBuffer_def)

definition example_broker :: broker where
  "example_broker = (let (ch, u, b) = Subscribe NewBroker in b)"

lemma example_broker_reachable: "broker_reachable example_broker"
  unfolding example_broker_def
  by (rule broker_reachable.step [OF broker_reachable.init])
    (auto simp: Subscribe_def Let_def intro: broker_step.subscribe)

lemma broker_never_panics_witness:
  "\<not> panicked example_broker \<and> length (unread 0 example_broker) \<le> 256"
  using broker_never_panics [OF example_broker_reachable]
  by (auto simp: example_broker_def Subscribe_def NewBroker_def)

text \<open>
  Delivery: over any series of publications a subscriber is handed, in order and without
  loss or repetition, the published events up to the point where it is disconnected; if it is
  still connected at the end it has all of them.
\<close>

lemma delivery_in_order:
  assumes "broker_ok b"
  shows "(\<exists>k. unread ch (fold Publish evs b) = unread ch b @ take k evs) \<and>
    (subscribed ch (fold Publish evs b) \<longrightarrow> unread ch (fold Publish evs b) = unread ch b @ evs)"
  using bus.fold_publish_prefix [OF assms] bus.fold_publish_live [OF assms] by blast

lemma delivery_in_order_example:
  "\<exists>k. unread 0 (fold Publish [\<lparr>ev_Type = EventDeleted, ev_ID = ''a'', ev_Entry = None, ev_Chunk = []\<rparr>]
      NewBroker) = unread 0 NewBroker @ take k [\<lparr>ev_Type = EventDeleted, ev_ID = ''a'', ev_Entry = None, ev_Chunk = []\<rparr>]"
  using delivery_in_order [OF broker_ok_NewBroker] by blast

text \<open>
  A slow subscriber neither blocks nor disturbs anyone: a publication disconnects exactly
  the subscribers whose 256-event buffer is full, and every other subscriber receives the event.
\<close>

lemma slow_subscriber_is_dropped:
  assumes "broker_ok b" "subscribed ch b"
  shows "(length (unread ch b) = 256 \<longrightarrow>
            \<not> subscribed ch (Publish ev b) \<and> chan_closed (chans (Publish ev b) ch) \<and>
            unread ch (Publish ev b) = unread ch b) \<and>
    (length (unread ch b) < 256 \<longrightarrow>
            subscribed ch (Publish ev b) \<and> unread ch (Publish ev b) = unread ch b @ [ev])"
  using assms
  by (auto simp: Publish_eq subscribed_def unread_def offered_def has_room_def subscriberBuffer_def)

lemma slow_subscriber_is_dropped_example:
  "unread 0 (Publish \<lparr>ev_Type = EventDeleted, ev_ID = ''a'', ev_Entry = None, ev_Chunk = []\<rparr> example_broker)
     = [\<lparr>ev_Type = EventDeleted, ev_ID = ''a'', ev_Entry = None, ev_Chunk = []\<rparr>]"
proof -
  have "subscribed 0 example_broker" "unread 0 example_broker = []"
    by (simp_all add: example_broker_def Subscribe_def NewBroker_def subscribed_def unread_def
        fresh_chan_def)
  then show ?thesis
    using slow_subscriber_is_dropped [OF broker_reachable_ok [OF example_broker_reachable], of 0]
    by simp
qed

end
