(* ===== verification/Blobs.thy ===== *)
theory Blobs
  imports Entry Contracts
begin

text \<open>
  \<open>internal/store/blobs.go\<close>: the directory of oversized bodies and the buffer that accumulates
  one body, in memory up to the inline threshold and in a file past it.

  The file system is a directory (paths to inodes), the inodes' contents and an allocation
  counter, so that a file that is removed while open keeps its inode and a file that is
  created again over an existing one truncates it. An \<open>*os.File\<close> is the number of its inode;
  each comes from \<open>os.Create\<close> and is written from its start, so a write appends. Which
  operating-system calls fail during one operation is the argument \<open>env\<close>, over which
  every theorem quantifies unless it says otherwise.
\<close>

section \<open>The operating system's files\<close>

record fs =
  dir :: "(bytes \<times> nat) list"
  inodes :: "nat \<Rightarrow> bytes"
  next_inode :: nat

record os_env =
  mkdir_ok :: bool
  create_ok :: bool
  head_short :: "nat option"
  tail_short :: "nat option"
  readdir_ok :: bool
  remove_ok :: "bytes \<Rightarrow> bool"
  open_ok :: bool

text \<open>The environment in which no call fails.\<close>

definition os_fine :: os_env where
  "os_fine = \<lparr>mkdir_ok = True, create_ok = True, head_short = None, tail_short = None,
     readdir_ok = True, remove_ok = (\<lambda>_. True), open_ok = True\<rparr>"

definition file_at :: "fs \<Rightarrow> bytes \<Rightarrow> bytes option" where
  "file_at fs p = map_option (inodes fs) (map_of (dir fs) p)"

definition os_Create :: "bytes \<Rightarrow> fs \<Rightarrow> nat \<times> fs" where
  "os_Create p fs =
     (case map_of (dir fs) p of
        Some i \<Rightarrow> (i, fs\<lparr>inodes := (inodes fs)(i := [])\<rparr>)
      | None \<Rightarrow> (let i = next_inode fs in
          (i, fs\<lparr>dir := AList.update p i (dir fs), inodes := (inodes fs)(i := []), next_inode := Suc i\<rparr>)))"

text \<open>\<open>File.Write\<close>: all bytes, or the first \<open>n\<close> of them and an error.\<close>

definition os_Write :: "nat \<Rightarrow> bytes \<Rightarrow> nat option \<Rightarrow> fs \<Rightarrow> (go_error + nat) \<times> fs" where
  "os_Write h p short fs =
     (case short of
        None \<Rightarrow> (Inr (length p), fs\<lparr>inodes := (inodes fs)(h := inodes fs h @ p)\<rparr>)
      | Some n \<Rightarrow> (Inl (ErrOS ''write''), fs\<lparr>inodes := (inodes fs)(h := inodes fs h @ take n p)\<rparr>))"

definition os_Remove :: "os_env \<Rightarrow> bytes \<Rightarrow> fs \<Rightarrow> (go_error + unit) \<times> fs" where
  "os_Remove env p fs =
     (if map_of (dir fs) p = None \<or> \<not> remove_ok env p then (Inl (ErrOS ''remove''), fs)
      else (Inr (), fs\<lparr>dir := AList.delete p (dir fs)\<rparr>))"

definition os_Open :: "os_env \<Rightarrow> bytes \<Rightarrow> fs \<Rightarrow> go_error + bytes" where
  "os_Open env p fs =
     (if \<not> open_ok env then Inl (ErrOS ''open'')
      else case file_at fs p of None \<Rightarrow> Inl (ErrOS ''open'') | Some c \<Rightarrow> Inr c)"

text \<open>\<open>filepath.Join(dir, name)\<close> for a clean \<open>dir\<close> and a plain file name.\<close>

definition path_join :: "bytes \<Rightarrow> bytes \<Rightarrow> bytes" where
  "path_join d n = d @ ''/'' @ n"

text \<open>The names \<open>os.ReadDir(d)\<close> lists: the entries directly inside \<open>d\<close>.\<close>

definition os_ReadDir :: "os_env \<Rightarrow> bytes \<Rightarrow> fs \<Rightarrow> go_error + bytes list" where
  "os_ReadDir env d fs =
     (if \<not> readdir_ok env then Inl (ErrOS ''readdir'')
      else Inr (filter (\<lambda>n. CHR ''/'' \<notin> set n)
             (map (drop (length d + 1)) (filter (prefix (d @ ''/'')) (map fst (dir fs))))))"

section \<open>The blob store\<close>

record blobStore =
  blob_dir :: bytes
  maxInline :: int

definition newBlobStore :: "os_env \<Rightarrow> bytes \<Rightarrow> int \<Rightarrow> go_error + blobStore" where
  "newBlobStore env d m =
     (if mkdir_ok env then Inr \<lparr>blob_dir = d, maxInline = m\<rparr> else Inl (ErrOS ''mkdir''))"

definition blob_name :: "bytes \<Rightarrow> side \<Rightarrow> bytes" where
  "blob_name eid sd = eid @ ''-'' @ sd"

definition blob_path :: "blobStore \<Rightarrow> bytes \<Rightarrow> side \<Rightarrow> bytes" where
  "blob_path bs eid sd = path_join (blob_dir bs) (blob_name eid sd)"

definition removeFor :: "blobStore \<Rightarrow> os_env \<Rightarrow> bytes \<Rightarrow> fs \<Rightarrow> fs" where
  "removeFor bs env eid fs =
     fold (\<lambda>sd fs. snd (os_Remove env (blob_path bs eid sd) fs)) [SideRequest, SideResponse] fs"

fun remove_names :: "blobStore \<Rightarrow> os_env \<Rightarrow> bytes list \<Rightarrow> fs \<Rightarrow> (go_error + unit) \<times> fs" where
  "remove_names bs env [] fs = (Inr (), fs)"
| "remove_names bs env (n # ns) fs =
     (case os_Remove env (path_join (blob_dir bs) n) fs of
        (Inl e, fs') \<Rightarrow> (Inl e, fs')
      | (Inr _, fs') \<Rightarrow> remove_names bs env ns fs')"

definition removeAll_blobs :: "blobStore \<Rightarrow> os_env \<Rightarrow> fs \<Rightarrow> (go_error + unit) \<times> fs" where
  "removeAll_blobs bs env fs =
     (case os_ReadDir env (blob_dir bs) fs of
        Inl e \<Rightarrow> (Inl e, fs)
      | Inr ns \<Rightarrow> remove_names bs env ns fs)"

text \<open>The id a body file belongs to: its name up to the last dash, if that is not at the start.\<close>

definition blob_owner :: "bytes \<Rightarrow> bytes" where
  "blob_owner name =
     (case LastIndexByte name CHR ''-'' of
        Some i \<Rightarrow> if i > 0 then take i name else name
      | None \<Rightarrow> name)"

definition remove_orphan :: "blobStore \<Rightarrow> os_env \<Rightarrow> bytes list \<Rightarrow> bytes \<Rightarrow> fs \<Rightarrow> fs" where
  "remove_orphan bs env ids name fs =
     (if blob_owner name \<in> set ids then fs
      else snd (os_Remove env (path_join (blob_dir bs) name) fs))"

definition removeOrphans ::
  "blobStore \<Rightarrow> os_env \<Rightarrow> (go_error + bytes list) \<Rightarrow> fs \<Rightarrow> (go_error + unit) \<times> fs" where
  "removeOrphans bs env known fs =
     (case known of
        Inl e \<Rightarrow> (Inl e, fs)
      | Inr ids \<Rightarrow>
        (case os_ReadDir env (blob_dir bs) fs of
           Inl e \<Rightarrow> (Inl e, fs)
         | Inr ns \<Rightarrow> (Inr (), fold (remove_orphan bs env ids) ns fs)))"

section \<open>The body buffer\<close>

record bodyBuffer =
  buf_id :: bytes
  buf_side :: side
  preview :: bytes
  buf_size :: int
  path :: bytes
  fd :: "nat option"
  err :: "go_error option"

definition buffer :: "bytes \<Rightarrow> side \<Rightarrow> bodyBuffer" where
  "buffer eid sd = \<lparr>buf_id = eid, buf_side = sd, preview = [], buf_size = 0, path = [], fd = None, err = None\<rparr>"

text \<open>The switch from memory to a file: create it and write the bytes held so far.\<close>

definition open_spill ::
  "blobStore \<Rightarrow> os_env \<Rightarrow> bodyBuffer \<Rightarrow> fs \<Rightarrow> (go_error + nat) \<times> bodyBuffer \<times> fs" where
  "open_spill bs env b fs =
     (let p = blob_path bs (buf_id b) (buf_side b) in
      if \<not> create_ok env then (Inl (ErrOS ''create''), b\<lparr>err := Some (ErrOS ''create'')\<rparr>, fs)
      else let (h, fs1) = os_Create p fs in
        (case os_Write h (preview b) (head_short env) fs1 of
           (Inl e, fs2) \<Rightarrow> (Inl e, b\<lparr>err := Some e\<rparr>, fs2)
         | (Inr _, fs2) \<Rightarrow> (Inr h, b\<lparr>fd := Some h, path := p\<rparr>, fs2)))"

text \<open>The write to the open file, then the accounting and the preview's remaining room.\<close>

definition write_spilled ::
  "blobStore \<Rightarrow> os_env \<Rightarrow> bytes \<Rightarrow> nat \<Rightarrow> bodyBuffer \<Rightarrow> fs \<Rightarrow> (go_error + nat) \<times> bodyBuffer \<times> fs" where
  "write_spilled bs env p h b fs =
     (case os_Write h p (tail_short env) fs of
        (Inl e, fs') \<Rightarrow> (Inl e, b\<lparr>err := Some e\<rparr>, fs')
      | (Inr _, fs') \<Rightarrow>
        (let b1 = b\<lparr>buf_size := buf_size b + int (length p)\<rparr>;
             room = maxInline bs - int (length (preview b1));
             b2 = (if room > 0
                   then b1\<lparr>preview := preview b1 @ take (nat (min (int (length p)) room)) p\<rparr>
                   else b1)
         in (Inr (length p), b2, fs')))"

definition buf_Write ::
  "blobStore \<Rightarrow> os_env \<Rightarrow> bytes \<Rightarrow> bodyBuffer \<Rightarrow> fs \<Rightarrow> (go_error + nat) \<times> bodyBuffer \<times> fs" where
  "buf_Write bs env p b fs =
     (if p = [] then (Inr 0, b, fs)
      else case err b of
        Some e \<Rightarrow> (Inl e, b, fs)
      | None \<Rightarrow>
        (case fd b of
           None \<Rightarrow>
             if buf_size b + int (length p) \<le> maxInline bs
             then (Inr (length p), b\<lparr>preview := preview b @ p, buf_size := buf_size b + int (length p)\<rparr>, fs)
             else (case open_spill bs env b fs of
                     (Inl e, b', fs') \<Rightarrow> (Inl e, b', fs')
                   | (Inr h, b', fs') \<Rightarrow> write_spilled bs env p h b' fs')
         | Some h \<Rightarrow> write_spilled bs env p h b fs))"

definition buf_Close :: "bodyBuffer \<Rightarrow> bodyBuffer" where
  "buf_Close b = (case fd b of None \<Rightarrow> b | Some _ \<Rightarrow> b\<lparr>fd := None\<rparr>)"

definition buf_state :: "bodyBuffer \<Rightarrow> bytes \<times> bytes \<times> int \<times> bool" where
  "buf_state b = ([] @ preview b, path b, buf_size b, path b \<noteq> [])"


section \<open>File-system facts\<close>

definition fs_ok :: "fs \<Rightarrow> bool" where
  "fs_ok fs \<longleftrightarrow> distinct (map fst (dir fs)) \<and> distinct (map snd (dir fs)) \<and>
     (\<forall>p i. (p, i) \<in> set (dir fs) \<longrightarrow> i < next_inode fs)"

text \<open>A handle is private to a path: no other path leads to its inode.\<close>

definition owns :: "fs \<Rightarrow> bytes \<Rightarrow> nat \<Rightarrow> bool" where
  "owns fs p h \<longleftrightarrow> h < next_inode fs \<and> (\<forall>q. map_of (dir fs) q = Some h \<longrightarrow> q = p)"

lemma fs_ok_inj:
  assumes "fs_ok fs" "map_of (dir fs) p = Some i" "map_of (dir fs) q = Some i"
  shows "p = q"
proof -
  have "distinct (map snd (dir fs))" using assms(1) by (simp add: fs_ok_def)
  moreover have "(p, i) \<in> set (dir fs)" "(q, i) \<in> set (dir fs)"
    using assms(2,3) by (auto dest: map_of_SomeD)
  ultimately show ?thesis by (metis Pair_inject distinct_map inj_onD snd_conv)
qed

lemma fs_ok_owns: "fs_ok fs \<Longrightarrow> map_of (dir fs) p = Some i \<Longrightarrow> owns fs p i"
  using fs_ok_inj by (fastforce simp: owns_def fs_ok_def dest: map_of_SomeD)

lemma AList_update_new: "k \<notin> fst ` set al \<Longrightarrow> AList.update k v al = al @ [(k, v)]"
  by (induction al) auto

lemma os_Create_ok [inv_intros]: "fs_ok fs \<Longrightarrow> os_Create p fs = (h, fs') \<Longrightarrow> fs_ok fs'"
  by (fastforce simp: os_Create_def fs_ok_def Let_def AList_update_new map_of_eq_None_iff less_Suc_eq
      split: option.splits)

lemma os_Write_ok [inv_intros]: "fs_ok fs \<Longrightarrow> os_Write h p sh fs = (r, fs') \<Longrightarrow> fs_ok fs'"
  by (auto simp: os_Write_def fs_ok_def split: option.splits)

lemma os_Remove_ok [inv_intros]: "fs_ok fs \<Longrightarrow> os_Remove env p fs = (r, fs') \<Longrightarrow> fs_ok fs'"
  by (auto simp: os_Remove_def fs_ok_def AList.delete_eq distinct_map_filter image_iff
      split: if_splits)

lemma os_Create_file:
  assumes "fs_ok fs" "os_Create p fs = (h, fs')"
  shows "file_at fs' p = Some []" "map_of (dir fs') p = Some h" "owns fs' p h"
    "q \<noteq> p \<Longrightarrow> file_at fs' q = file_at fs q"
    "next_inode fs \<le> next_inode fs'" "owns fs q i \<Longrightarrow> q \<noteq> p \<Longrightarrow> owns fs' q i"
proof -
  have fresh: "map_of (dir fs) q' \<noteq> Some (next_inode fs)" for q'
    using assms(1) by (auto simp: fs_ok_def dest!: map_of_SomeD)
  show "file_at fs' p = Some []" "map_of (dir fs') p = Some h" "next_inode fs \<le> next_inode fs'"
    using assms(2) by (auto simp: os_Create_def file_at_def Let_def update_conv' split: option.splits)
  then show "owns fs' p h" using fs_ok_owns os_Create_ok assms by blast
  show "file_at fs' q = file_at fs q" if "q \<noteq> p"
    using assms fresh that fs_ok_inj [OF assms(1)]
    by (cases "map_of (dir fs) q")
      (auto simp: os_Create_def file_at_def Let_def update_conv' split: option.splits)
  show "owns fs' q i" if "owns fs q i" "q \<noteq> p"
    using that assms(2)
    by (auto simp: os_Create_def owns_def Let_def update_conv' split: option.splits if_splits)
qed

lemma os_Create_dir:
  "os_Create p fs = (h, fs') \<Longrightarrow> q \<noteq> p \<Longrightarrow> map_of (dir fs') q = map_of (dir fs) q"
  by (auto simp: os_Create_def Let_def update_conv' split: option.splits)

lemma os_Write_other:
  assumes "os_Write h p sh fs = (r, fs')" "owns fs q h" "q' \<noteq> q"
  shows "file_at fs' q' = file_at fs q'"
  using assms
  by (cases "map_of (dir fs) q'") (auto simp: os_Write_def file_at_def owns_def split: option.splits)

lemma os_Write_file:
  assumes "os_Write h p sh fs = (r, fs')"
  shows "dir fs' = dir fs" "next_inode fs' = next_inode fs"
    "inodes fs' h = inodes fs h @ (case sh of None \<Rightarrow> p | Some n \<Rightarrow> take n p)"
    "is_ok r \<longleftrightarrow> sh = None"
    "owns fs' q'' h' = owns fs q'' h'"
  using assms
  by (auto simp: os_Write_def file_at_def owns_def is_ok_def split: option.splits)

lemma os_Remove_file:
  assumes "os_Remove env p fs = (r, fs')"
  shows "file_at fs' q = (if q = p \<and> is_ok r then None else file_at fs q)"
    "next_inode fs' = next_inode fs" "inodes fs' = inodes fs"
    "owns fs q h \<Longrightarrow> owns fs' q h"
    "is_ok r \<longleftrightarrow> file_at fs p \<noteq> None \<and> remove_ok env p"
  using assms
  by (auto simp: os_Remove_def file_at_def owns_def delete_conv' split: if_splits)


section \<open>Names of body files\<close>

lemma side_no_dash: "sd = SideRequest \<or> sd = SideResponse \<Longrightarrow> CHR ''-'' \<notin> set sd"
  by (auto simp: side_defs)

lemma blob_owner_name:
  assumes "eid \<noteq> []" "CHR ''-'' \<notin> set sd"
  shows "blob_owner (blob_name eid sd) = eid"
  using LastIndexByte_append [OF assms(2), of eid] assms(1)
  by (simp add: blob_owner_def blob_name_def)

lemma blob_name_inj:
  assumes "CHR ''-'' \<notin> set sd" "CHR ''-'' \<notin> set sd'"
  shows "blob_name eid sd = blob_name eid' sd' \<longleftrightarrow> eid = eid' \<and> sd = sd'"
proof
  assume eq: "blob_name eid sd = blob_name eid' sd'"
  then have "Some (length eid) = Some (length eid')"
    using LastIndexByte_append [OF assms(1), of eid] LastIndexByte_append [OF assms(2), of eid']
    by (simp add: blob_name_def)
  with eq show "eid = eid' \<and> sd = sd'" by (simp add: blob_name_def)
qed simp

lemma blob_path_inj:
  assumes "CHR ''-'' \<notin> set sd" "CHR ''-'' \<notin> set sd'"
  shows "blob_path bs eid sd = blob_path bs eid' sd' \<longleftrightarrow> eid = eid' \<and> sd = sd'"
  using blob_name_inj [OF assms] by (simp add: blob_path_def path_join_def)

lemma blob_path_nonempty [simp]: "blob_path bs eid sd \<noteq> []"
  by (simp add: blob_path_def path_join_def)

section \<open>The buffer's invariant\<close>

text \<open>
  \<open>buf_inv bs fs c b\<close>: the buffer has acknowledged exactly the bytes \<open>c\<close>. Its size counts them
  and its preview is their first \<open>maxInline\<close>; without a path nothing spilled; with one, the
  buffer's open file belongs to it. \<open>spill_ok\<close> adds what holds of the file when no call failed
  and nobody removed it: it is in place and its content is \<open>c\<close>.
\<close>

definition buf_inv :: "blobStore \<Rightarrow> fs \<Rightarrow> bytes \<Rightarrow> bodyBuffer \<Rightarrow> bool" where
  "buf_inv bs fs c b \<longleftrightarrow>
     buf_size b = int (length c) \<and> preview b = take (nat (maxInline bs)) c \<and>
     (path b = [] \<longrightarrow> fd b = None \<and> int (length c) \<le> maxInline bs) \<and>
     (path b \<noteq> [] \<longrightarrow> path b = blob_path bs (buf_id b) (buf_side b)) \<and>
     (\<forall>h. fd b = Some h \<longrightarrow> owns fs (path b) h)"

definition spill_ok :: "blobStore \<Rightarrow> fs \<Rightarrow> bytes \<Rightarrow> bodyBuffer \<Rightarrow> bool" where
  "spill_ok bs fs c b \<longleftrightarrow> err b = None \<and>
     (path b \<noteq> [] \<longrightarrow> maxInline bs < int (length c) \<and>
        (\<exists>h. fd b = Some h \<and> map_of (dir fs) (path b) = Some h \<and> inodes fs h = c))"

text \<open>The path a buffer spills to.\<close>

abbreviation spill_path :: "blobStore \<Rightarrow> bodyBuffer \<Rightarrow> bytes" where
  "spill_path bs b \<equiv> blob_path bs (buf_id b) (buf_side b)"

lemma buf_inv_buffer [inv_intros]: "0 \<le> maxInline bs \<Longrightarrow> buf_inv bs fs [] (buffer eid sd)"
  by (simp add: buf_inv_def buffer_def)

lemma spill_ok_buffer [inv_intros]: "spill_ok bs fs [] (buffer eid sd)"
  by (simp add: spill_ok_def buffer_def)

lemma open_spill_spec:
  assumes "fs_ok fs" "buf_inv bs fs c b" "open_spill bs env b fs = (r, b', fs')"
  shows "fs_ok fs'" "buf_id b' = buf_id b" "buf_side b' = buf_side b" "preview b' = preview b"
    "buf_size b' = buf_size b" "next_inode fs \<le> next_inode fs'"
    "q \<noteq> spill_path bs b \<Longrightarrow> file_at fs' q = file_at fs q"
    "owns fs q i \<Longrightarrow> q \<noteq> spill_path bs b \<Longrightarrow> owns fs' q i"
    "q \<noteq> spill_path bs b \<Longrightarrow> map_of (dir fs') q = map_of (dir fs) q"
    "r = Inl e \<Longrightarrow> err b' = Some e \<and> path b' = path b \<and> fd b' = fd b"
    "r = Inr h \<Longrightarrow> err b' = err b \<and> path b' = spill_path bs b \<and> fd b' = Some h \<and>
       map_of (dir fs') (path b') = Some h \<and> owns fs' (path b') h \<and> inodes fs' h = preview b"
proof -
  let ?p = "spill_path bs b"
  obtain h fs1 where c: "os_Create ?p fs = (h, fs1)" by fastforce
  obtain r2 fs2 where w: "os_Write h (preview b) (head_short env) fs1 = (r2, fs2)" by fastforce
  note C = os_Create_file [OF assms(1) c] and W = os_Write_file [OF w]
  have i: "inodes fs1 h = []" using C(1,2) by (simp add: file_at_def)
  have eqs: "(r, b', fs') =
      (if \<not> create_ok env then (Inl (ErrOS ''create''), b\<lparr>err := Some (ErrOS ''create'')\<rparr>, fs)
       else case r2 of Inl e \<Rightarrow> (Inl e, b\<lparr>err := Some e\<rparr>, fs2)
        | Inr _ \<Rightarrow> (Inr h, b\<lparr>fd := Some h, path := ?p\<rparr>, fs2))"
    using assms(3) by (auto simp: open_spill_def Let_def c w split: sum.splits)
  have cases: "fs' = fs \<or> fs' = fs2" using eqs by (auto split: if_splits sum.splits)
  have ok2: "fs_ok fs2" using assms(1) c w by (blast intro: os_Create_ok os_Write_ok)
  show "fs_ok fs'" using cases ok2 assms(1) by blast
  show "next_inode fs \<le> next_inode fs'" using cases C(5) W(2) by auto
  show "q \<noteq> ?p \<Longrightarrow> file_at fs' q = file_at fs q"
    using cases C(3,4) os_Write_other [OF w] by auto
  show "owns fs q i \<Longrightarrow> q \<noteq> ?p \<Longrightarrow> owns fs' q i" using cases C(6) W(5) by auto
  show "q \<noteq> ?p \<Longrightarrow> map_of (dir fs') q = map_of (dir fs) q"
    using cases os_Create_dir [OF c] W(1) by auto
  show "r = Inr h' \<Longrightarrow> err b' = err b \<and> path b' = ?p \<and> fd b' = Some h' \<and>
       map_of (dir fs') (path b') = Some h' \<and> owns fs' (path b') h' \<and> inodes fs' h' = preview b" for h'
    using eqs C(2,3) W i by (auto simp: is_ok_def split: if_splits sum.splits option.splits)
qed (use assms(3) in \<open>auto simp: open_spill_def Let_def split: if_splits prod.splits sum.splits\<close>)

lemma write_spilled_spec:
  assumes "fs_ok fs" "owns fs (spill_path bs b) h" "write_spilled bs env p h b fs = (r, b', fs')"
    and "preview b = take (nat (maxInline bs)) c"
  shows "fs_ok fs'" "buf_id b' = buf_id b" "buf_side b' = buf_side b" "path b' = path b"
    "fd b' = fd b" "dir fs' = dir fs" "next_inode fs' = next_inode fs" "owns fs' q i = owns fs q i"
    "q \<noteq> spill_path bs b \<Longrightarrow> file_at fs' q = file_at fs q"
    "r = Inl e \<Longrightarrow> err b' = Some e \<and> buf_size b' = buf_size b \<and> preview b' = preview b \<and>
       tail_short env \<noteq> None"
    "r = Inr n \<Longrightarrow> n = length p \<and> err b' = err b \<and> buf_size b' = buf_size b + int (length p) \<and>
       preview b' = take (nat (maxInline bs)) (c @ p) \<and> inodes fs' h = inodes fs h @ p"
proof -
  obtain r1 fs1 where w: "os_Write h p (tail_short env) fs = (r1, fs1)" by fastforce
  note W = os_Write_file [OF w]
  have fs': "fs' = fs1" using assms(3) by (auto simp: write_spilled_def w Let_def split: sum.splits)
  show "fs_ok fs'" using fs' w assms(1) by (blast intro: os_Write_ok)
  show "dir fs' = dir fs" "next_inode fs' = next_inode fs" "owns fs' q i = owns fs q i"
    using fs' W by auto
  show "q \<noteq> spill_path bs b \<Longrightarrow> file_at fs' q = file_at fs q"
    using fs' os_Write_other [OF w assms(2)] by simp
  have grow: "preview b @ take (nat (min (int (length p)) (maxInline bs - int (length (preview b))))) p
      = take (nat (maxInline bs)) (c @ p)"
    using take_prefix_grow [of "nat (maxInline bs)" c p] assms(4)
    by (auto simp: min_def nat_diff_distrib)
  have full: "preview b = take (nat (maxInline bs)) (c @ p)"
    if "\<not> 0 < maxInline bs - int (length (preview b))"
    using that assms(4) by (auto simp: min_def split: if_splits)
  show "r = Inr n \<Longrightarrow> n = length p \<and> err b' = err b \<and> buf_size b' = buf_size b + int (length p) \<and>
       preview b' = take (nat (maxInline bs)) (c @ p) \<and> inodes fs' h = inodes fs h @ p"
    using assms(3) fs' W(3,4) grow full
    by (auto simp: write_spilled_def w Let_def is_ok_def split: sum.splits if_splits option.splits)
qed (use assms(3) in \<open>auto simp: write_spilled_def os_Write_def Let_def split: option.splits sum.splits prod.splits\<close>)


text \<open>The cases of \<open>Write\<close>, as the code's branches.\<close>

lemma buf_Write_cases:
  assumes "buf_Write bs env p b fs = (r, b', fs')"
  obtains (empty) "p = []" "r = Inr 0" "b' = b" "fs' = fs"
  | (failed) e where "p \<noteq> []" "err b = Some e" "r = Inl e" "b' = b" "fs' = fs"
  | (inline) "p \<noteq> []" "err b = None" "fd b = None" "buf_size b + int (length p) \<le> maxInline bs"
      "r = Inr (length p)" "b' = b\<lparr>preview := preview b @ p, buf_size := buf_size b + int (length p)\<rparr>" "fs' = fs"
  | (no_spill) e where "p \<noteq> []" "err b = None" "fd b = None" "maxInline bs < buf_size b + int (length p)"
      "r = Inl e" "open_spill bs env b fs = (Inl e, b', fs')"
  | (spill) h b1 fs1 where "p \<noteq> []" "err b = None" "fd b = None"
      "maxInline bs < buf_size b + int (length p)"
      "open_spill bs env b fs = (Inr h, b1, fs1)" "write_spilled bs env p h b1 fs1 = (r, b', fs')"
  | (spilled) h where "p \<noteq> []" "err b = None" "fd b = Some h"
      "write_spilled bs env p h b fs = (r, b', fs')"
proof -
  consider "p = []" | e where "p \<noteq> []" "err b = Some e"
    | "p \<noteq> []" "err b = None" "fd b = None" "buf_size b + int (length p) \<le> maxInline bs"
    | "p \<noteq> []" "err b = None" "fd b = None" "maxInline bs < buf_size b + int (length p)"
    | h where "p \<noteq> []" "err b = None" "fd b = Some h"
    by (meson not_le not_None_eq)
  then show thesis
  proof cases
    case 1
    with assms show thesis by (intro empty) (auto simp: buf_Write_def)
  next
    case (2 e)
    with assms show thesis by (intro failed) (auto simp: buf_Write_def)
  next
    case 3
    with assms show thesis by (intro inline) (auto simp: buf_Write_def)
  next
    case 4
    obtain r1 b1 fs1 where o: "open_spill bs env b fs = (r1, b1, fs1)" by (rule prod_cases3)
    show thesis
    proof (cases r1)
      case (Inl e)
      with 4 o assms show thesis by (intro no_spill) (auto simp: buf_Write_def)
    next
      case (Inr h)
      with 4 o assms show thesis by (intro spill) (auto simp: buf_Write_def)
    qed
  next
    case (5 h)
    with assms show thesis by (intro spilled) (auto simp: buf_Write_def)
  qed
qed

lemma buf_Write_frame:
  assumes "fs_ok fs" "buf_inv bs fs c b" "buf_Write bs env p b fs = (r, b', fs')"
  shows "fs_ok fs'" "buf_id b' = buf_id b" "buf_side b' = buf_side b"
    "q \<noteq> spill_path bs b \<Longrightarrow> file_at fs' q = file_at fs q"
    "owns fs q i \<Longrightarrow> q \<noteq> spill_path bs b \<Longrightarrow> owns fs' q i"
    "q \<noteq> spill_path bs b \<Longrightarrow> map_of (dir fs') q = map_of (dir fs) q"
proof -
  have "fs_ok fs' \<and> buf_id b' = buf_id b \<and> buf_side b' = buf_side b \<and>
    (q \<noteq> spill_path bs b \<longrightarrow>
       file_at fs' q = file_at fs q \<and> map_of (dir fs') q = map_of (dir fs) q) \<and>
    (owns fs q i \<longrightarrow> q \<noteq> spill_path bs b \<longrightarrow> owns fs' q i)" for q i
    using assms(3)
  proof (cases rule: buf_Write_cases)
    case (no_spill e)
    show ?thesis using open_spill_spec [OF assms(1,2) no_spill(6)] by blast
  next
    case (spill h b1 fs1)
    note O = open_spill_spec [OF assms(1,2) spill(5)]
    have o: "owns fs1 (spill_path bs b1) h" "preview b1 = take (nat (maxInline bs)) c"
      using O(2,3,4,11) assms(2) by (auto simp: buf_inv_def)
    note W = write_spilled_spec [OF O(1) o(1) spill(6) o(2)]
    show ?thesis using O W(1,2,3,6,8,9) by (metis)
  next
    case (spilled h)
    have o: "owns fs (spill_path bs b) h" "preview b = take (nat (maxInline bs)) c"
      using spilled(3) assms(2) by (auto simp: buf_inv_def)
    show ?thesis using write_spilled_spec [OF assms(1) o(1) spilled(4) o(2)] by auto
  qed (use assms(1) in auto)
  then show "fs_ok fs'" "buf_id b' = buf_id b" "buf_side b' = buf_side b"
    "q \<noteq> spill_path bs b \<Longrightarrow> file_at fs' q = file_at fs q"
    "owns fs q i \<Longrightarrow> q \<noteq> spill_path bs b \<Longrightarrow> owns fs' q i"
    "q \<noteq> spill_path bs b \<Longrightarrow> map_of (dir fs') q = map_of (dir fs) q"
    by blast+
qed

lemma buf_Write_inv:
  assumes "fs_ok fs" "buf_inv bs fs c b" "buf_Write bs env p b fs = (r, b', fs')"
  shows "r = Inr n \<Longrightarrow> n = length p \<and> err b' = err b \<and> buf_inv bs fs' (c @ p) b'"
    "r = Inl e \<Longrightarrow> err b' = Some e \<and> buf_inv bs fs' c b'"
proof -
  have "case r of Inr n \<Rightarrow> n = length p \<and> err b' = err b \<and> buf_inv bs fs' (c @ p) b'
    | Inl e \<Rightarrow> err b' = Some e \<and> buf_inv bs fs' c b'"
    using assms(3)
  proof (cases rule: buf_Write_cases)
    case (inline)
    then show ?thesis using assms(2) by (auto simp: buf_inv_def)
  next
    case (no_spill e)
    note O = open_spill_spec [OF assms(1,2) no_spill(6)]
    have "err b' = Some e \<and> path b' = path b \<and> fd b' = None" using O(10) no_spill by simp
    then show ?thesis using assms(2) no_spill(3,5) O(2-5) by (simp add: buf_inv_def)
  next
    case (spill h b1 fs1)
    note O = open_spill_spec [OF assms(1,2) spill(5)]
    have o: "owns fs1 (spill_path bs b1) h" "preview b1 = take (nat (maxInline bs)) c"
      using O(2,3,4,11) assms(2) by (auto simp: buf_inv_def)
    note W = write_spilled_spec [OF O(1) o(1) spill(6) o(2)]
    show ?thesis using O(2-5,11) W assms(2)
      by (cases r) (auto simp: buf_inv_def)
  next
    case (spilled h)
    have o: "owns fs (spill_path bs b) h" "preview b = take (nat (maxInline bs)) c" "path b \<noteq> []"
      using spilled(3) assms(2) by (auto simp: buf_inv_def)
    note W = write_spilled_spec [OF assms(1) o(1) spilled(4) o(2)]
    show ?thesis using W assms(2) o(3) by (cases r) (auto simp: buf_inv_def)
  qed (use assms(2) in auto)
  then show "r = Inr n \<Longrightarrow> n = length p \<and> err b' = err b \<and> buf_inv bs fs' (c @ p) b'"
    "r = Inl e \<Longrightarrow> err b' = Some e \<and> buf_inv bs fs' c b'"
    by auto
qed

lemma buf_Write_spill_ok:
  assumes "fs_ok fs" "buf_inv bs fs c b" "buf_Write bs env p b fs = (Inr n, b', fs')"
    and "spill_ok bs fs c b" "p \<noteq> []"
  shows "spill_ok bs fs' (c @ p) b'"
  using assms(3)
proof (cases rule: buf_Write_cases)
  case inline
  then show ?thesis using assms(2,4) by (auto simp: spill_ok_def buf_inv_def)
next
  case (spill h b1 fs1)
  note O = open_spill_spec [OF assms(1,2) spill(5)]
  have o: "owns fs1 (spill_path bs b1) h" "preview b1 = take (nat (maxInline bs)) c"
    using O(2,3,4,11) assms(2) by (auto simp: buf_inv_def)
  note W = write_spilled_spec [OF O(1) o(1) spill(6) o(2)]
  have "path b = []" using assms(4) spill(3) by (auto simp: spill_ok_def)
  then have "preview b = c" "buf_size b = int (length c)" using assms(2) by (auto simp: buf_inv_def)
  then show ?thesis
    using O(11) W(4,5,6,11) spill(2,4) by (auto simp: spill_ok_def)
next
  case (spilled h)
  have o: "owns fs (spill_path bs b) h" "preview b = take (nat (maxInline bs)) c" "path b \<noteq> []"
    using spilled(3) assms(2) by (auto simp: buf_inv_def)
  note W = write_spilled_spec [OF assms(1) o(1) spilled(4) o(2)]
  show ?thesis
    using W(4,5,6,11) assms(4) o(3) spilled(2,3) by (auto simp: spill_ok_def)
qed (use assms(5) in auto)

lemma buf_Write_total:
  assumes "create_ok env" "head_short env = None" "tail_short env = None" "err b = None"
  shows "\<exists>b' fs'. buf_Write bs env p b fs = (Inr (length p), b', fs')"
  using assms
  by (auto simp: buf_Write_def open_spill_def write_spilled_def os_Write_def Let_def
      split: option.splits prod.splits)

lemma buf_Write_sticky:
  "err b = Some e \<Longrightarrow> p \<noteq> [] \<Longrightarrow> buf_Write bs env p b fs = (Inl e, b, fs)"
  by (simp add: buf_Write_def)


text \<open>What a change of the file system elsewhere leaves of a buffer.\<close>

lemma buf_inv_frame:
  assumes "buf_inv bs fs c b" "\<And>h. owns fs (path b) h \<Longrightarrow> owns fs' (path b) h"
  shows "buf_inv bs fs' c b"
  using assms by (simp add: buf_inv_def)

lemma spill_ok_frame:
  assumes "spill_ok bs fs c b" "map_of (dir fs') (path b) = map_of (dir fs) (path b)"
    and "file_at fs' (path b) = file_at fs (path b)"
  shows "spill_ok bs fs' c b"
  using assms by (auto simp: spill_ok_def file_at_def)

lemma buf_inv_Close: "buf_inv bs fs c b \<Longrightarrow> buf_inv bs fs c (buf_Close b)"
  by (auto simp: buf_inv_def buf_Close_def split: option.splits)

lemma buf_Close_simps [simp]:
  "buf_id (buf_Close b) = buf_id b" "buf_side (buf_Close b) = buf_side b" "path (buf_Close b) = path b"
  "preview (buf_Close b) = preview b" "buf_size (buf_Close b) = buf_size b" "fd (buf_Close b) = None"
  "err (buf_Close b) = err b"
  by (auto simp: buf_Close_def split: option.splits)

section \<open>The buffer as a byte sink\<close>

definition sink_Write ::
  "blobStore \<Rightarrow> os_env \<Rightarrow> bytes \<Rightarrow> bodyBuffer \<times> fs \<Rightarrow> (go_error + nat) \<times> (bodyBuffer \<times> fs)" where
  "sink_Write bs env p s = (let (r, b', fs') = buf_Write bs env p (fst s) (snd s) in (r, (b', fs')))"

definition sink_holds :: "blobStore \<Rightarrow> bytes \<Rightarrow> bodyBuffer \<times> fs \<Rightarrow> bool" where
  "sink_holds bs c s \<longleftrightarrow> fs_ok (snd s) \<and> buf_inv bs (snd s) c (fst s) \<and> spill_ok bs (snd s) c (fst s)"

lemma sink_Write_ok:
  assumes "sink_holds bs c s" "sink_Write bs env p s = (Inr n, s')"
  shows "n = length p \<and> sink_holds bs (c @ p) s'"
proof -
  obtain b fs b' fs' where eq: "s = (b, fs)" "s' = (b', fs')" "buf_Write bs env p b fs = (Inr n, b', fs')"
    using assms(2) by (cases s; cases s') (auto simp: sink_Write_def Let_def split: prod.splits)
  have I: "fs_ok fs" "buf_inv bs fs c b" "spill_ok bs fs c b" using assms(1) eq(1) by (auto simp: sink_holds_def)
  show ?thesis
  proof (cases "p = []")
    case True
    with eq I show ?thesis by (simp add: buf_Write_def sink_holds_def)
  next
    case False
    with eq buf_Write_frame(1) [OF I(1,2) eq(3)] buf_Write_inv(1) [OF I(1,2) eq(3)]
      buf_Write_spill_ok [OF I(1,2) eq(3) I(3)]
    show ?thesis by (simp add: sink_holds_def)
  qed
qed

interpretation body: byte_sink "sink_Write bs env" "sink_holds bs" for bs env
  by unfold_locales (rule sink_Write_ok)

lemma sink_Write_ids:
  "sink_Write bs env p (b, fs) = (r, (b', fs')) \<Longrightarrow> buf_id b' = buf_id b \<and> buf_side b' = buf_side b"
  by (auto simp: sink_Write_def buf_Write_def open_spill_def write_spilled_def Let_def
      split: if_splits option.splits prod.splits sum.splits)

lemma write_all_ids:
  "write_all (sink_Write bs env) ps (b, fs) = (rs, (b', fs')) \<Longrightarrow>
   buf_id b' = buf_id b \<and> buf_side b' = buf_side b"
proof (induction ps arbitrary: b fs rs)
  case (Cons p ps)
  obtain r b1 fs1 where "sink_Write bs env p (b, fs) = (r, (b1, fs1))" by (rule prod_cases3)
  with Cons show ?case by (auto simp: Let_def dest: sink_Write_ids split: prod.splits)
qed simp

lemma sink_Write_total:
  assumes "sink_holds bs c s"
  shows "\<exists>s'. sink_Write bs os_fine p s = (Inr (length p), s')"
  using buf_Write_total [of os_fine "fst s" bs p "snd s"] assms
  by (auto simp: sink_Write_def sink_holds_def spill_ok_def os_fine_def)

lemma sink_write_all_total:
  "sink_holds bs c s \<Longrightarrow> \<forall>r \<in> set (fst (write_all (sink_Write bs os_fine) ps s)). is_ok r"
proof (induction ps arbitrary: c s)
  case (Cons p ps)
  obtain s1 where w: "sink_Write bs os_fine p s = (Inr (length p), s1)"
    using sink_Write_total [OF Cons.prems] by blast
  with Cons.prems have "sink_holds bs (c @ p) s1" by (blast dest: sink_Write_ok)
  from Cons.IH [OF this] w show ?case by (auto simp: Let_def split: prod.splits)
qed simp

section \<open>What a reader of the stored body gets\<close>

definition body_of :: "fs \<Rightarrow> bytes \<Rightarrow> bytes \<Rightarrow> bytes option" where
  "body_of fs pth inline = (if pth \<noteq> [] then file_at fs pth else Some inline)"

lemma sink_holds_body:
  "sink_holds bs c (b, fs) \<Longrightarrow> body_of fs (path b) (preview b) = Some c"
  by (auto simp: sink_holds_def spill_ok_def buf_inv_def body_of_def file_at_def)

lemma sink_holds_state:
  assumes "sink_holds bs c (b, fs)"
  shows "buf_state b = (take (nat (maxInline bs)) c,
           if maxInline bs < int (length c) then spill_path bs b else [],
           int (length c), maxInline bs < int (length c))"
  using assms by (auto simp: sink_holds_def spill_ok_def buf_inv_def buf_state_def)

section \<open>The directory\<close>

lemma os_ReadDir_set:
  assumes "os_ReadDir env d fs = Inr ns"
  shows "n \<in> set ns \<longleftrightarrow> CHR ''/'' \<notin> set n \<and> file_at fs (path_join d n) \<noteq> None"
proof -
  have listed: "n \<in> drop (Suc (length d)) ` {p \<in> fst ` set (dir fs). prefix (d @ ''/'') p} \<longleftrightarrow>
      d @ ''/'' @ n \<in> fst ` set (dir fs)"
    by (force simp: prefix_def image_iff)
  have ns: "ns = filter (\<lambda>n. CHR ''/'' \<notin> set n)
      (map (drop (Suc (length d))) (filter (prefix (d @ ''/'')) (map fst (dir fs))))"
    using assms by (simp add: os_ReadDir_def split: if_splits)
  have "n \<in> set ns \<longleftrightarrow> CHR ''/'' \<notin> set n \<and>
      n \<in> drop (Suc (length d)) ` {p \<in> fst ` set (dir fs). prefix (d @ ''/'') p}"
    unfolding ns set_filter set_map mem_Collect_eq by (rule conj_commute)
  with listed show ?thesis by (simp add: file_at_def path_join_def map_of_eq_None_iff)
qed

lemma path_join_inj [simp]: "path_join d m = path_join d n \<longleftrightarrow> m = n"
  by (simp add: path_join_def)

lemma remove_orphan_file:
  "file_at (remove_orphan bs env ids name fs) (path_join (blob_dir bs) n) =
     (if n = name \<and> blob_owner name \<notin> set ids \<and> remove_ok env (path_join (blob_dir bs) name)
      then None else file_at fs (path_join (blob_dir bs) n))"
proof -
  obtain r fs' where "os_Remove env (path_join (blob_dir bs) name) fs = (r, fs')" by fastforce
  from os_Remove_file(1,5) [OF this] this show ?thesis
    by (auto simp: remove_orphan_def)
qed

lemma fold_remove_orphan_file:
  "file_at (fold (remove_orphan bs env ids) ns fs) (path_join (blob_dir bs) n) =
     (if n \<in> set ns \<and> blob_owner n \<notin> set ids \<and> remove_ok env (path_join (blob_dir bs) n)
      then None else file_at fs (path_join (blob_dir bs) n))"
  by (induction ns arbitrary: fs) (auto simp: remove_orphan_file)

lemma remove_names_all:
  assumes "remove_names bs env ns fs = (Inr (), fs')" 
  shows "file_at fs' (path_join (blob_dir bs) n) =
    (if n \<in> set ns then None else file_at fs (path_join (blob_dir bs) n))"
  using assms
proof (induction ns arbitrary: fs)
  case (Cons m ns)
  obtain r fs1 where m: "os_Remove env (path_join (blob_dir bs) m) fs = (r, fs1)" by fastforce
  with Cons.prems have r: "r = Inr ()" "remove_names bs env ns fs1 = (Inr (), fs')"
    by (auto split: sum.splits)
  with Cons.IH [OF r(2)] os_Remove_file(1,5) [OF m] show ?case by (auto simp: is_ok_def)
qed simp

lemma removeFor_file:
  "file_at (removeFor bs env eid fs) p =
     (if p \<in> {blob_path bs eid SideRequest, blob_path bs eid SideResponse} \<and> remove_ok env p
      then None else file_at fs p)"
proof -
  obtain r fs1 where a: "os_Remove env (blob_path bs eid SideRequest) fs = (r, fs1)" by fastforce
  obtain r' fs2 where b: "os_Remove env (blob_path bs eid SideResponse) fs1 = (r', fs2)" by fastforce
  from a b os_Remove_file(1,5) [OF a] os_Remove_file(1,5) [OF b] show ?thesis
    by (auto simp: removeFor_def)
qed


text \<open>The sweep, for the two possible files of one entry.\<close>

lemma removeOrphans_file:
  assumes "removeOrphans bs env (Inr ids) fs = (Inr (), fs')"
    and "\<forall>p. remove_ok env p" "eid \<noteq> []" "CHR ''/'' \<notin> set eid"
    and "sd = SideRequest \<or> sd = SideResponse"
  shows "file_at fs' (blob_path bs eid sd) =
    (if eid \<in> set ids then file_at fs (blob_path bs eid sd) else None)"
proof -
  obtain ns where ns: "os_ReadDir env (blob_dir bs) fs = Inr ns"
    "fs' = fold (remove_orphan bs env ids) ns fs"
    using assms(1) by (auto simp: removeOrphans_def split: sum.splits)
  have "blob_owner (blob_name eid sd) = eid" "CHR ''/'' \<notin> set (blob_name eid sd)"
    using assms(3-5) blob_owner_name side_no_dash by (auto simp: blob_name_def side_defs)
  then show ?thesis
    using os_ReadDir_set [OF ns(1)] assms(2)
    by (auto simp: ns(2) blob_path_def fold_remove_orphan_file)
qed

lemma os_Remove_dir:
  "os_Remove env p fs = (r, fs') \<Longrightarrow>
   map_of (dir fs') q = (if q = p \<and> is_ok r then None else map_of (dir fs) q)"
  by (auto simp: os_Remove_def delete_conv' split: if_splits)

lemma removeFor_spec:
  assumes "fs_ok fs"
  shows "fs_ok (removeFor bs env eid fs)" "inodes (removeFor bs env eid fs) = inodes fs"
    "owns fs q h \<Longrightarrow> owns (removeFor bs env eid fs) q h"
    "q \<notin> {blob_path bs eid SideRequest, blob_path bs eid SideResponse} \<Longrightarrow>
       map_of (dir (removeFor bs env eid fs)) q = map_of (dir fs) q"
proof -
  obtain r fs1 where a: "os_Remove env (blob_path bs eid SideRequest) fs = (r, fs1)" by fastforce
  obtain r' fs2 where b: "os_Remove env (blob_path bs eid SideResponse) fs1 = (r', fs2)" by fastforce
  have eq: "removeFor bs env eid fs = fs2" using a b by (simp add: removeFor_def)
  show "fs_ok (removeFor bs env eid fs)"
    unfolding eq using os_Remove_ok [OF os_Remove_ok [OF assms a] b] .
  show "inodes (removeFor bs env eid fs) = inodes fs"
    unfolding eq using os_Remove_file(3) [OF a] os_Remove_file(3) [OF b] by simp
  show "owns fs q h \<Longrightarrow> owns (removeFor bs env eid fs) q h"
    unfolding eq using os_Remove_file(4) [OF a] os_Remove_file(4) [OF b] by blast
  show "q \<notin> {blob_path bs eid SideRequest, blob_path bs eid SideResponse} \<Longrightarrow>
       map_of (dir (removeFor bs env eid fs)) q = map_of (dir fs) q"
    unfolding eq using os_Remove_dir [OF a] os_Remove_dir [OF b] by simp
qed

lemma remove_names_spec:
  assumes "fs_ok fs" "remove_names bs env ns fs = (r, fs')"
  shows "fs_ok fs' \<and> inodes fs' = inodes fs \<and> (owns fs q h \<longrightarrow> owns fs' q h)"
  using assms
proof (induction ns arbitrary: fs)
  case (Cons n ns)
  obtain r1 fs1 where n: "os_Remove env (path_join (blob_dir bs) n) fs = (r1, fs1)" by fastforce
  have "fs_ok fs1" "inodes fs1 = inodes fs" "owns fs q h \<longrightarrow> owns fs1 q h"
    using os_Remove_ok [OF Cons.prems(1) n] os_Remove_file [OF n] by auto
  with Cons n show ?case by (cases r1) auto
qed simp

section \<open>Properties\<close>

text \<open>
  C26. A body written in any fragments, while no call of the operating system fails, is captured
  exactly: every write succeeds, the reported size is the number of bytes, the preview is the
  first \<open>maxInline\<close> of them, the body is on disk exactly when it is longer than that, and what
  a reader of the stored body gets is all of it, in order.
\<close>

theorem body_captured_exactly:
  assumes "fs_ok fs" "0 \<le> maxInline bs"
    and "write_all (sink_Write bs os_fine) ps (buffer eid sd, fs) = (rs, (b, fs'))"
  shows "(\<forall>r \<in> set rs. is_ok r) \<and>
    buf_state b = (take (nat (maxInline bs)) (concat ps),
      if maxInline bs < int (length (concat ps)) then blob_path bs eid sd else [],
      int (length (concat ps)), maxInline bs < int (length (concat ps))) \<and>
    body_of fs' (path b) (preview b) = Some (concat ps)"
proof -
  have h: "sink_holds bs [] (buffer eid sd, fs)"
    using assms(1,2) by (simp add: sink_holds_def buf_inv_buffer spill_ok_buffer)
  have ok: "\<forall>r \<in> set rs. is_ok r"
    using sink_write_all_total [OF h, of ps] assms(3) by simp
  from body.write_all_ok [OF h assms(3) ok] have h': "sink_holds bs (concat ps) (b, fs')" by simp
  moreover have "buf_id b = eid \<and> buf_side b = sd"
    using write_all_ids [OF assms(3)] by (simp add: buffer_def)
  ultimately show ?thesis using ok sink_holds_state [OF h'] sink_holds_body [OF h'] by simp
qed

definition empty_fs :: fs where
  "empty_fs = \<lparr>dir = [], inodes = (\<lambda>_. []), next_inode = 0\<rparr>"

lemma fs_ok_empty [inv_intros]: "fs_ok empty_fs"
  by (simp add: fs_ok_def empty_fs_def)

definition small_blobs :: blobStore where
  "small_blobs = \<lparr>blob_dir = ''/data/blobs'', maxInline = 4\<rparr>"

lemma body_captured_exactly_witness:
  "body_of (snd (snd (write_all (sink_Write small_blobs os_fine) [''abc'', ''de'', ''f'']
       (buffer ''1f'' SideResponse, empty_fs)))) ''/data/blobs/1f-response'' ''abcd'' = Some ''abcdef''"
proof -
  obtain rs b fs' where w: "write_all (sink_Write small_blobs os_fine) [''abc'', ''de'', ''f'']
      (buffer ''1f'' SideResponse, empty_fs) = (rs, (b, fs'))"
    by (metis prod_cases3)
  from body_captured_exactly [OF fs_ok_empty _ w]
  show ?thesis unfolding w
    by (auto simp: small_blobs_def buf_state_def body_of_def blob_path_def path_join_def
        blob_name_def side_defs)
qed



text \<open>
  The startup sweep, when the directory can be listed and its files removed, deletes
  exactly the body files whose owner is not a known id: a file of a known entry is left as it
  is, a file of any other entry is gone, and a body file is always attributed to the entry
  whose id is in its name.
\<close>

lemma orphans_removed_exactly:
  assumes "removeOrphans bs env (Inr ids) fs = (Inr (), fs')"
    and "\<forall>p. remove_ok env p" "eid \<noteq> []" "CHR ''/'' \<notin> set eid"
    and "sd = SideRequest \<or> sd = SideResponse"
  shows "file_at fs' (blob_path bs eid sd) =
    (if eid \<in> set ids then file_at fs (blob_path bs eid sd) else None)"
  by (rule removeOrphans_file [OF assms])

definition two_blobs :: fs where
  "two_blobs = \<lparr>dir = [(''/data/blobs/1f-response'', 0), (''/data/blobs/2e-request'', 1)],
     inodes = (\<lambda>i. if i = 0 then ''kept'' else ''orphan''), next_inode = 2\<rparr>"

lemma orphans_removed_example:
  "file_at (snd (removeOrphans small_blobs os_fine (Inr [''1f'']) two_blobs)) ''/data/blobs/2e-request'' = None \<and>
   file_at (snd (removeOrphans small_blobs os_fine (Inr [''1f'']) two_blobs)) ''/data/blobs/1f-response'' = Some ''kept''"
proof -
  obtain r fs' where w: "removeOrphans small_blobs os_fine (Inr [''1f'']) two_blobs = (r, fs')"
    by fastforce
  then have "r = Inr ()" by (simp add: removeOrphans_def os_ReadDir_def os_fine_def split: sum.splits)
  with w have w': "removeOrphans small_blobs os_fine (Inr [''1f'']) two_blobs = (Inr (), fs')" by simp
  have p: "blob_path small_blobs ''2e'' SideRequest = ''/data/blobs/2e-request''"
    "blob_path small_blobs ''1f'' SideResponse = ''/data/blobs/1f-response''"
    by (simp_all add: blob_path_def path_join_def small_blobs_def blob_name_def side_defs)
  have "\<forall>p. remove_ok os_fine p" by (simp add: os_fine_def)
  from orphans_removed_exactly [OF w' this, of "''2e''" SideRequest]
    orphans_removed_exactly [OF w' this, of "''1f''" SideResponse]
  have "file_at fs' ''/data/blobs/2e-request'' = None"
    "file_at fs' ''/data/blobs/1f-response'' = file_at two_blobs ''/data/blobs/1f-response''"
    unfolding p by simp_all
  then show ?thesis unfolding w by (simp add: two_blobs_def file_at_def)
qed

text \<open>
  Removing the files of an entry, or of the whole directory, removes what it should and
  nothing else: \<open>removeFor\<close> deletes the two body files of its entry and leaves every other
  path; \<open>removeAll\<close>, when it reports success, leaves no file in the directory.
\<close>

lemma removal_is_exact:
  assumes "\<forall>p. remove_ok env p"
  shows "file_at (removeFor bs env eid fs) p =
      (if p = blob_path bs eid SideRequest \<or> p = blob_path bs eid SideResponse
       then None else file_at fs p) \<and>
    (removeAll_blobs bs env fs = (Inr (), fs') \<longrightarrow> CHR ''/'' \<notin> set n \<longrightarrow>
      file_at fs' (path_join (blob_dir bs) n) = None)"
proof -
  have "file_at fs' (path_join (blob_dir bs) n) = None"
    if "removeAll_blobs bs env fs = (Inr (), fs')" "CHR ''/'' \<notin> set n"
    using that os_ReadDir_set [of env "blob_dir bs" fs]
    by (auto simp: removeAll_blobs_def remove_names_all split: sum.splits)
  with assms show ?thesis by (auto simp: removeFor_file)
qed

lemma removal_example:
  "file_at (removeFor small_blobs os_fine ''2e'' two_blobs) ''/data/blobs/2e-request'' = None"
  using removal_is_exact [of os_fine small_blobs "''2e''" two_blobs "''/data/blobs/2e-request''"]
  by (simp add: os_fine_def blob_path_def path_join_def small_blobs_def blob_name_def side_defs)

text \<open>
  A body written again after its buffer was closed loses bytes: the file is created anew,
  which truncates it, and restarts from the preview, while the reported size still counts
  every byte. The store closes the buffers of an entry before it writes the row, and the entry
  stays in memory, with its buffers closed, when writing the row fails.
\<close>

lemma write_after_close_truncates:
  assumes "sink_holds bs c (b, fs)" "path b \<noteq> []" "p \<noteq> []"
    and "buf_Write bs os_fine p (buf_Close b) fs = (r, b', fs')"
  shows "body_of fs' (path b') (preview b') = Some (take (nat (maxInline bs)) c @ p) \<and>
    buf_size b' = int (length c + length p)"
proof -
  obtain h where h: "fd b = Some h" "map_of (dir fs) (path b) = Some h" "path b = spill_path bs b"
    "err b = None" "preview b = take (nat (maxInline bs)) c" "buf_size b = int (length c)"
    "maxInline bs < int (length c)"
    using assms(1,2) by (auto simp: sink_holds_def spill_ok_def buf_inv_def)
  then show ?thesis
    using assms(2-4)
    by (auto simp: buf_Write_def buf_Close_def open_spill_def write_spilled_def os_Create_def
        os_Write_def os_fine_def Let_def body_of_def file_at_def split: if_splits)
qed

lemma write_after_close_truncates_example:
  "\<exists>b fs b' fs' r. sink_holds small_blobs ''abcdef'' (b, fs) \<and>
     buf_Write small_blobs os_fine ''gh'' (buf_Close b) fs = (r, b', fs') \<and>
     body_of fs' (path b') (preview b') = Some ''abcdgh'' \<and> buf_size b' = 8"
proof -
  have h: "sink_holds small_blobs [] (buffer ''1f'' SideResponse, empty_fs)"
    by (simp add: sink_holds_def buf_inv_buffer spill_ok_buffer small_blobs_def fs_ok_empty)
  obtain b fs where w: "sink_Write small_blobs os_fine ''abcdef'' (buffer ''1f'' SideResponse, empty_fs)
      = (Inr 6, (b, fs))"
    using sink_Write_total [OF h, of "''abcdef''"] by (auto simp: eval_nat_numeral)
  from sink_Write_ok [OF h this] have s: "sink_holds small_blobs ''abcdef'' (b, fs)" by simp
  then have p: "path b \<noteq> []"
    using sink_holds_state [OF s] by (auto simp: buf_state_def small_blobs_def split: if_splits)
  obtain r b' fs' where w': "buf_Write small_blobs os_fine ''gh'' (buf_Close b) fs = (r, b', fs')"
    by (rule prod_cases3)
  have "body_of fs' (path b') (preview b') = Some ''abcdgh'' \<and> buf_size b' = 8"
    using write_after_close_truncates [OF s p _ w'] by (simp add: small_blobs_def)
  with s w' show ?thesis by blast
qed

end
