(* ===== verification/Memory.thy ===== *)
theory Memory
  imports Blobs
begin

text \<open>
  \<open>internal/store/memory.go\<close>: the entries still in flight, each with the buffers of its two
  bodies and the instant of its last activity. The map is an association list with distinct
  keys, in the order a \<open>range\<close> visits it. The clock an operation reads is the argument \<open>now\<close>.
\<close>

record liveEntry =
  l_entry :: entry
  req :: bodyBuffer
  resp :: bodyBuffer
  lastSeen :: gotime

type_synonym memStore = "(bytes \<times> liveEntry) list"

definition newMemStore :: memStore where
  "newMemStore = []"

definition mem_put :: "gotime \<Rightarrow> entry \<Rightarrow> memStore \<Rightarrow> liveEntry \<times> memStore" where
  "mem_put now e m =
     (let live = \<lparr>l_entry = e, req = buffer (ID e) SideRequest, resp = buffer (ID e) SideResponse,
                  lastSeen = now\<rparr>
      in (live, AList.update (ID e) live m))"

definition mem_get :: "bytes \<Rightarrow> memStore \<Rightarrow> liveEntry option" where
  "mem_get eid m = map_of m eid"

definition mem_delete :: "bytes \<Rightarrow> memStore \<Rightarrow> memStore" where
  "mem_delete eid m = AList.delete eid m"

text \<open>A change through the pointer \<open>mem.get\<close> returned.\<close>

definition mem_set :: "bytes \<Rightarrow> liveEntry \<Rightarrow> memStore \<Rightarrow> memStore" where
  "mem_set eid live m = AList.update eid live m"

definition live_update :: "gotime \<Rightarrow> (entry \<Rightarrow> entry) \<Rightarrow> liveEntry \<Rightarrow> liveEntry" where
  "live_update now fn l = l\<lparr>l_entry := fn (l_entry l), lastSeen := now\<rparr>"

definition touch :: "gotime \<Rightarrow> liveEntry \<Rightarrow> liveEntry" where
  "touch now l = l\<lparr>lastSeen := now\<rparr>"

definition snapshot :: "liveEntry \<Rightarrow> entry" where
  "snapshot l =
     (let e = Clone (l_entry l);
          (rb, rp, rs, rsp) = buf_state (req l);
          (pb, pp, ps, psp) = buf_state (resp l)
      in e\<lparr>RequestBody := rb, RequestBodyPath := rp, RequestBodySize := rs, RequestSpilled := rsp,
           ResponseBody := pb, ResponseBodyPath := pp, ResponseBodySize := ps, ResponseSpilled := psp\<rparr>)"

definition mem_list :: "gotime \<Rightarrow> memStore \<Rightarrow> entry list" where
  "mem_list before m =
     filter (\<lambda>e. \<not> (\<not> IsZero before \<and> \<not> Before (StartedAt e) before)) (map (\<lambda>(k, l). snapshot l) m)"

definition staleIDs :: "gotime \<Rightarrow> int \<Rightarrow> memStore \<Rightarrow> bytes list" where
  "staleIDs now timeout m =
     (let cutoff = Add now (- timeout)
      in map fst (filter (\<lambda>(k, l). Before (lastSeen l) cutoff) m))"

section \<open>The memory as a map\<close>

lemma mem_get_put [simp]:
  "mem_put now e m = (live, m') \<Longrightarrow> mem_get k m' = (if k = ID e then Some live else mem_get k m)"
  by (auto simp: mem_put_def mem_get_def Let_def update_conv')

lemma mem_get_delete [simp]: "mem_get k (mem_delete eid m) = (if k = eid then None else mem_get k m)"
  by (simp add: mem_get_def mem_delete_def delete_conv')

lemma mem_get_set [simp]: "mem_get k (mem_set eid l m) = (if k = eid then Some l else mem_get k m)"
  by (simp add: mem_get_def mem_set_def update_conv')

definition mem_ok :: "memStore \<Rightarrow> bool" where
  "mem_ok m \<longleftrightarrow> distinct (map fst m)"

lemma mem_ok_new [inv_intros]: "mem_ok newMemStore"
  by (simp add: mem_ok_def newMemStore_def)

lemma mem_ok_put [inv_intros]: "mem_ok m \<Longrightarrow> mem_put now e m = (live, m') \<Longrightarrow> mem_ok m'"
  by (auto simp: mem_ok_def mem_put_def Let_def)

lemma mem_ok_delete [inv_intros]: "mem_ok m \<Longrightarrow> mem_ok (mem_delete eid m)"
  by (auto simp: mem_ok_def mem_delete_def)

lemma mem_ok_set [inv_intros]: "mem_ok m \<Longrightarrow> mem_ok (mem_set eid l m)"
  by (auto simp: mem_ok_def mem_set_def)

lemma mem_get_iff: "mem_ok m \<Longrightarrow> (k, l) \<in> set m \<longleftrightarrow> mem_get k m = Some l"
  by (simp add: mem_get_def mem_ok_def)

lemma snapshot_fields [simp]:
  "ID (snapshot l) = ID (l_entry l)" "Status (snapshot l) = Status (l_entry l)"
  "StartedAt (snapshot l) = StartedAt (l_entry l)" "FinishedAt (snapshot l) = FinishedAt (l_entry l)"
  "TotalMs (snapshot l) = TotalMs (l_entry l)" "Error (snapshot l) = Error (l_entry l)"
  "RequestBody (snapshot l) = preview (req l)" "RequestBodyPath (snapshot l) = path (req l)"
  "RequestBodySize (snapshot l) = buf_size (req l)" "RequestSpilled (snapshot l) = (path (req l) \<noteq> [])"
  "ResponseBody (snapshot l) = preview (resp l)" "ResponseBodyPath (snapshot l) = path (resp l)"
  "ResponseBodySize (snapshot l) = buf_size (resp l)" "ResponseSpilled (snapshot l) = (path (resp l) \<noteq> [])"
  "RequestHeaders (snapshot l) = RequestHeaders (l_entry l)"
  "ResponseHeaders (snapshot l) = ResponseHeaders (l_entry l)"
  by (simp_all add: snapshot_def buf_state_def Let_def)

lemma staleIDs_iff:
  "mem_ok m \<Longrightarrow> eid \<in> set (staleIDs now timeout m) \<longleftrightarrow>
     (\<exists>l. mem_get eid m = Some l \<and> nanos (lastSeen l) < nanos now - timeout)"
  by (force simp: staleIDs_def Let_def mem_get_iff [symmetric] Before_def Add_def less_gotime_def)

lemma staleIDs_distinct: "mem_ok m \<Longrightarrow> distinct (staleIDs now timeout m)"
  by (simp add: staleIDs_def mem_ok_def Let_def distinct_map_filter)

lemma mem_list_iff:
  "mem_ok m \<Longrightarrow> e \<in> set (mem_list before m) \<longleftrightarrow>
     (\<exists>k l. mem_get k m = Some l \<and> e = snapshot l \<and> (IsZero before \<or> StartedAt e < before))"
  by (force simp: mem_list_def mem_get_iff [symmetric] Before_def)

end
