(* ===== verification/Utf8.thy ===== *)
theory Utf8
  imports Prelude
begin

text \<open>
  Go's \<open>unicode/utf8\<close> on byte strings: \<open>rune_len\<close> is the size \<open>DecodeRune\<close> reports for a
  well-formed encoding at the front and \<open>None\<close> for \<open>(RuneError, 1)\<close>; \<open>utf8_Valid\<close> is
  \<open>utf8.Valid\<close>; \<open>sanitize\<close> replaces each byte that starts no well-formed rune by the
  encoding of U+FFFD, as \<open>encoding/json\<close> does; \<open>encode_rune\<close> is \<open>AppendRune\<close>.
\<close>

definition byte :: "char \<Rightarrow> nat" where
  "byte c = of_char c"

definition between :: "nat \<Rightarrow> nat \<Rightarrow> char \<Rightarrow> bool" where
  "between lo hi c \<longleftrightarrow> lo \<le> byte c \<and> byte c \<le> hi"

abbreviation cont :: "char \<Rightarrow> bool" where
  "cont c \<equiv> between 128 191 c"

fun rune_len :: "bytes \<Rightarrow> nat option" where
  "rune_len [] = None"
| "rune_len (a # s) =
     (if byte a < 128 then Some 1
      else case s of
        [] \<Rightarrow> None
      | b # t \<Rightarrow>
        (if between 194 223 a then (if cont b then Some 2 else None)
         else case t of
           [] \<Rightarrow> None
         | c # u \<Rightarrow>
           (if between 224 239 a
            then (if (if byte a = 224 then between 160 191 b
                      else if byte a = 237 then between 128 159 b else cont b) \<and> cont c
                  then Some 3 else None)
            else case u of
              [] \<Rightarrow> None
            | d # _ \<Rightarrow>
              (if between 240 244 a \<and>
                  (if byte a = 240 then between 144 191 b
                   else if byte a = 244 then between 128 143 b else cont b) \<and> cont c \<and> cont d
               then Some 4 else None))))"

lemma rune_len_bounds: "rune_len s = Some n \<Longrightarrow> 0 < n \<and> n \<le> length s \<and> n \<le> 4"
  by (cases s) (auto split: if_splits list.splits)

text \<open>Every byte of a rune that is longer than one byte is outside ASCII.\<close>

lemma rune_len_high:
  "rune_len s = Some n \<Longrightarrow> 128 \<le> byte (hd s) \<Longrightarrow> c \<in> set (take n s) \<Longrightarrow> 128 \<le> byte c"
  by (cases s) (auto simp: between_def split: if_splits list.splits)

lemma rune_len_append: "rune_len s = Some n \<Longrightarrow> rune_len (s @ t) = Some n"
  by (cases s) (auto split: if_splits list.splits)

lemma rune_len_take: "rune_len s = Some n \<Longrightarrow> rune_len (take n s @ t) = Some n"
  by (cases s) (auto split: if_splits list.splits simp: eval_nat_numeral)

lemma rune_len_Nil [simp]: "rune_len [] = None" by simp
lemma rune_len_ascii: "byte a < 128 \<Longrightarrow> rune_len (a # s) = Some 1" by simp

declare rune_len.simps [simp del]

lemma rune_len_drop [simp]:
  "rune_len s = Some n \<Longrightarrow> length s - n < length s"
  using rune_len_bounds [of s n] by linarith

function utf8_Valid :: "bytes \<Rightarrow> bool" where
  "utf8_Valid s =
     (if s = [] then True
      else case rune_len s of None \<Rightarrow> False | Some n \<Rightarrow> utf8_Valid (drop n s))"
  by pat_completeness auto
termination by (relation "measure length") auto

declare utf8_Valid.simps [simp del]

definition replacement :: bytes where
  "replacement = [CHR 0xEF, CHR 0xBF, CHR 0xBD]"

function sanitize :: "bytes \<Rightarrow> bytes" where
  "sanitize s =
     (case s of
        [] \<Rightarrow> []
      | c # r \<Rightarrow> (case rune_len s of
            None \<Rightarrow> replacement @ sanitize r
          | Some n \<Rightarrow> take n s @ sanitize (drop n s)))"
  by pat_completeness auto
termination
proof (relation "measure length")
  fix s :: bytes and c r n
  assume "s = c # r" "rune_len s = Some n"
  then show "(drop n s, s) \<in> measure length"
    using rune_len_drop [of s n] by (simp only: in_measure length_drop)
qed auto

declare sanitize.simps [simp del]

lemma utf8_Valid_Nil [simp]: "utf8_Valid []" by (simp add: utf8_Valid.simps)
lemma sanitize_Nil [simp]: "sanitize [] = []" by (simp add: sanitize.simps)

lemma sanitize_valid: "utf8_Valid s \<Longrightarrow> sanitize s = s"
proof (induction s rule: utf8_Valid.induct)
  case (1 s)
  show ?case
  proof (cases s)
    case (Cons c r)
    with "1.prems" obtain n where n: "rune_len s = Some n" "utf8_Valid (drop n s)"
      by (auto simp: utf8_Valid.simps [of "c # r"] split: option.splits)
    with "1.IH" Cons have "sanitize (drop n s) = drop n s" by simp
    with n Cons show ?thesis by (simp add: sanitize.simps [of "c # r"])
  qed simp
qed

lemma utf8_Valid_ascii: "(\<And>c. c \<in> set s \<Longrightarrow> byte c < 128) \<Longrightarrow> utf8_Valid s"
  by (induction s) (auto simp: utf8_Valid.simps rune_len_ascii)

lemma utf8_Valid_rune:
  "rune_len s = Some n \<Longrightarrow> utf8_Valid (take n s @ t) = utf8_Valid t"
  using rune_len_take [of s n t] rune_len_bounds [of s n]
  by (subst utf8_Valid.simps) (auto simp: take_Cons')

lemma rune_len_replacement [simp]: "rune_len (replacement @ t) = Some 3"
  by (simp add: replacement_def byte_def between_def rune_len.simps)

lemma utf8_Valid_replacement [simp]: "utf8_Valid (replacement @ t) = utf8_Valid t"
  by (subst utf8_Valid.simps) (simp add: replacement_def byte_def between_def rune_len.simps)

lemma utf8_Valid_sanitize: "utf8_Valid (sanitize s)"
proof (induction s rule: sanitize.induct)
  case (1 s)
  show ?case
  proof (cases s)
    case (Cons c r)
    with 1 show ?thesis
      by (auto simp: sanitize.simps [of "c # r"] utf8_Valid_rune split: option.splits)
  qed simp
qed

text \<open>\<open>utf8.AppendRune\<close> for a code point of at most four bytes; surrogates and values out of
  range become U+FFFD.\<close>

definition encode_rune :: "nat \<Rightarrow> bytes" where
  "encode_rune r =
     (if r < 128 then [char_of r]
      else if r < 2048 then [char_of (192 + r div 64), char_of (128 + r mod 64)]
      else if 55296 \<le> r \<and> r < 57344 \<or> 1114112 \<le> r then replacement
      else if r < 65536
      then [char_of (224 + r div 4096), char_of (128 + r div 64 mod 64), char_of (128 + r mod 64)]
      else [char_of (240 + r div 262144), char_of (128 + r div 4096 mod 64),
            char_of (128 + r div 64 mod 64), char_of (128 + r mod 64)])"

end
