(* ===== verification/Json.thy ===== *)
theory Json
  imports Utf8 Go_Strings "HOL-Library.Char_ord" "HOL-Library.List_Lexorder"
begin

text \<open>
  The part of \<open>encoding/json\<close> the program uses: \<open>Valid\<close>, the decoding of a document to its
  value, and the encoding of strings and of \<open>map[string][]string\<close>, which is how headers reach
  the database. The parser returns the value and the rest of the input. Its fuel is bounded
  by the length of the input (\<open>json_fuel\<close>); that this is always enough is the lemma
  \<open>parse_fuel\<close>. Nesting beyond 10000 levels is an error, as in Go.
\<close>

section \<open>Strings\<close>

definition quote :: char where "quote = CHR 0x22"
definition backslash :: char where "backslash = CHR 0x5C"

definition hex_digit :: "char \<Rightarrow> nat option" where
  "hex_digit c =
     (if between 48 57 c then Some (byte c - 48)
      else if between 97 102 c then Some (byte c - 87)
      else if between 65 70 c then Some (byte c - 55) else None)"

fun hex4 :: "bytes \<Rightarrow> (nat \<times> bytes) option" where
  "hex4 (a # b # c # d # r) =
     (case (hex_digit a, hex_digit b, hex_digit c, hex_digit d) of
        (Some w, Some x, Some y, Some z) \<Rightarrow> Some (((w * 16 + x) * 16 + y) * 16 + z, r)
      | _ \<Rightarrow> None)"
| "hex4 _ = None"

definition unescape :: "char \<Rightarrow> char option" where
  "unescape e =
     (if e = quote \<or> e = backslash \<or> e = CHR ''/'' then Some e
      else if e = CHR ''b'' then Some (CHR 0x08)
      else if e = CHR ''f'' then Some (CHR 0x0C)
      else if e = CHR ''n'' then Some (CHR 0x0A)
      else if e = CHR ''r'' then Some (CHR 0x0D)
      else if e = CHR ''t'' then Some (CHR 0x09) else None)"

text \<open>
  The rune of a \<open>\u\<close> escape whose four digits give \<open>u\<close>: a high surrogate takes the low
  surrogate of an escape that follows at once, any other surrogate is U+FFFD.
\<close>

definition decode_u :: "nat \<Rightarrow> bytes \<Rightarrow> bytes \<times> bytes" where
  "decode_u u r =
     (if 55296 \<le> u \<and> u < 56320 then
        (case r of
           a # b # r1 \<Rightarrow>
             (if a = backslash \<and> b = CHR ''u'' then
               (case hex4 r1 of
                  Some (v, r2) \<Rightarrow>
                    if 56320 \<le> v \<and> v < 57344
                    then (encode_rune (65536 + (u - 55296) * 1024 + (v - 56320)), r2)
                    else (replacement, r)
                | None \<Rightarrow> (replacement, r))
              else (replacement, r))
         | _ \<Rightarrow> (replacement, r))
      else (encode_rune u, r))"

lemma hex4_length: "hex4 s = Some (u, r) \<Longrightarrow> length s = length r + 4"
  by (cases s rule: hex4.cases) (auto split: option.splits)

lemma decode_u_length: "decode_u u r = (d, r') \<Longrightarrow> length r' \<le> length r"
  by (auto simp: decode_u_def dest!: hex4_length split: if_splits list.splits option.splits)

text \<open>The characters of a string literal after its opening quote, decoded, and the rest.\<close>

function parse_str :: "bytes \<Rightarrow> (bytes \<times> bytes) option" where
  "parse_str [] = None"
| "parse_str (c # r) =
     (if c = quote then Some ([], r)
      else if c = backslash then
        (case r of
           [] \<Rightarrow> None
         | e # r2 \<Rightarrow>
           (if e = CHR ''u'' then
             (case hex4 r2 of
                None \<Rightarrow> None
              | Some (u, r3) \<Rightarrow>
                (case decode_u u r3 of (d, r4) \<Rightarrow>
                   map_option (\<lambda>(s, t). (d @ s, t)) (parse_str r4)))
            else (case unescape e of
                None \<Rightarrow> None
              | Some b \<Rightarrow> map_option (\<lambda>(s, t). (b # s, t)) (parse_str r2))))
      else if byte c < 32 then None
      else (case rune_len (c # r) of
              None \<Rightarrow> map_option (\<lambda>(s, t). (replacement @ s, t)) (parse_str r)
            | Some n \<Rightarrow>
                map_option (\<lambda>(s, t). (take n (c # r) @ s, t)) (parse_str (drop n (c # r)))))"
  by pat_completeness auto
termination
  by (relation "measure length") (auto dest!: hex4_length decode_u_length [OF sym] rune_len_drop)

declare parse_str.simps [simp del]

lemma parse_str_length: "parse_str s = Some (d, r) \<Longrightarrow> length r < length s"
proof (induction s arbitrary: d r rule: parse_str.induct)
  case (2 c s)
  note simps = parse_str.simps(2)
  consider "c = quote" | "c = backslash" "c \<noteq> quote" | "c \<noteq> quote" "c \<noteq> backslash" by blast
  then show ?case
  proof cases
    case 1
    with "2.prems" show ?thesis by (simp add: simps)
  next
    case 2
    with "2.prems" obtain e s2 where s: "s = e # s2" by (cases s) (auto simp: simps)
    show ?thesis
    proof (cases "e = CHR ''u''")
      case True
      with "2.prems" 2 s obtain u s3 d4 s4 d5 where *:
        "hex4 s2 = Some (u, s3)" "decode_u u s3 = (d4, s4)" "parse_str s4 = Some (d5, r)"
        by (auto simp: simps split: option.splits prod.splits)
      with "2.IH"(1) [OF 2(2,1) s True *(1) refl *(2) [symmetric] *(3)] show ?thesis
        using hex4_length [OF *(1)] decode_u_length [OF *(2)] s by simp
    next
      case False
      with "2.prems" 2 s obtain b d5 where *: "unescape e = Some b" "parse_str s2 = Some (d5, r)"
        by (auto simp: simps split: option.splits prod.splits)
      with "2.IH"(2) [OF 2(2,1) s False *] show ?thesis using s by simp
    qed
  next
    case 3
    show ?thesis
    proof (cases "rune_len (c # s)")
      case None
      with "2.prems" 3 obtain d5 where "\<not> byte c < 32" "parse_str s = Some (d5, r)"
        by (auto simp: simps split: if_splits prod.splits)
      with "2.IH"(3) [OF 3 _ None] show ?thesis by fastforce
    next
      case (Some n)
      with "2.prems" 3 obtain d5 where "\<not> byte c < 32" "parse_str (drop n (c # s)) = Some (d5, r)"
        by (auto simp: simps split: if_splits prod.splits)
      with "2.IH"(4) [OF 3 _ Some] have "length r < length (drop n (c # s))" by fastforce
      then show ?thesis by (simp del: drop_Cons')
    qed
  qed
qed (simp add: parse_str.simps)


section \<open>Documents\<close>

datatype json =
    JNull
  | JBool bool
  | JNum bytes
  | JStr bytes
  | JArr "json list"
  | JObj "(bytes \<times> json) list"

definition json_space :: "char \<Rightarrow> bool" where
  "json_space c \<longleftrightarrow> c = CHR 0x20 \<or> c = CHR 0x09 \<or> c = CHR 0x0A \<or> c = CHR 0x0D"

definition skip_ws :: "bytes \<Rightarrow> bytes" where
  "skip_ws s = dropWhile json_space s"

definition is_digit :: "char \<Rightarrow> bool" where
  "is_digit c \<longleftrightarrow> between 48 57 c"

text \<open>\<open>digits\<close> wants at least one digit; the result is the digits and the rest.\<close>

definition digits :: "bytes \<Rightarrow> (bytes \<times> bytes) option" where
  "digits s = (let d = takeWhile is_digit s in
     if d = [] then None else Some (d, dropWhile is_digit s))"

definition num_int :: "bytes \<Rightarrow> (bytes \<times> bytes) option" where
  "num_int s = (case s of
       [] \<Rightarrow> None
     | c # r \<Rightarrow> if c = CHR ''0'' then Some ([c], r) else digits s)"

definition num_frac :: "bytes \<Rightarrow> (bytes \<times> bytes) option" where
  "num_frac s = (case s of
       c # r \<Rightarrow> if c = CHR ''.'' then map_option (\<lambda>(d, t). (c # d, t)) (digits r) else Some ([], s)
     | [] \<Rightarrow> Some ([], s))"

definition num_exp :: "bytes \<Rightarrow> (bytes \<times> bytes) option" where
  "num_exp s = (case s of
       c # r \<Rightarrow>
         if c = CHR ''e'' \<or> c = CHR ''E'' then
           (case r of
              g # r1 \<Rightarrow>
                if g = CHR ''+'' \<or> g = CHR ''-''
                then map_option (\<lambda>(d, t). (c # g # d, t)) (digits r1)
                else map_option (\<lambda>(d, t). (c # d, t)) (digits r)
            | [] \<Rightarrow> None)
         else Some ([], s)
     | [] \<Rightarrow> Some ([], s))"

definition parse_num :: "bytes \<Rightarrow> (bytes \<times> bytes) option" where
  "parse_num s =
     (let (sg, s0) = (case s of c # r \<Rightarrow> if c = CHR ''-'' then ([c], r) else ([], s) | [] \<Rightarrow> ([], s)) in
      case num_int s0 of None \<Rightarrow> None
      | Some (i, s1) \<Rightarrow>
        (case num_frac s1 of None \<Rightarrow> None
         | Some (fr, s2) \<Rightarrow>
           (case num_exp s2 of None \<Rightarrow> None
            | Some (ex, s3) \<Rightarrow> Some (sg @ i @ fr @ ex, s3))))"

definition maxNestingDepth :: nat where
  "maxNestingDepth = 10000"

fun parse_value :: "nat \<Rightarrow> nat \<Rightarrow> bytes \<Rightarrow> (json \<times> bytes) option"
  and parse_elems :: "nat \<Rightarrow> nat \<Rightarrow> bytes \<Rightarrow> (json list \<times> bytes) option"
  and parse_members :: "nat \<Rightarrow> nat \<Rightarrow> bytes \<Rightarrow> ((bytes \<times> json) list \<times> bytes) option"
where
  "parse_value 0 d s = None"
| "parse_value (Suc n) d s =
     (case skip_ws s of
        [] \<Rightarrow> None
      | c # r \<Rightarrow>
        (if c = CHR ''{'' then
           if maxNestingDepth \<le> d then None
           else (case skip_ws r of
                   [] \<Rightarrow> None
                 | c2 # r2 \<Rightarrow>
                   if c2 = CHR ''}'' then Some (JObj [], r2)
                   else map_option (\<lambda>(ms, t). (JObj ms, t)) (parse_members n (Suc d) (c2 # r2)))
         else if c = CHR ''['' then
           if maxNestingDepth \<le> d then None
           else (case skip_ws r of
                   [] \<Rightarrow> None
                 | c2 # r2 \<Rightarrow>
                   if c2 = CHR '']'' then Some (JArr [], r2)
                   else map_option (\<lambda>(vs, t). (JArr vs, t)) (parse_elems n (Suc d) (c2 # r2)))
         else if c = quote then map_option (\<lambda>(x, t). (JStr x, t)) (parse_str r)
         else if prefix ''true'' (c # r) then Some (JBool True, drop 4 (c # r))
         else if prefix ''false'' (c # r) then Some (JBool False, drop 5 (c # r))
         else if prefix ''null'' (c # r) then Some (JNull, drop 4 (c # r))
         else map_option (\<lambda>(x, t). (JNum x, t)) (parse_num (c # r))))"
| "parse_elems 0 d s = None"
| "parse_elems (Suc n) d s =
     (case parse_value n d s of
        None \<Rightarrow> None
      | Some (v, r) \<Rightarrow>
        (case skip_ws r of
           [] \<Rightarrow> None
         | c # r1 \<Rightarrow>
           (if c = CHR '','' then map_option (\<lambda>(vs, t). (v # vs, t)) (parse_elems n d r1)
            else if c = CHR '']'' then Some ([v], r1) else None)))"
| "parse_members 0 d s = None"
| "parse_members (Suc n) d s =
     (case skip_ws s of
        [] \<Rightarrow> None
      | q # r \<Rightarrow>
        (if q \<noteq> quote then None
         else case parse_str r of
           None \<Rightarrow> None
         | Some (k, r1) \<Rightarrow>
           (case skip_ws r1 of
              [] \<Rightarrow> None
            | c # r2 \<Rightarrow>
              (if c \<noteq> CHR '':'' then None
               else case parse_value n d r2 of
                 None \<Rightarrow> None
               | Some (v, r3) \<Rightarrow>
                 (case skip_ws r3 of
                    [] \<Rightarrow> None
                  | c4 # r4 \<Rightarrow>
                    (if c4 = CHR '','' then map_option (\<lambda>(ms, t). ((k, v) # ms, t)) (parse_members n d r4)
                     else if c4 = CHR ''}'' then Some ([(k, v)], r4) else None))))))"

definition json_fuel :: "bytes \<Rightarrow> nat" where
  "json_fuel s = 2 * length s + 1"

text \<open>A whole document: one value with nothing but white space after it.\<close>

definition json_parse :: "bytes \<Rightarrow> json option" where
  "json_parse s =
     (case parse_value (json_fuel s) 0 s of
        None \<Rightarrow> None
      | Some (v, r) \<Rightarrow> if skip_ws r = [] then Some v else None)"

definition json_Valid :: "bytes \<Rightarrow> bool" where
  "json_Valid s \<longleftrightarrow> json_parse s \<noteq> None"

section \<open>Fuel\<close>

lemma skip_ws_length: "length (skip_ws s) \<le> length s"
  by (simp add: skip_ws_def length_dropWhile_le)

lemma skip_ws_Cons_length: "skip_ws s = c # r \<Longrightarrow> length r < length s"
  using skip_ws_length [of s] by simp

lemma digits_length: "digits s = Some (d, r) \<Longrightarrow> length r < length s"
  by (cases s) (auto simp: digits_def Let_def length_dropWhile_le less_Suc_eq_le split: if_splits)

lemma parse_num_length: "parse_num s = Some (x, r) \<Longrightarrow> length r < length s"
proof -
  have i: "length r < length s" if "num_int s = Some (x, r)" for s x r
    using that by (auto simp: num_int_def dest: digits_length split: list.splits if_splits)
  have f: "length r \<le> length s" if "num_frac s = Some (x, r)" for s x r
    using that by (auto simp: num_frac_def dest!: digits_length split: list.splits if_splits)
  have e: "length r \<le> length s" if "num_exp s = Some (x, r)" for s x r
    using that by (auto simp: num_exp_def dest!: digits_length split: list.splits if_splits)
  show "parse_num s = Some (x, r) \<Longrightarrow> length r < length s"
    by (fastforce simp: parse_num_def Let_def dest!: i f e split: option.splits list.splits if_splits prod.splits)
qed


lemma parse_length:
  shows "parse_value n d s = Some (v, r) \<Longrightarrow> length r < length s"
    and "parse_elems n d s = Some (vs, r) \<Longrightarrow> length r < length s"
    and "parse_members n d s = Some (ms, r) \<Longrightarrow> length r < length s"
proof (induction n d s and n d s and n d s arbitrary: v r and vs r and ms r
    rule: parse_value_parse_elems_parse_members.induct)
  case (2 n d s)
  from "2.prems" obtain c r0 where s: "skip_ws s = c # r0" by (auto split: list.splits)
  have "length r \<le> length r0"
  proof (cases "c = CHR ''{'' \<or> c = CHR ''[''")
    case True
    with "2.prems" s obtain c2 r2 where s2: "skip_ws r0 = c2 # r2" "\<not> maxNestingDepth \<le> d"
      by (auto split: list.splits if_splits)
    show ?thesis
    proof (cases "c = CHR ''{''")
      case True
      have "length r < length (c2 # r2)" if "parse_members n (Suc d) (c2 # r2) = Some (ms, r)"
        "c2 \<noteq> CHR ''}''" for ms
        by (rule "2.IH"(1) [OF s True s2(2,1) that(2,1)])
      then show ?thesis using "2.prems" s True s2 skip_ws_length [of r0]
        by (fastforce split: if_splits)
    next
      case False
      with True have c: "c = CHR ''[''" by blast
      have "length r < length (c2 # r2)" if "parse_elems n (Suc d) (c2 # r2) = Some (vs, r)"
        "c2 \<noteq> CHR '']''" for vs
        by (rule "2.IH"(2) [OF s False c s2(2,1) that(2,1)])
      then show ?thesis using "2.prems" s c s2 skip_ws_length [of r0]
        by (fastforce split: if_splits)
    qed
  next
    case False
    with "2.prems" s show ?thesis
      by (simp split: if_splits) (auto dest!: parse_str_length parse_num_length)
  qed
  then show ?case using skip_ws_Cons_length [OF s] by simp
next
  case (4 n d s)
  then show ?case
    by (fastforce dest: skip_ws_Cons_length split: option.splits list.splits if_splits prod.splits)
next
  case (6 n d s)
  from "6.prems" obtain q r0 k r1 c r2 x r3 c4 r4 where *:
    "skip_ws s = q # r0" "\<not> q \<noteq> quote" "parse_str r0 = Some (k, r1)" "skip_ws r1 = c # r2"
    "\<not> c \<noteq> CHR '':''" "parse_value n d r2 = Some (x, r3)" "skip_ws r3 = c4 # r4"
    and tail: "c4 = CHR '','' \<and> (\<exists>ms'. parse_members n d r4 = Some (ms', r)) \<or> r4 = r"
    by (auto split: option.splits list.splits if_splits)
  have "length r3 < length r2" by (rule "6.IH"(1) [OF *(1-3) refl *(4-6)])
  moreover have "length r \<le> length r4"
    using tail "6.IH"(2) [OF *(1-3) refl *(4-6) refl *(7)] by fastforce
  ultimately show ?case
    using skip_ws_Cons_length [OF *(1)] parse_str_length [OF *(3)] skip_ws_Cons_length [OF *(4)]
      skip_ws_Cons_length [OF *(7)] by linarith
qed auto

lemma parse_fuel:
  shows "2 * length s + 1 \<le> n \<Longrightarrow> 2 * length s + 1 \<le> m \<Longrightarrow> parse_value n d s = parse_value m d s"
    and "2 * length s + 2 \<le> n \<Longrightarrow> 2 * length s + 2 \<le> m \<Longrightarrow> parse_elems n d s = parse_elems m d s"
    and "2 * length s + 2 \<le> n \<Longrightarrow> 2 * length s + 2 \<le> m \<Longrightarrow> parse_members n d s = parse_members m d s"
proof (induction n arbitrary: s d m)
  case (Suc n)
  {
    case 1
    then obtain k where m: "m = Suc k" by (cases m) auto
    have "parse_elems n (Suc d) (c2 # r2) = parse_elems k (Suc d) (c2 # r2)"
      "parse_members n (Suc d) (c2 # r2) = parse_members k (Suc d) (c2 # r2)"
      if "skip_ws s = c # r" "skip_ws r = c2 # r2" for c r c2 r2
    proof -
      have "length (c2 # r2) < length s"
        using skip_ws_length [of r] skip_ws_Cons_length [OF that(1)] that(2) by simp
      then have "2 * length (c2 # r2) + 2 \<le> n" "2 * length (c2 # r2) + 2 \<le> k"
        using 1 m by linarith+
      then show "parse_elems n (Suc d) (c2 # r2) = parse_elems k (Suc d) (c2 # r2)"
        "parse_members n (Suc d) (c2 # r2) = parse_members k (Suc d) (c2 # r2)"
        by (rule Suc.IH(2), rule Suc.IH(3))
    qed
    then show ?case by (auto simp: m split: list.splits)
  next
    case 2
    then obtain k where m: "m = Suc k" by (cases m) auto
    have v: "parse_value n d s = parse_value k d s"
      using 2 m by (intro Suc.IH(1)) auto
    have "parse_elems n d r1 = parse_elems k d r1"
      if "parse_value k d s = Some (x, r)" "skip_ws r = c # r1" for x r c r1
      using 2 m parse_length(1) [OF that(1)] skip_ws_Cons_length [OF that(2)]
      by (intro Suc.IH(2)) auto
    then show ?case by (auto simp: m v split: option.splits list.splits)
  next
    case 3
    then obtain k where m: "m = Suc k" by (cases m) auto
    have v: "parse_value n d r2 = parse_value k d r2 \<and>
       (\<forall>x r3 c4 r4. parse_value k d r2 = Some (x, r3) \<longrightarrow> skip_ws r3 = c4 # r4 \<longrightarrow>
          parse_members n d r4 = parse_members k d r4)"
      if "skip_ws s = q # r" "parse_str r = Some (key, r1)" "skip_ws r1 = c # r2" for q r key r1 c r2
    proof -
      have l: "length r2 + 2 < length s"
        using skip_ws_Cons_length [OF that(1)] parse_str_length [OF that(2)]
          skip_ws_Cons_length [OF that(3)] by linarith
      then show ?thesis
        using 3 m by (auto intro!: Suc.IH(1,3) dest!: parse_length(1) skip_ws_Cons_length)
    qed
    then show ?case
      by (auto simp: m split: option.splits list.splits)
  }
qed auto


section \<open>Encoding strings\<close>

definition hex_char :: "nat \<Rightarrow> char" where
  "hex_char n = (if n < 10 then char_of (48 + n) else char_of (87 + n))"

text \<open>\<open>htmlSafeSet\<close>: the ASCII bytes \<open>json.Marshal\<close> writes as they are.\<close>

definition html_safe :: "char \<Rightarrow> bool" where
  "html_safe c \<longleftrightarrow> 32 \<le> byte c \<and> byte c < 128 \<and>
     c \<noteq> quote \<and> c \<noteq> backslash \<and> c \<noteq> CHR ''<'' \<and> c \<noteq> CHR ''>'' \<and> c \<noteq> CHR ''&''"

definition enc_ascii :: "char \<Rightarrow> bytes" where
  "enc_ascii c =
     (if html_safe c then [c]
      else if c = quote \<or> c = backslash then [backslash, c]
      else if c = CHR 0x08 then [backslash, CHR ''b'']
      else if c = CHR 0x0C then [backslash, CHR ''f'']
      else if c = CHR 0x0A then [backslash, CHR ''n'']
      else if c = CHR 0x0D then [backslash, CHR ''r'']
      else if c = CHR 0x09 then [backslash, CHR ''t'']
      else [backslash, CHR ''u'', CHR ''0'', CHR ''0'', hex_char (byte c div 16), hex_char (byte c mod 16)])"

function enc_body :: "bytes \<Rightarrow> bytes" where
  "enc_body [] = []"
| "enc_body (c # r) =
     (if byte c < 128 then enc_ascii c @ enc_body r
      else case rune_len (c # r) of
        None \<Rightarrow> backslash # ''ufffd'' @ enc_body r
      | Some n \<Rightarrow>
          (if take n (c # r) = [CHR 0xE2, CHR 0x80, CHR 0xA8] then backslash # ''u2028''
           else if take n (c # r) = [CHR 0xE2, CHR 0x80, CHR 0xA9] then backslash # ''u2029''
           else take n (c # r)) @ enc_body (drop n (c # r)))"
  by pat_completeness auto
termination
  by (relation "measure length") (auto dest: rune_len_drop)

declare enc_body.simps [simp del]

definition enc_str :: "bytes \<Rightarrow> bytes" where
  "enc_str s = quote # enc_body s @ [quote]"

definition enc_strs :: "bytes list \<Rightarrow> bytes" where
  "enc_strs vs = ''['' @ Join (map enc_str vs) '','' @ '']''"

text \<open>\<open>json.Marshal\<close> of a \<open>map[string][]string\<close>: the keys in byte order.\<close>

definition marshal_map :: "(bytes \<times> bytes list) list \<Rightarrow> bytes" where
  "marshal_map h =
     ''{'' @ Join (map (\<lambda>(k, vs). enc_str k @ '':'' @ enc_strs vs) (sort_key fst h)) '','' @ ''}''"

section \<open>Decoding into \<open>map[string][]string\<close>\<close>

definition json_to_str :: "json \<Rightarrow> unit + bytes" where
  "json_to_str v = (case v of JStr s \<Rightarrow> Inr s | JNull \<Rightarrow> Inr [] | _ \<Rightarrow> Inl ())"

definition json_to_strs :: "json \<Rightarrow> unit + bytes list" where
  "json_to_strs v = (case v of JArr vs \<Rightarrow> collect json_to_str vs | JNull \<Rightarrow> Inr [] | _ \<Rightarrow> Inl ())"

definition member_to_strs :: "bytes \<times> json \<Rightarrow> unit + (bytes \<times> bytes list)" where
  "member_to_strs m = (case json_to_strs (snd m) of Inl e \<Rightarrow> Inl e | Inr vs \<Rightarrow> Inr (fst m, vs))"

definition unmarshal_map :: "bytes \<Rightarrow> (bytes \<times> bytes list) list option" where
  "unmarshal_map s =
     (case json_parse s of
        None \<Rightarrow> None
      | Some JNull \<Rightarrow> Some []
      | Some (JObj ms) \<Rightarrow>
          (case collect member_to_strs ms of
             Inl _ \<Rightarrow> None
           | Inr kvs \<Rightarrow> Some (fold (\<lambda>(k, vs) h. AList.update k vs h) kvs []))
      | Some _ \<Rightarrow> None)"

section \<open>Round trip\<close>

lemma hex_digit_char: "n < 16 \<Longrightarrow> hex_digit (hex_char n) = Some n"
  by (auto simp: hex_digit_def hex_char_def between_def byte_def)

lemma byte_less: "byte c < 256"
  by (simp add: byte_def)

lemma char_of_byte [simp]: "char_of (byte c) = c"
  by (simp add: byte_def)

lemma byte_eq_iff: "c = d \<longleftrightarrow> byte c = byte d"
  by (metis char_of_byte)

lemmas special_chars = quote_def backslash_def

lemma parse_str_ascii:
  assumes "byte c < 128"
  shows "parse_str (enc_ascii c @ t) = map_option (\<lambda>(s, u). (c # s, u)) (parse_str t)"
proof -
  consider "html_safe c" | "\<not> html_safe c" "c \<in> {quote, backslash, CHR 0x08, CHR 0x0C, CHR 0x0A, CHR 0x0D, CHR 0x09}"
    | "\<not> html_safe c" "c \<notin> {quote, backslash, CHR 0x08, CHR 0x0C, CHR 0x0A, CHR 0x0D, CHR 0x09}"
    by blast
  then show ?thesis
  proof cases
    case 1
    then show ?thesis using assms
      by (simp add: enc_ascii_def parse_str.simps(2) html_safe_def rune_len_ascii)
  next
    case 2
    then show ?thesis
      by (auto simp: enc_ascii_def parse_str.simps(2) unescape_def special_chars)
  next
    case 3
    have "byte c div 16 < 16" "byte c mod 16 < 16" using byte_less [of c] by auto
    then have "hex4 (CHR ''0'' # CHR ''0'' # hex_char (byte c div 16) # hex_char (byte c mod 16) # t)
        = Some (byte c, t)"
      by (simp add: hex_digit_char) (simp add: hex_digit_def between_def byte_def)
    moreover have "decode_u (byte c) t = ([c], t)" using assms by (simp add: decode_u_def encode_rune_def)
    ultimately show ?thesis using 3
      by (simp add: enc_ascii_def parse_str.simps(2) special_chars unescape_def)
  qed
qed

lemma parse_str_u:
  assumes "hex4 x = Some (u, t)" "decode_u u t = (d, t)"
  shows "parse_str (backslash # CHR ''u'' # x) = map_option (\<lambda>(s, v). (d @ s, v)) (parse_str t)"
  using assms by (simp add: parse_str.simps(2) special_chars)

lemma parse_str_rune:
  assumes "rune_len s = Some n" "128 \<le> byte (hd s)"
  shows "parse_str (take n s @ t) = map_option (\<lambda>(x, v). (take n s @ x, v)) (parse_str t)"
proof -
  have n: "0 < n" "n \<le> length s" using rune_len_bounds [OF assms(1)] by auto
  then obtain c r where cr: "take n s = c # r" by (cases "take n s") auto
  then have "c = hd s" using n by (metis hd_take list.sel(1))
  then have c: "128 \<le> byte c" using assms(2) by simp
  have l: "length (c # r) = n" using cr n by (metis length_take min.absorb2)
  have rl: "rune_len (c # r @ t) = Some n" using rune_len_take [OF assms(1), of t] cr by simp
  have "take n (c # r @ t) = c # r" "drop n (c # r @ t) = t" using l by auto
  then show ?thesis using c rl
    by (auto simp: cr parse_str.simps(2) special_chars byte_def)
qed

lemma parse_str_enc_body: "parse_str (enc_body s @ quote # t) = Some (sanitize s, t)"
proof (induction s rule: enc_body.induct)
  case 1
  then show ?case by (simp add: enc_body.simps parse_str.simps(2))
next
  case (2 c r)
  show ?case
  proof (cases "byte c < 128")
    case True
    with 2 show ?thesis
      by (simp add: enc_body.simps parse_str_ascii sanitize.simps [of "c # r"] rune_len_ascii)
  next
    case False
    then have hd: "128 \<le> byte (hd (c # r))" by simp
    show ?thesis
    proof (cases "rune_len (c # r)")
      case None
      have "hex4 (''fffd'' @ y) = Some (65533, y)" "decode_u 65533 y = (replacement, y)" for y
        by (simp_all add: hex_digit_def between_def byte_def decode_u_def encode_rune_def replacement_def
            char_of_def bit_numeral_rec bit_0)
      with False None "2.IH"(2) show ?thesis
        by (simp add: enc_body.simps sanitize.simps [of "c # r"] parse_str_u)
    next
      case (Some n)
      have u: "hex4 (''2028'' @ y) = Some (8232, y)" "decode_u 8232 y = ([CHR 0xE2, CHR 0x80, CHR 0xA8], y)"
        "hex4 (''2029'' @ y) = Some (8233, y)" "decode_u 8233 y = ([CHR 0xE2, CHR 0x80, CHR 0xA9], y)" for y
        by (simp_all add: hex_digit_def between_def byte_def decode_u_def encode_rune_def char_of_def
            bit_numeral_rec bit_0)
      note IH = "2.IH"(3) [OF False Some]
      consider "take n (c # r) = [CHR 0xE2, CHR 0x80, CHR 0xA8]"
        | "take n (c # r) = [CHR 0xE2, CHR 0x80, CHR 0xA9]"
        | "take n (c # r) \<noteq> [CHR 0xE2, CHR 0x80, CHR 0xA8]" "take n (c # r) \<noteq> [CHR 0xE2, CHR 0x80, CHR 0xA9]"
        by blast
      then show ?thesis
      proof cases
        case 1
        with False Some IH u show ?thesis
          by (simp add: enc_body.simps sanitize.simps [of "c # r"] parse_str_u)
      next
        case 2
        with False Some IH u show ?thesis
          by (simp add: enc_body.simps sanitize.simps [of "c # r"] parse_str_u)
      next
        case 3
        with False Some IH show ?thesis
          by (simp add: enc_body.simps sanitize.simps [of "c # r"] parse_str_rune [OF Some hd])
      qed
    qed
  qed
qed


lemma skip_ws_Cons: "\<not> json_space c \<Longrightarrow> skip_ws (c # r) = c # r"
  by (simp add: skip_ws_def)

lemma skip_ws_plain [simp]:
  "skip_ws (CHR ''{'' # r) = CHR ''{'' # r" "skip_ws (CHR ''}'' # r) = CHR ''}'' # r"
  "skip_ws (CHR ''['' # r) = CHR ''['' # r" "skip_ws (CHR '']'' # r) = CHR '']'' # r"
  "skip_ws (CHR '','' # r) = CHR '','' # r" "skip_ws (CHR '':'' # r) = CHR '':'' # r"
  "skip_ws (quote # r) = quote # r"
  by (simp_all add: skip_ws_Cons json_space_def quote_def)

lemma enc_str_append: "enc_str s @ t = quote # enc_body s @ quote # t"
  by (simp add: enc_str_def)

lemma quote_neq [simp]: "quote \<noteq> CHR ''{''" "quote \<noteq> CHR ''[''" "quote \<noteq> CHR ''}''" "quote \<noteq> CHR '']''"
  by (simp_all add: quote_def)

lemma parse_value_str: "0 < n \<Longrightarrow> parse_value n d (enc_str s @ t) = Some (JStr (sanitize s), t)"
  by (cases n) (simp_all add: enc_str_append parse_str_enc_body)

lemma parse_elems_strs:
  assumes "vs \<noteq> []" "length vs < n"
  shows "parse_elems n d (Join (map enc_str vs) '','' @ CHR '']'' # t)
    = Some (map (\<lambda>s. JStr (sanitize s)) vs, t)"
  using assms
proof (induction vs arbitrary: n)
  case (Cons v vs)
  then obtain m where n: "n = Suc m" "length vs < m" by (cases n) auto
  then have v: "parse_value m d (enc_str v @ u) = Some (JStr (sanitize v), u)" for u
    by (simp add: parse_value_str)
  show ?case
  proof (cases vs)
    case Nil
    then show ?thesis by (simp add: n v)
  next
    case (Cons w ws)
    with Cons.IH [of m] n show ?thesis by (simp add: v)
  qed
qed simp

lemma parse_value_strs:
  assumes "length vs + 1 < n" "d < maxNestingDepth"
  shows "parse_value n d (enc_strs vs @ t) = Some (JArr (map (\<lambda>s. JStr (sanitize s)) vs), t)"
proof -
  obtain m where n: "n = Suc m" "length vs < m" using assms(1) by (cases n) auto
  show ?thesis
  proof (cases vs)
    case Nil
    then show ?thesis using assms(2) by (simp add: n enc_strs_def)
  next
    case (Cons v ws)
    obtain x where x: "Join (map enc_str vs) '','' @ CHR '']'' # t = quote # x"
      unfolding Cons by (cases ws) (auto simp: enc_str_def)
    with parse_elems_strs [of vs m "Suc d" t] n Cons assms(2) show ?thesis
      by (simp add: enc_strs_def)
  qed
qed

definition enc_member :: "bytes \<times> bytes list \<Rightarrow> bytes" where
  "enc_member = (\<lambda>(k, vs). enc_str k @ '':'' @ enc_strs vs)"

lemma parse_members_map:
  assumes "h \<noteq> []" "\<forall>(k, vs) \<in> set h. length vs + length h + 2 < n" "d < maxNestingDepth"
  shows "parse_members n d (Join (map enc_member h) '','' @ CHR ''}'' # t)
    = Some (map (\<lambda>(k, vs). (sanitize k, JArr (map (\<lambda>s. JStr (sanitize s)) vs))) h, t)"
  using assms(1,2)
proof (induction h arbitrary: n)
  case (Cons kv h)
  obtain k vs where kv: "kv = (k, vs)" by fastforce
  obtain m where n: "n = Suc m" "length vs + 1 < m" using Cons.prems kv by (cases n) auto
  note v = parse_value_strs [OF n(2) assms(3)]
  have e: "enc_member (k, vs) @ u = quote # enc_body k @ quote # CHR '':'' # enc_strs vs @ u" for u
    by (simp add: enc_member_def enc_str_def)
  show ?case
  proof (cases h)
    case Nil
    then show ?thesis by (simp add: n e v kv parse_str_enc_body)
  next
    case (Cons kv2 h2)
    have "\<forall>(k, vs) \<in> set h. length vs + length h + 2 < m" using Cons.prems(2) n by auto
    with Cons.IH [of m] Cons show ?thesis by (simp add: n e v kv parse_str_enc_body)
  qed
qed simp

lemma parse_marshal_map:
  "json_parse (marshal_map h) =
    Some (JObj (map (\<lambda>(k, vs). (sanitize k, JArr (map (\<lambda>s. JStr (sanitize s)) vs))) (sort_key fst h)))"
proof -
  let ?s = "marshal_map h" and ?h = "sort_key fst h"
  have s: "?s = CHR ''{'' # Join (map enc_member ?h) '','' @ CHR ''}'' # []"
    by (simp add: marshal_map_def enc_member_def)
  obtain n where n: "json_fuel ?s < Suc n" "\<forall>(k, vs) \<in> set ?h. length vs + length ?h + 2 < n"
  proof -
    let ?n = "json_fuel ?s + sum_list (map (\<lambda>(k, vs). length vs) ?h) + length ?h + 3"
    have "length vs \<le> sum_list (map (\<lambda>(k, vs). length vs) ?h)" if "(k, vs) \<in> set ?h" for k vs
      using that by (intro member_le_sum_list) (auto intro: rev_image_eqI)
    then show thesis by (intro that [of ?n]) fastforce+
  qed
  have "parse_value (Suc n) 0 ?s = Some (JObj (map (\<lambda>(k, vs). (sanitize k,
      JArr (map (\<lambda>s. JStr (sanitize s)) vs))) ?h), [])"
  proof (cases "?h = []")
    case True
    then show ?thesis by (simp add: s maxNestingDepth_def)
  next
    case False
    then obtain kv h2 where "?h = kv # h2" by (cases ?h) auto
    then obtain x where x: "Join (map enc_member ?h) '','' @ CHR ''}'' # [] = quote # x"
      by (cases h2; cases kv) (auto simp: enc_member_def enc_str_def)
    with parse_members_map [OF False n(2), of 1 "[]"] show ?thesis
      by (simp add: s maxNestingDepth_def)
  qed
  moreover have "parse_value (json_fuel ?s) 0 ?s = parse_value (Suc n) 0 ?s"
    using n(1) by (intro parse_fuel(1)) (simp_all add: json_fuel_def)
  ultimately show ?thesis by (simp add: json_parse_def skip_ws_def)
qed

lemma collect_json_to_str: "collect json_to_str (map (\<lambda>s. JStr (f s)) vs) = Inr (map f vs)"
  by (induction vs) (simp_all add: json_to_str_def)

lemma fold_update_distinct:
  assumes "distinct (map fst kvs)" "fst ` set kvs \<inter> fst ` set h = {}"
  shows "fold (\<lambda>(k, vs) h. AList.update k vs h) kvs h = h @ kvs"
  using assms
proof (induction kvs arbitrary: h)
  case (Cons kv kvs)
  obtain k vs where "kv = (k, vs)" by fastforce
  moreover have "AList.update k vs h = h @ [(k, vs)]" if "k \<notin> fst ` set h"
    using that by (induction h) auto
  ultimately show ?case using Cons.prems Cons.IH [of "h @ [(k, vs)]"] by auto
qed simp

text \<open>A header made of well-formed UTF-8 comes back as it was, up to the order of its keys.\<close>

definition valid_header :: "(bytes \<times> bytes list) list \<Rightarrow> bool" where
  "valid_header h \<longleftrightarrow> distinct (map fst h) \<and>
     (\<forall>(k, vs) \<in> set h. utf8_Valid k \<and> (\<forall>v \<in> set vs. utf8_Valid v))"

lemma unmarshal_marshal:
  assumes "valid_header h"
  shows "unmarshal_map (marshal_map h) = Some (sort_key fst h)"
proof -
  let ?h = "sort_key fst h"
  have m: "map (\<lambda>(k, vs). (sanitize k, JArr (map (\<lambda>s. JStr (sanitize s)) vs))) ?h
      = map (\<lambda>(k, vs). (k, JArr (map JStr vs))) ?h"
    using assms by (auto simp: valid_header_def sanitize_valid)
  have c: "collect member_to_strs (map (\<lambda>(k, vs). (k, JArr (map JStr vs))) xs) = Inr xs" for xs
    using collect_json_to_str [of id]
    by (induction xs) (auto simp: member_to_strs_def json_to_strs_def)
  have "mset (map fst ?h) = mset (map fst h)" by simp
  then have "distinct (map fst ?h)"
    using assms mset_eq_imp_distinct_iff unfolding valid_header_def by blast
  then show ?thesis
    by (simp add: unmarshal_map_def parse_marshal_map m c fold_update_distinct)
qed

end
