(* ===== verification/Sqlite.thy ===== *)
theory Sqlite
  imports Entry Json
begin

text \<open>
  \<open>internal/store/sqlite.go\<close>: the history of finished entries, one row per entry.

  The statements of the file are the constructors of \<open>sql\<close>. The engine that runs them
  (\<open>modernc.org/sqlite\<close> behind \<open>database/sql\<close>) is not part of the repository: it is the
  argument \<open>exec\<close> of every operation, a function from a database and a statement to a result,
  or a failure, and the database after it. What the code relies on is the locale
  \<open>sql_engine\<close>: \<open>tbl\<close> is the content of the table \<open>requests\<close> by primary key; a statement that
  fails changes nothing; a successful one does what SQL says of its text. The order of rows
  with equal \<open>started_at\<close>, and of ids selected without \<open>ORDER BY\<close>, is the engine's choice.
\<close>

record row =
  r_id :: bytes
  r_method :: bytes
  r_url :: bytes
  r_status :: bytes
  r_status_code :: "int option"
  r_error :: "bytes option"
  r_request_format :: "bytes option"
  r_response_format :: "bytes option"
  r_is_ollama :: bool
  r_is_replay :: bool
  r_request_headers :: "bytes option"
  r_request_body :: "bytes option"
  r_request_body_path :: "bytes option"
  r_request_body_size :: int
  r_response_headers :: "bytes option"
  r_response_body :: "bytes option"
  r_response_body_path :: "bytes option"
  r_response_body_size :: int
  r_started_at :: int
  r_finished_at :: "int option"
  r_ttfb_ms :: "int option"
  r_stream_ms :: "int option"
  r_total_ms :: "int option"

datatype sql =
    CreateSchema
  | InsertOrReplace row
  | SelectIds
  | SelectById bytes
  | SelectNewest int
  | SelectOlder int int
  | SelectOverflow int
  | DeleteById bytes
  | DeleteAll

datatype sql_result = Rows "row list" | Ids "bytes list" | Done

type_synonym 'db engine = "'db \<Rightarrow> sql \<Rightarrow> (unit + sql_result) \<times> 'db"

section \<open>Columns\<close>

definition marshalHeader :: "header \<Rightarrow> go_error + bytes option" where
  "marshalHeader h = (if length h = 0 then Inr None else Inr (Some (marshal_map h)))"

definition unmarshalHeader :: "bytes option \<Rightarrow> go_error + header" where
  "unmarshalHeader v =
     (case v of
        None \<Rightarrow> Inr []
      | Some s \<Rightarrow> if s = [] then Inr []
          else (case unmarshal_map s of None \<Rightarrow> Inl ErrJSON | Some h \<Rightarrow> Inr h))"

definition blobColumn :: "bytes \<Rightarrow> bool \<Rightarrow> bytes option" where
  "blobColumn body spilled = (if spilled \<or> length body = 0 then None else Some body)"

definition nullString :: "bytes \<Rightarrow> bytes option" where
  "nullString s = (if s = [] then None else Some s)"

definition nullInt :: "int \<Rightarrow> bool \<Rightarrow> int option" where
  "nullInt v ok = (if \<not> ok then None else Some v)"

definition nullInt64 :: "int option \<Rightarrow> int option" where
  "nullInt64 v = (case v of None \<Rightarrow> None | Some n \<Rightarrow> Some n)"

definition nullTime :: "gotime option \<Rightarrow> int option" where
  "nullTime t = (case t of None \<Rightarrow> None | Some u \<Rightarrow> Some (UnixMilli u))"

definition optInt64 :: "int option \<Rightarrow> int option" where
  "optInt64 v = (case v of None \<Rightarrow> None | Some n \<Rightarrow> Some n)"

text \<open>The zero value of an invalid \<open>sql.NullString\<close> or \<open>sql.NullInt64\<close>, and of a NULL blob.\<close>

definition null_string :: "bytes option \<Rightarrow> bytes" where
  "null_string v = (case v of None \<Rightarrow> [] | Some s \<Rightarrow> s)"

definition null_int :: "int option \<Rightarrow> int" where
  "null_int v = (case v of None \<Rightarrow> 0 | Some n \<Rightarrow> n)"

text \<open>The arguments of the insert statement.\<close>

definition entry_row :: "entry \<Rightarrow> go_error + row" where
  "entry_row e =
     (case marshalHeader (RequestHeaders e) of Inl er \<Rightarrow> Inl er
      | Inr reqHeaders \<Rightarrow>
        (case marshalHeader (ResponseHeaders e) of Inl er \<Rightarrow> Inl er
         | Inr respHeaders \<Rightarrow>
           Inr \<lparr>r_id = ID e, r_method = Method e, r_url = URL e, r_status = Status e,
             r_status_code = nullInt (StatusCode e) (StatusCode e \<noteq> 0), r_error = nullString (Error e),
             r_request_format = nullString (RequestFormat e),
             r_response_format = nullString (ResponseFormat e),
             r_is_ollama = IsOllama e, r_is_replay = IsReplay e,
             r_request_headers = reqHeaders,
             r_request_body = blobColumn (RequestBody e) (RequestSpilled e),
             r_request_body_path = nullString (RequestBodyPath e),
             r_request_body_size = RequestBodySize e,
             r_response_headers = respHeaders,
             r_response_body = blobColumn (ResponseBody e) (ResponseSpilled e),
             r_response_body_path = nullString (ResponseBodyPath e),
             r_response_body_size = ResponseBodySize e,
             r_started_at = UnixMilli (StartedAt e), r_finished_at = nullTime (FinishedAt e),
             r_ttfb_ms = nullInt64 (TTFBMs e), r_stream_ms = nullInt64 (StreamMs e),
             r_total_ms = nullInt64 (TotalMs e)\<rparr>))"

definition scanEntry :: "row \<Rightarrow> go_error + entry" where
  "scanEntry r =
     (case unmarshalHeader (r_request_headers r) of Inl er \<Rightarrow> Inl er
      | Inr reqHeaders \<Rightarrow>
        (case unmarshalHeader (r_response_headers r) of Inl er \<Rightarrow> Inl er
         | Inr respHeaders \<Rightarrow>
           Inr \<lparr>ID = r_id r, Method = r_method r, URL = r_url r, Status = r_status r,
             StatusCode = null_int (r_status_code r), Error = null_string (r_error r),
             RequestFormat = null_string (r_request_format r),
             ResponseFormat = null_string (r_response_format r),
             IsOllama = r_is_ollama r, IsReplay = r_is_replay r,
             RequestHeaders = reqHeaders, ResponseHeaders = respHeaders,
             RequestBody = null_string (r_request_body r),
             RequestBodyPath = null_string (r_request_body_path r),
             RequestBodySize = r_request_body_size r,
             RequestSpilled = (r_request_body_path r \<noteq> None),
             ResponseBody = null_string (r_response_body r),
             ResponseBodyPath = null_string (r_response_body_path r),
             ResponseBodySize = r_response_body_size r,
             ResponseSpilled = (r_response_body_path r \<noteq> None),
             StartedAt = time_UnixMilli (r_started_at r),
             FinishedAt = map_option time_UnixMilli (r_finished_at r),
             TTFBMs = optInt64 (r_ttfb_ms r), StreamMs = optInt64 (r_stream_ms r),
             TotalMs = optInt64 (r_total_ms r)\<rparr>))"

section \<open>Operations\<close>

definition openDB :: "'db engine \<Rightarrow> 'db \<Rightarrow> (go_error + unit) \<times> 'db" where
  "openDB exec db =
     (case exec db CreateSchema of
        (Inl _, db') \<Rightarrow> (Inl ErrSQL, db')
      | (Inr _, db') \<Rightarrow> (Inr (), db'))"

text \<open>Running a query that selects ids, or whole rows, and scanning every row of the result.\<close>

definition query_ids :: "'db engine \<Rightarrow> sql \<Rightarrow> 'db \<Rightarrow> (go_error + bytes list) \<times> 'db" where
  "query_ids exec q db =
     (case exec db q of
        (Inr (Ids xs), db') \<Rightarrow> (Inr xs, db')
      | (_, db') \<Rightarrow> (Inl ErrSQL, db'))"

definition query_rows :: "'db engine \<Rightarrow> sql \<Rightarrow> 'db \<Rightarrow> (go_error + entry list) \<times> 'db" where
  "query_rows exec q db =
     (case exec db q of
        (Inr (Rows rs), db') \<Rightarrow> (collect scanEntry rs, db')
      | (_, db') \<Rightarrow> (Inl ErrSQL, db'))"

definition knownIDs :: "'db engine \<Rightarrow> 'db \<Rightarrow> (go_error + bytes list) \<times> 'db" where
  "knownIDs exec db =
     (case query_ids exec SelectIds db of
        (Inl e, db') \<Rightarrow> (Inl e, db')
      | (Inr xs, db') \<Rightarrow> (Inr (remdups xs), db'))"

definition db_insert :: "'db engine \<Rightarrow> entry \<Rightarrow> 'db \<Rightarrow> (go_error + unit) \<times> 'db" where
  "db_insert exec e db =
     (case entry_row e of
        Inl er \<Rightarrow> (Inl er, db)
      | Inr r \<Rightarrow> (case exec db (InsertOrReplace r) of
          (Inl _, db') \<Rightarrow> (Inl ErrSQL, db')
        | (Inr _, db') \<Rightarrow> (Inr (), db')))"

definition db_get :: "'db engine \<Rightarrow> bytes \<Rightarrow> 'db \<Rightarrow> (go_error + entry) \<times> 'db" where
  "db_get exec eid db =
     (case exec db (SelectById eid) of
        (Inr (Rows []), db') \<Rightarrow> (Inl ErrNotFound, db')
      | (Inr (Rows (r # _)), db') \<Rightarrow> (scanEntry r, db')
      | (_, db') \<Rightarrow> (Inl ErrSQL, db'))"

definition db_list :: "'db engine \<Rightarrow> int \<Rightarrow> gotime \<Rightarrow> 'db \<Rightarrow> (go_error + entry list) \<times> 'db" where
  "db_list exec limit before db =
     query_rows exec (if \<not> IsZero before then SelectOlder (UnixMilli before) limit
                      else SelectNewest limit) db"

definition overflowIDs :: "'db engine \<Rightarrow> int \<Rightarrow> 'db \<Rightarrow> (go_error + bytes list) \<times> 'db" where
  "overflowIDs exec maxEntries db = query_ids exec (SelectOverflow maxEntries) db"

fun delete_victims :: "'db engine \<Rightarrow> bytes list \<Rightarrow> 'db \<Rightarrow> (go_error + unit) \<times> 'db" where
  "delete_victims exec [] db = (Inr (), db)"
| "delete_victims exec (eid # eids) db =
     (case exec db (DeleteById eid) of
        (Inl _, db') \<Rightarrow> (Inl ErrSQL, db')
      | (Inr _, db') \<Rightarrow> delete_victims exec eids db')"

definition applyRetention :: "'db engine \<Rightarrow> int \<Rightarrow> 'db \<Rightarrow> (go_error + bytes list) \<times> 'db" where
  "applyRetention exec maxEntries db =
     (case overflowIDs exec maxEntries db of
        (Inl e, db') \<Rightarrow> (Inl e, db')
      | (Inr victims, db') \<Rightarrow>
        (case delete_victims exec victims db' of
           (Inl e, db'') \<Rightarrow> (Inl e, db'')
         | (Inr _, db'') \<Rightarrow> (Inr victims, db'')))"

definition db_clear :: "'db engine \<Rightarrow> 'db \<Rightarrow> (go_error + bytes list) \<times> 'db" where
  "db_clear exec db =
     (case knownIDs exec db of
        (Inl e, db') \<Rightarrow> (Inl e, db')
      | (Inr ids, db') \<Rightarrow>
        (case exec db' DeleteAll of
           (Inl _, db'') \<Rightarrow> (Inl ErrSQL, db'')
         | (Inr _, db'') \<Rightarrow> (Inr ids, db'')))"

section \<open>What comes back of an entry that was written\<close>

text \<open>
  Keys in byte order, ill-formed UTF-8 replaced, times cut to the millisecond, and no inline
  bytes for a body that lives on disk.
\<close>

definition canon_header :: "header \<Rightarrow> header" where
  "canon_header h =
     fold (\<lambda>(k, vs) h. AList.update k vs h)
       (map (\<lambda>(k, vs). (sanitize k, map sanitize vs)) (sort_key fst h)) []"

definition to_milli :: "gotime \<Rightarrow> gotime" where
  "to_milli t = time_UnixMilli (UnixMilli t)"

definition stored :: "entry \<Rightarrow> entry" where
  "stored e = e\<lparr>RequestHeaders := canon_header (RequestHeaders e),
     ResponseHeaders := canon_header (ResponseHeaders e),
     RequestBody := (if RequestSpilled e then [] else RequestBody e),
     RequestSpilled := (RequestBodyPath e \<noteq> []),
     ResponseBody := (if ResponseSpilled e then [] else ResponseBody e),
     ResponseSpilled := (ResponseBodyPath e \<noteq> []),
     StartedAt := to_milli (StartedAt e), FinishedAt := map_option to_milli (FinishedAt e)\<rparr>"

lemma unmarshal_marshal_canon: "unmarshal_map (marshal_map h) = Some (canon_header h)"
proof -
  have "collect member_to_strs (map (\<lambda>(k, vs). (sanitize k, JArr (map (\<lambda>s. JStr (sanitize s)) vs))) xs)
      = Inr (map (\<lambda>(k, vs). (sanitize k, map sanitize vs)) xs)" for xs
    by (induction xs) (auto simp: member_to_strs_def json_to_strs_def collect_json_to_str)
  then show ?thesis by (simp add: unmarshal_map_def parse_marshal_map canon_header_def)
qed

lemma canon_header_Nil [simp]: "canon_header [] = []"
  by (simp add: canon_header_def)

lemma canon_header_valid: "valid_header h \<Longrightarrow> canon_header h = sort_key fst h"
  using unmarshal_marshal unmarshal_marshal_canon by force

lemma marshal_map_nonempty [simp]: "marshal_map h \<noteq> []"
  by (simp add: marshal_map_def)

lemma header_column: "\<exists>c. marshalHeader h = Inr c \<and> unmarshalHeader c = Inr (canon_header h)"
  by (cases h) (simp_all add: marshalHeader_def unmarshalHeader_def unmarshal_marshal_canon)

lemma null_simps [simp]:
  "null_string (nullString s) = s" "null_int (nullInt n (n \<noteq> 0)) = n"
  "nullInt64 v = v" "optInt64 v = v" "(\<exists>y. nullString s = Some y) = (s \<noteq> [])"
  "null_string (blobColumn b sp) = (if sp then [] else b)"
  by (simp_all add: null_string_def nullString_def null_int_def nullInt_def nullInt64_def
      optInt64_def blobColumn_def split: option.splits)

lemma entry_row_scan:
  "\<exists>r. entry_row e = Inr r \<and> scanEntry r = Inr (stored e) \<and> r_id r = ID e \<and>
     r_started_at r = UnixMilli (StartedAt e)"
proof -
  obtain c d where h: "marshalHeader (RequestHeaders e) = Inr c"
    "unmarshalHeader c = Inr (canon_header (RequestHeaders e))"
    "marshalHeader (ResponseHeaders e) = Inr d"
    "unmarshalHeader d = Inr (canon_header (ResponseHeaders e))"
    using header_column by metis
  then show ?thesis
    by (simp add: entry_row_def scanEntry_def stored_def to_milli_def nullTime_def
        option.map_comp comp_def split: option.splits)
qed


section \<open>The engine's contract\<close>

text \<open>\<open>rs\<close> lists the rows of \<open>R\<close> by descending \<open>started_at\<close>.\<close>

definition newest_first :: "row set \<Rightarrow> row list \<Rightarrow> bool" where
  "newest_first R rs \<longleftrightarrow> set rs = R \<and> distinct (map r_id rs) \<and>
     sorted_wrt (\<lambda>a b. r_started_at b \<le> r_started_at a) rs"

text \<open>\<open>LIMIT n\<close>: a negative limit is no limit.\<close>

definition sql_limit :: "int \<Rightarrow> 'a list \<Rightarrow> 'a list" where
  "sql_limit n xs = (if n < 0 then xs else take (nat n) xs)"

locale sql_engine =
  fixes exec :: "'db engine"
    and tbl :: "'db \<Rightarrow> bytes \<Rightarrow> row option"
  assumes finite_tbl: "finite (dom (tbl d))"
    and primary_key: "tbl d k = Some r \<Longrightarrow> r_id r = k"
    and failure: "exec d q = (Inl u, d') \<Longrightarrow> tbl d' = tbl d"
    and create_schema: "exec d CreateSchema = (Inr x, d') \<Longrightarrow> tbl d' = tbl d"
    and insert_or_replace: "exec d (InsertOrReplace r) = (Inr x, d') \<Longrightarrow> tbl d' = (tbl d)(r_id r \<mapsto> r)"
    and select_ids: "exec d SelectIds = (Inr x, d') \<Longrightarrow>
      tbl d' = tbl d \<and> (\<exists>xs. x = Ids xs \<and> distinct xs \<and> set xs = dom (tbl d))"
    and select_by_id: "exec d (SelectById k) = (Inr x, d') \<Longrightarrow>
      tbl d' = tbl d \<and> x = Rows (case tbl d k of None \<Rightarrow> [] | Some r \<Rightarrow> [r])"
    and select_newest: "exec d (SelectNewest n) = (Inr x, d') \<Longrightarrow>
      tbl d' = tbl d \<and> (\<exists>rs. newest_first (ran (tbl d)) rs \<and> x = Rows (sql_limit n rs))"
    and select_older: "exec d (SelectOlder ms n) = (Inr x, d') \<Longrightarrow>
      tbl d' = tbl d \<and>
      (\<exists>rs. newest_first {r \<in> ran (tbl d). r_started_at r < ms} rs \<and> x = Rows (sql_limit n rs))"
    and select_overflow: "exec d (SelectOverflow n) = (Inr x, d') \<Longrightarrow>
      tbl d' = tbl d \<and>
      (\<exists>rs. newest_first (ran (tbl d)) rs \<and> x = Ids (map r_id (drop (nat n) rs)))"
    and delete_by_id: "exec d (DeleteById k) = (Inr x, d') \<Longrightarrow> tbl d' = (tbl d)(k := None)"
    and delete_all: "exec d DeleteAll = (Inr x, d') \<Longrightarrow> tbl d' = Map.empty"
begin

lemma ran_id: "r \<in> ran (tbl d) \<longleftrightarrow> tbl d (r_id r) = Some r"
  by (auto simp: ran_def dest: primary_key)

lemma newest_first_dom:
  "newest_first (ran (tbl d)) rs \<Longrightarrow> set (map r_id rs) = dom (tbl d) \<and> length rs = card (dom (tbl d))"
proof -
  assume n: "newest_first (ran (tbl d)) rs"
  have "r_id ` ran (tbl d) = dom (tbl d)"
    by (auto simp: image_iff dom_def ran_id dest: primary_key) (metis primary_key ran_id ranI)
  with n have "set (map r_id rs) = dom (tbl d)" "distinct (map r_id rs)"
    by (auto simp: newest_first_def)
  then show ?thesis by (metis distinct_card length_map)
qed

lemma openDB_tbl: "openDB exec d = (r, d') \<Longrightarrow> tbl d' = tbl d"
  by (auto simp: openDB_def dest: failure create_schema split: prod.splits sum.splits)

lemma db_insert_cases:
  assumes "db_insert exec e d = (r, d')"
  shows "(r = Inl ErrSQL \<and> tbl d' = tbl d) \<or>
    (\<exists>row. r = Inr () \<and> entry_row e = Inr row \<and> tbl d' = (tbl d)(ID e \<mapsto> row))"
proof -
  obtain row where row: "entry_row e = Inr row" "r_id row = ID e" using entry_row_scan by blast
  with assms show ?thesis
    by (auto simp: db_insert_def dest: failure insert_or_replace split: prod.splits sum.splits)
qed

lemma db_get_cases:
  assumes "db_get exec k d = (r, d')"
  shows "tbl d' = tbl d" "r = Inl ErrSQL \<or>
    r = (case tbl d k of None \<Rightarrow> Inl ErrNotFound | Some row \<Rightarrow> scanEntry row)"
proof -
  obtain x d1 where x: "exec d (SelectById k) = (x, d1)" by fastforce
  show "tbl d' = tbl d"
    using assms x failure [of d "SelectById k"] select_by_id [of d k]
    by (cases x) (auto simp: db_get_def split: sql_result.splits list.splits)
  show "r = Inl ErrSQL \<or> r = (case tbl d k of None \<Rightarrow> Inl ErrNotFound | Some row \<Rightarrow> scanEntry row)"
    using assms x select_by_id [of d k]
    by (cases x) (auto simp: db_get_def split: sql_result.splits list.splits option.splits)
qed

lemma db_list_cases:
  assumes "db_list exec limit before d = (r, d')"
  shows "tbl d' = tbl d" "\<And>es. r = Inr es \<Longrightarrow>
    \<exists>rs. newest_first {row \<in> ran (tbl d). IsZero before \<or> r_started_at row < UnixMilli before} rs \<and>
      map scanEntry (sql_limit limit rs) = map Inr es"
proof -
  let ?q = "if \<not> IsZero before then SelectOlder (UnixMilli before) limit else SelectNewest limit"
  obtain x d1 where x: "exec d ?q = (x, d1)" by fastforce
  show "tbl d' = tbl d"
    using assms x failure [of d ?q] select_older [of d _ limit] select_newest [of d limit]
    by (cases x) (auto simp: db_list_def query_rows_def split: sql_result.splits if_splits)
  show "\<exists>rs. newest_first {row \<in> ran (tbl d). IsZero before \<or> r_started_at row < UnixMilli before} rs \<and>
      map scanEntry (sql_limit limit rs) = map Inr es" if "r = Inr es" for es
    using assms x that select_older [of d "UnixMilli before" limit] select_newest [of d limit]
    by (cases x) (fastforce simp: db_list_def query_rows_def collect_Inr_iff
        split: sql_result.splits if_splits)+
qed

lemma delete_victims_ok:
  "delete_victims exec vs d = (Inr (), d') \<Longrightarrow> tbl d' = (tbl d) |` (- set vs)"
proof (induction vs arbitrary: d)
  case (Cons v vs)
  then obtain x d1 where "exec d (DeleteById v) = (Inr x, d1)" "delete_victims exec vs d1 = (Inr (), d')"
    by (auto split: prod.splits sum.splits)
  with Cons.IH delete_by_id show ?case by (fastforce simp: restrict_map_def fun_eq_iff)
qed (simp add: restrict_map_def)

lemma delete_victims_any:
  "delete_victims exec vs d = (r, d') \<Longrightarrow> tbl d' \<subseteq>\<^sub>m tbl d"
proof (induction vs arbitrary: d)
  case (Cons v vs)
  obtain x d1 where x: "exec d (DeleteById v) = (x, d1)" by fastforce
  have "tbl d1 \<subseteq>\<^sub>m tbl d"
    using x failure [of d "DeleteById v"] delete_by_id [of d v]
    by (cases x) (auto simp: map_le_def)
  with Cons x show ?case by (cases x) (auto intro: map_le_trans)
qed (simp add: map_le_refl)

text \<open>Retention keeps the newest \<open>max\<close> rows and reports exactly the ids it deleted.\<close>

lemma applyRetention_ok:
  assumes "applyRetention exec n d = (Inr vs, d')"
  shows "distinct vs" "set vs \<subseteq> dom (tbl d)" "tbl d' = (tbl d) |` (- set vs)"
    "card (dom (tbl d')) = min (nat n) (card (dom (tbl d)))"
    "\<And>k r v w. tbl d' k = Some r \<Longrightarrow> v \<in> set vs \<Longrightarrow> tbl d v = Some w \<Longrightarrow>
       r_started_at w \<le> r_started_at r"
proof -
  obtain d1 where o: "query_ids exec (SelectOverflow n) d = (Inr vs, d1)"
    "delete_victims exec vs d1 = (Inr (), d')"
    using assms by (auto simp: applyRetention_def overflowIDs_def split: prod.splits sum.splits)
  then obtain rs where rs: "newest_first (ran (tbl d)) rs" "vs = map r_id (drop (nat n) rs)" "tbl d1 = tbl d"
    by (auto simp: query_ids_def dest: select_overflow split: prod.splits sum.splits sql_result.splits)
  note dom = newest_first_dom [OF rs(1)]
  have ids: "distinct (map r_id rs)" "sorted_wrt (\<lambda>a b. r_started_at b \<le> r_started_at a) rs"
    using rs(1) by (auto simp: newest_first_def)
  show "distinct vs" using ids(1) by (simp add: rs(2) drop_map [symmetric] distinct_drop)
  have "set vs \<subseteq> set (map r_id rs)" by (auto simp: rs(2) dest: in_set_dropD)
  then show "set vs \<subseteq> dom (tbl d)" using dom by simp
  show t: "tbl d' = (tbl d) |` (- set vs)" using delete_victims_ok [OF o(2)] rs(3) by simp
  have kept: "dom (tbl d') = set (map r_id (take (nat n) rs))"
  proof -
    have "set (map r_id (take (nat n) rs)) \<inter> set vs = {}"
      using set_take_disj_set_drop_if_distinct [OF ids(1), of "nat n" "nat n"]
      by (simp add: rs(2) take_map [symmetric] drop_map [symmetric])
    moreover have "set (map r_id (take (nat n) rs)) \<union> set vs = dom (tbl d)"
      using dom by (metis append_take_drop_id map_append rs(2) set_append)
    ultimately show ?thesis by (auto simp: t)
  qed
  have "distinct (map r_id (take (nat n) rs))" using ids(1) by (simp add: take_map [symmetric])
  with kept dom show "card (dom (tbl d')) = min (nat n) (card (dom (tbl d)))"
    by (metis distinct_card length_map length_take min.commute)
  show "r_started_at w \<le> r_started_at r" if "tbl d' k = Some r" "v \<in> set vs" "tbl d v = Some w" for k r v w
  proof -
    have rk: "tbl d k = Some r" using that(1) t by (simp add: restrict_map_def split: if_splits)
    from that(1) kept obtain a where a: "a \<in> set (take (nat n) rs)" "r_id a = k" by force
    from that(2) obtain b where b: "b \<in> set (drop (nat n) rs)" "r_id b = v" by (auto simp: rs(2))
    have "a \<in> ran (tbl d)" "b \<in> ran (tbl d)"
      using a b rs(1) by (auto simp: newest_first_def dest: in_set_takeD in_set_dropD)
    then have "a = r" "b = w" using a b rk that(3) by (auto simp: ran_id)
    then show ?thesis using sorted_desc_take_drop [OF ids(2) a(1) b(1)] by simp
  qed
qed

lemma applyRetention_any: "applyRetention exec n d = (r, d') \<Longrightarrow> tbl d' \<subseteq>\<^sub>m tbl d"
proof -
  assume a: "applyRetention exec n d = (r, d')"
  obtain v d1 where v: "query_ids exec (SelectOverflow n) d = (v, d1)" by fastforce
  then have "tbl d1 = tbl d"
    by (auto simp: query_ids_def dest: failure select_overflow split: prod.splits sum.splits sql_result.splits)
  with a v show ?thesis
    by (cases v) (auto simp: applyRetention_def overflowIDs_def dest: delete_victims_any
        split: prod.splits sum.splits)
qed

lemma knownIDs_ok:
  assumes "knownIDs exec d = (r, d')"
  shows "tbl d' = tbl d" "r = Inr xs \<Longrightarrow> distinct xs \<and> set xs = dom (tbl d)"
proof -
  obtain x d1 where x: "exec d SelectIds = (x, d1)" by fastforce
  show "tbl d' = tbl d"
    using assms x failure [of d SelectIds] select_ids [of d]
    by (cases x) (auto simp: knownIDs_def query_ids_def split: sql_result.splits)
  show "r = Inr xs \<Longrightarrow> distinct xs \<and> set xs = dom (tbl d)"
    using assms x select_ids [of d]
    by (cases x) (auto simp: knownIDs_def query_ids_def split: sql_result.splits)
qed

lemma db_clear_ok:
  assumes "db_clear exec d = (r, d')"
  shows "r = Inr xs \<Longrightarrow> distinct xs \<and> set xs = dom (tbl d) \<and> tbl d' = Map.empty"
    "r = Inl e \<Longrightarrow> tbl d' = tbl d"
proof -
  obtain v d1 where v: "knownIDs exec d = (v, d1)" by fastforce
  show "r = Inr xs \<Longrightarrow> distinct xs \<and> set xs = dom (tbl d) \<and> tbl d' = Map.empty"
    using assms knownIDs_ok [OF v] v
    by (auto simp: db_clear_def dest: delete_all split: prod.splits sum.splits)
  show "r = Inl e \<Longrightarrow> tbl d' = tbl d"
    using assms knownIDs_ok(1) [OF v] v
    by (auto simp: db_clear_def dest: failure split: prod.splits sum.splits)
qed

end


section \<open>An executable engine\<close>

text \<open>
  The statements' relational semantics on a list of rows: the newest insertion of a key counts,
  and ties are broken by insertion. It satisfies the contract and evaluates concrete runs.
\<close>

definition table_rows :: "row list \<Rightarrow> row list" where
  "table_rows d = map snd (AList.clearjunk (map (\<lambda>r. (r_id r, r)) d))"

definition table_tbl :: "row list \<Rightarrow> bytes \<Rightarrow> row option" where
  "table_tbl d = map_of (map (\<lambda>r. (r_id r, r)) d)"

definition table_sorted :: "row list \<Rightarrow> row list" where
  "table_sorted d = sort_key (\<lambda>r. - r_started_at r) (table_rows d)"

fun table_exec :: "row list engine" where
  "table_exec d CreateSchema = (Inr Done, d)"
| "table_exec d (InsertOrReplace r) = (Inr Done, r # filter (\<lambda>x. r_id x \<noteq> r_id r) d)"
| "table_exec d SelectIds = (Inr (Ids (map r_id (table_rows d))), d)"
| "table_exec d (SelectById k) = (Inr (Rows (filter (\<lambda>r. r_id r = k) (table_rows d))), d)"
| "table_exec d (SelectNewest n) = (Inr (Rows (sql_limit n (table_sorted d))), d)"
| "table_exec d (SelectOlder ms n) =
     (Inr (Rows (sql_limit n (filter (\<lambda>r. r_started_at r < ms) (table_sorted d)))), d)"
| "table_exec d (SelectOverflow n) = (Inr (Ids (map r_id (drop (nat n) (table_sorted d)))), d)"
| "table_exec d (DeleteById k) = (Inr Done, filter (\<lambda>x. r_id x \<noteq> k) d)"
| "table_exec d DeleteAll = (Inr Done, [])"

lemma table_tbl_id: "table_tbl d k = Some r \<Longrightarrow> r_id r = k"
  by (auto simp: table_tbl_def dest!: map_of_SomeD)

lemma table_rows_set: "set (table_rows d) = ran (table_tbl d)"
  by (simp add: table_rows_def table_tbl_def AList.ran_map_of)

lemma table_ids_set: "set (map r_id (table_rows d)) = dom (table_tbl d)"
proof (intro set_eqI iffI)
  fix k assume "k \<in> dom (table_tbl d)"
  then obtain r where "table_tbl d k = Some r" by blast
  moreover from this have "r_id r = k" by (rule table_tbl_id)
  ultimately show "k \<in> set (map r_id (table_rows d))"
    by (auto simp: table_rows_set intro: ranI)
qed (auto simp: table_rows_set ran_def dest: table_tbl_id)

lemma table_rows_distinct: "distinct (map r_id (table_rows d))"
proof -
  let ?al = "map (\<lambda>r. (r_id r, r)) d"
  have "\<forall>p \<in> set (AList.clearjunk ?al). r_id (snd p) = fst p"
    by (auto simp: AList.graph_map_of [symmetric] Map.graph_def dest!: map_of_SomeD)
  then have "map r_id (table_rows d) = map fst (AList.clearjunk ?al)"
    by (simp add: table_rows_def)
  then show ?thesis by simp
qed

lemma table_sorted_newest: "newest_first (ran (table_tbl d)) (table_sorted d)"
proof -
  let ?s = "table_sorted d"
  have "mset (map r_id ?s) = mset (map r_id (table_rows d))" by (simp add: table_sorted_def)
  then have "distinct (map r_id ?s)"
    using table_rows_distinct mset_eq_imp_distinct_iff by blast
  moreover have "sorted (map (\<lambda>r. - r_started_at r) ?s)"
    unfolding table_sorted_def by (rule sorted_sort_key)
  then have "sorted_wrt (\<lambda>a b. r_started_at b \<le> r_started_at a) ?s"
    by (simp add: sorted_wrt_map)
  ultimately show ?thesis
    by (simp add: newest_first_def) (simp add: table_sorted_def table_rows_set)
qed

lemma newest_first_filter:
  "newest_first R rs \<Longrightarrow> newest_first {r \<in> R. P r} (filter P rs)"
  by (auto simp: newest_first_def sorted_wrt_filter distinct_map_filter)

lemma table_tbl_update:
  "table_tbl (filter (\<lambda>x. r_id x \<noteq> k) d) = (table_tbl d)(k := None)"
  by (induction d) (auto simp: table_tbl_def fun_eq_iff)

lemma table_select_by_id:
  "filter (\<lambda>r. r_id r = k) (table_rows d) = (case table_tbl d k of None \<Rightarrow> [] | Some r \<Rightarrow> [r])"
proof -
  have one: "filter (\<lambda>r. r_id r = k) rs = (case map_of (map (\<lambda>r. (r_id r, r)) rs) k of None \<Rightarrow> [] | Some r \<Rightarrow> [r])"
    if "distinct (map r_id rs)" for rs :: "row list"
    using that
  proof (induction rs)
    case (Cons r rs)
    then show ?case
      by (auto simp: filter_empty_conv map_of_eq_None_iff [THEN iffD2] image_image)
  qed simp
  have "map (\<lambda>r. (r_id r, r)) (table_rows d) = AList.clearjunk (map (\<lambda>r. (r_id r, r)) d)"
  proof -
    have "\<forall>p \<in> set (AList.clearjunk (map (\<lambda>r. (r_id r, r)) d)). (r_id (snd p), snd p) = p"
      by (auto simp: AList.graph_map_of [symmetric] Map.graph_def dest!: map_of_SomeD)
    then show ?thesis by (simp add: table_rows_def map_idI)
  qed
  then show ?thesis using one [OF table_rows_distinct]
    by (simp add: AList.map_of_clearjunk table_tbl_def)
qed

interpretation table: sql_engine table_exec table_tbl
proof unfold_locales
  fix d :: "row list" and d' u x k n ms r and q :: sql
  show "finite (dom (table_tbl d))" by (simp add: table_tbl_def finite_dom_map_of)
  show "table_tbl d k = Some r \<Longrightarrow> r_id r = k" by (rule table_tbl_id)
  show "table_exec d q = (Inl u, d') \<Longrightarrow> table_tbl d' = table_tbl d" by (cases q) auto
  show "table_exec d (InsertOrReplace r) = (Inr x, d') \<Longrightarrow> table_tbl d' = (table_tbl d)(r_id r \<mapsto> r)"
    using table_tbl_update [of "r_id r" d] by (auto simp: table_tbl_def)
  show "table_exec d SelectIds = (Inr x, d') \<Longrightarrow>
      table_tbl d' = table_tbl d \<and> (\<exists>xs. x = Ids xs \<and> distinct xs \<and> set xs = dom (table_tbl d))"
    using table_rows_distinct [of d] table_ids_set [of d] by auto
  show "table_exec d (SelectOlder ms n) = (Inr x, d') \<Longrightarrow> table_tbl d' = table_tbl d \<and>
      (\<exists>rs. newest_first {r \<in> ran (table_tbl d). r_started_at r < ms} rs \<and> x = Rows (sql_limit n rs))"
    using newest_first_filter [OF table_sorted_newest [of d], of "\<lambda>r. r_started_at r < ms"] by auto
  show "table_exec d (DeleteById k) = (Inr x, d') \<Longrightarrow> table_tbl d' = (table_tbl d)(k := None)"
    by (auto simp: table_tbl_update)
qed (auto simp: table_select_by_id table_tbl_def [of "[]"] intro: table_sorted_newest)


section \<open>Properties\<close>

text \<open>
  C28. What is written to the history is what comes back: writing an entry never fails for the
  entry's own sake, and after a successful insert a successful read of its id returns the entry,
  with its times cut to the millisecond, without inline bytes for a body that lives on disk, and
  with its headers unchanged up to the order of their keys where they are well-formed UTF-8.
  The other rows are untouched.
\<close>

theorem history_round_trip:
  assumes "sql_engine exec tbl"
    and "db_insert exec e d = (Inr (), d1)"
    and "db_get exec (ID e) d1 = (Inr e', d2)"
  shows "e' = stored e \<and> tbl d2 = tbl d1 \<and> (\<forall>k. k \<noteq> ID e \<longrightarrow> tbl d1 k = tbl d k) \<and>
    (valid_header (RequestHeaders e) \<longrightarrow> RequestHeaders e' = sort_key fst (RequestHeaders e)) \<and>
    (valid_header (ResponseHeaders e) \<longrightarrow> ResponseHeaders e' = sort_key fst (ResponseHeaders e))"
proof -
  obtain row where row: "entry_row e = Inr row" "tbl d1 = (tbl d)(ID e \<mapsto> row)"
    using sql_engine.db_insert_cases [OF assms(1,2)] by auto
  have "scanEntry row = Inr (stored e)" using entry_row_scan [of e] row(1) by auto
  then have "e' = stored e"
    using sql_engine.db_get_cases(2) [OF assms(1,3)] row(2) by auto
  then show ?thesis
    using sql_engine.db_get_cases(1) [OF assms(1,3)] row(2)
    by (simp add: stored_def canon_header_valid)
qed

lemma history_round_trip_witness:
  "\<exists>d2. db_get table_exec ''1f'' (snd (db_insert table_exec (zero_entry\<lparr>ID := ''1f'', StatusCode := 200\<rparr>) []))
     = (Inr (stored (zero_entry\<lparr>ID := ''1f'', StatusCode := 200\<rparr>)), d2)"
proof -
  let ?e = "zero_entry\<lparr>ID := ''1f'', StatusCode := 200\<rparr>"
  obtain row where row: "entry_row ?e = Inr row" "scanEntry row = Inr (stored ?e)" "r_id row = ''1f''"
    using entry_row_scan [of ?e] by auto
  have i: "db_insert table_exec ?e [] = (Inr (), [row])" using row(1) by (simp add: db_insert_def)
  have "\<exists>e' d2. db_get table_exec (ID ?e) [row] = (Inr e', d2)"
    using row(2,3) by (simp add: db_get_def table_rows_def)
  then obtain e' d2 where g: "db_get table_exec (ID ?e) [row] = (Inr e', d2)" by blast
  from history_round_trip [OF table.sql_engine_axioms i g] g i show ?thesis by auto
qed

end
