(* ===== verification/Store.thy ===== *)
theory Store
  imports Events Memory Sqlite
begin

text \<open>
  \<open>internal/store/store.go\<close>: the store, which arbitrates between the entries in flight in
  memory and the history in the database, spills bodies to files and publishes events.

  A store is its memory, the database, the blob directory's configuration, the file system, the
  broker and the retention cap. Each operation takes the engine \<open>exec\<close>, the outcome \<open>env\<close> of
  the operating-system calls it makes, and the clock \<open>now\<close> (one reading per operation).
\<close>

record 'db store =
  mem :: memStore
  db :: 'db
  blobs :: blobStore
  files :: fs
  events :: broker
  maxEntries :: int

record options =
  DataDir :: bytes
  MaxInlineBodySize :: int
  MaxEntries :: int

definition New :: "'db engine \<Rightarrow> os_env \<Rightarrow> options \<Rightarrow> fs \<Rightarrow> 'db \<Rightarrow> go_error + 'db store" where
  "New exec env opts fs d =
     (if DataDir opts = [] then Inl ErrDataDir
      else let maxi = (if MaxInlineBodySize opts \<le> 0 then 1048576 else MaxInlineBodySize opts);
               maxe = (if MaxEntries opts \<le> 0 then 1000 else MaxEntries opts)
      in if \<not> mkdir_ok env then Inl (ErrOS ''mkdir'')
      else case newBlobStore env (path_join (DataDir opts) ''blobs'') maxi of
        Inl e \<Rightarrow> Inl e
      | Inr bs \<Rightarrow> (case openDB exec d of
          (Inl e, d1) \<Rightarrow> Inl e
        | (Inr _, d1) \<Rightarrow> (case knownIDs exec d1 of (known, d2) \<Rightarrow>
            (case removeOrphans bs env known fs of
               (Inl e, fs') \<Rightarrow> Inl e
             | (Inr _, fs') \<Rightarrow>
                 Inr \<lparr>mem = newMemStore, db = d2, blobs = bs, files = fs', events = NewBroker,
                      maxEntries = maxe\<rparr>))))"

definition Close :: "'db store \<Rightarrow> 'db store" where
  "Close s = s\<lparr>events := Close_broker (events s)\<rparr>"

text \<open>\<open>newID\<close>: the hexadecimal form of eight random bytes, \<open>None\<close> when reading them fails.\<close>

definition newID :: "bytes option \<Rightarrow> go_error + bytes" where
  "newID rnd =
     (case rnd of
        None \<Rightarrow> Inl ErrRand
      | Some b \<Rightarrow> Inr (concat (map (\<lambda>c. [hex_char (byte c div 16), hex_char (byte c mod 16)]) b)))"

definition publish :: "event_type \<Rightarrow> bytes \<Rightarrow> entry option \<Rightarrow> bytes \<Rightarrow> 'db store \<Rightarrow> 'db store" where
  "publish ty eid e chunk s =
     s\<lparr>events := Publish \<lparr>ev_Type = ty, ev_ID = eid, ev_Entry = e, ev_Chunk = chunk\<rparr> (events s)\<rparr>"

text \<open>The id and the defaults \<open>Put\<close> fills in.\<close>

definition put_id :: "bytes option \<Rightarrow> entry \<Rightarrow> go_error + bytes" where
  "put_id rnd e = (if ID e = [] then newID rnd else Inr (ID e))"

definition with_defaults :: "gotime \<Rightarrow> bytes \<Rightarrow> entry \<Rightarrow> entry" where
  "with_defaults now eid e =
     (let e1 = e\<lparr>ID := eid\<rparr>;
          e2 = (if IsZero (StartedAt e1) then e1\<lparr>StartedAt := now\<rparr> else e1)
      in (if Status e2 = [] then e2\<lparr>Status := StatusPending\<rparr> else e2))"

definition Put :: "gotime \<Rightarrow> bytes option \<Rightarrow> entry \<Rightarrow> 'db store \<Rightarrow> (go_error + bytes) \<times> 'db store" where
  "Put now rnd e s =
     (case put_id rnd e of
        Inl er \<Rightarrow> (Inl er, s)
      | Inr eid \<Rightarrow>
        (let (live, m) = mem_put now (with_defaults now eid e) (mem s)
         in (Inr eid, publish EventCreated eid (Some (snapshot live)) [] (s\<lparr>mem := m\<rparr>))))"

definition SetRequestBody :: "os_env \<Rightarrow> bytes \<Rightarrow> bytes \<Rightarrow> 'db store \<Rightarrow> (go_error + unit) \<times> 'db store" where
  "SetRequestBody env eid body s =
     (case mem_get eid (mem s) of
        None \<Rightarrow> (Inl ErrNotFound, s)
      | Some live \<Rightarrow>
        (let (r, b, fs') = buf_Write (blobs s) env body (req live) (files s);
             s' = s\<lparr>mem := mem_set eid (live\<lparr>req := b\<rparr>) (mem s), files := fs'\<rparr>
         in case r of Inl e \<Rightarrow> (Inl e, s') | Inr _ \<Rightarrow> (Inr (), s')))"

definition AppendResponse ::
  "os_env \<Rightarrow> gotime \<Rightarrow> bytes \<Rightarrow> bytes \<Rightarrow> bool \<Rightarrow> 'db store \<Rightarrow> (go_error + unit) \<times> 'db store" where
  "AppendResponse env now eid chunk emitDelta s =
     (case mem_get eid (mem s) of
        None \<Rightarrow> (Inl ErrNotFound, s)
      | Some live \<Rightarrow>
        (let (r, b, fs') = buf_Write (blobs s) env chunk (resp live) (files s);
             live1 = live\<lparr>resp := b\<rparr>
         in case r of
              Inl e \<Rightarrow> (Inl e, s\<lparr>mem := mem_set eid live1 (mem s), files := fs'\<rparr>)
            | Inr _ \<Rightarrow>
              (let s' = s\<lparr>mem := mem_set eid (touch now live1) (mem s), files := fs'\<rparr>
               in (Inr (), if emitDelta \<and> length chunk > 0 then publish EventDelta eid None chunk s' else s'))))"

definition Update :: "gotime \<Rightarrow> bytes \<Rightarrow> (entry \<Rightarrow> entry) \<Rightarrow> 'db store \<Rightarrow> (go_error + unit) \<times> 'db store" where
  "Update now eid fn s =
     (case mem_get eid (mem s) of
        None \<Rightarrow> (Inl ErrNotFound, s)
      | Some live \<Rightarrow>
        (let live' = live_update now fn live
         in (Inr (), publish EventUpdated eid (Some (snapshot live'))
               [] (s\<lparr>mem := mem_set eid live' (mem s)\<rparr>))))"

text \<open>The function \<open>Finalize\<close> passes to \<open>live.update\<close>.\<close>

definition finalize_entry :: "gotime \<Rightarrow> (entry \<Rightarrow> entry) option \<Rightarrow> entry \<Rightarrow> entry" where
  "finalize_entry now fn e =
     (let e1 = (case fn of None \<Rightarrow> e | Some f \<Rightarrow> f e);
          e2 = (if Status e1 = StatusPending then e1\<lparr>Status := StatusDone\<rparr> else e1);
          fin = (case FinishedAt e2 of None \<Rightarrow> now | Some t \<Rightarrow> t);
          e3 = e2\<lparr>FinishedAt := Some fin\<rparr>
      in (if TotalMs e3 = None
          then e3\<lparr>TotalMs := Some (Milliseconds (Sub fin (StartedAt e3)))\<rparr> else e3))"

definition purge :: "os_env \<Rightarrow> bytes \<Rightarrow> 'db store \<Rightarrow> 'db store" where
  "purge env eid s =
     publish EventDeleted eid None [] (s\<lparr>files := removeFor (blobs s) env eid (files s)\<rparr>)"

definition close_bodies :: "liveEntry \<Rightarrow> liveEntry" where
  "close_bodies l = l\<lparr>req := buf_Close (req l), resp := buf_Close (resp l)\<rparr>"

definition Finalize ::
  "'db engine \<Rightarrow> os_env \<Rightarrow> gotime \<Rightarrow> bytes \<Rightarrow> (entry \<Rightarrow> entry) option \<Rightarrow> 'db store
     \<Rightarrow> (go_error + unit) \<times> 'db store" where
  "Finalize exec env now eid fn s =
     (case mem_get eid (mem s) of
        None \<Rightarrow> (Inl ErrNotFound, s)
      | Some live \<Rightarrow>
        (let live' = close_bodies (live_update now (finalize_entry now fn) live);
             s1 = s\<lparr>mem := mem_set eid live' (mem s)\<rparr>;
             e = snapshot live'
         in case db_insert exec e (db s1) of
              (Inl er, d1) \<Rightarrow> (Inl er, s1\<lparr>db := d1\<rparr>)
            | (Inr _, d1) \<Rightarrow>
              (let s2 = publish EventUpdated eid (Some e) [] (s1\<lparr>db := d1, mem := mem_delete eid (mem s1)\<rparr>)
               in case applyRetention exec (maxEntries s2) (db s2) of
                    (Inl er, d2) \<Rightarrow> (Inl er, s2\<lparr>db := d2\<rparr>)
                  | (Inr purged, d2) \<Rightarrow> (Inr (), fold (purge env) purged (s2\<lparr>db := d2\<rparr>)))))"

definition Get :: "'db engine \<Rightarrow> bytes \<Rightarrow> 'db store \<Rightarrow> (go_error + entry) \<times> 'db store" where
  "Get exec eid s =
     (case mem_get eid (mem s) of
        Some live \<Rightarrow> (Inr (snapshot live), s)
      | None \<Rightarrow> (let (r, d) = db_get exec eid (db s) in (r, s\<lparr>db := d\<rparr>)))"

definition sort_newest :: "entry list \<Rightarrow> entry list" where
  "sort_newest es = sort_key (\<lambda>e. - nanos (StartedAt e)) es"

definition List :: "'db engine \<Rightarrow> int \<Rightarrow> gotime \<Rightarrow> 'db store \<Rightarrow> (go_error + entry list) \<times> 'db store" where
  "List exec limit0 before s =
     (let limit = (if limit0 \<le> 0 then 100 else limit0)
      in case db_list exec limit before (db s) of
           (Inl e, d) \<Rightarrow> (Inl e, s\<lparr>db := d\<rparr>)
         | (Inr rows, d) \<Rightarrow>
           (let merged = sort_newest (mem_list before (mem s) @ rows)
            in (Inr (if int (length merged) > limit then take (nat limit) merged else merged),
                s\<lparr>db := d\<rparr>)))"

text \<open>The reader \<open>Body\<close> returns, as the bytes it yields, and the size.\<close>

definition Body ::
  "'db engine \<Rightarrow> os_env \<Rightarrow> bytes \<Rightarrow> side \<Rightarrow> 'db store \<Rightarrow> (go_error + bytes \<times> int) \<times> 'db store" where
  "Body exec env eid sd s =
     (case Get exec eid s of
        (Inl e, s') \<Rightarrow> (Inl e, s')
      | (Inr e, s') \<Rightarrow>
        (let (pth, inline, sz) =
               (if sd = SideRequest then (RequestBodyPath e, RequestBody e, RequestBodySize e)
                else (ResponseBodyPath e, ResponseBody e, ResponseBodySize e))
         in if pth \<noteq> [] then
              (case os_Open env pth (files s') of
                 Inl er \<Rightarrow> (Inl er, s')
               | Inr c \<Rightarrow> (Inr (c, sz), s'))
            else (Inr (inline, sz), s')))"

definition Clear :: "'db engine \<Rightarrow> os_env \<Rightarrow> 'db store \<Rightarrow> (go_error + unit) \<times> 'db store" where
  "Clear exec env s =
     (case db_clear exec (db s) of
        (Inl e, d) \<Rightarrow> (Inl e, s\<lparr>db := d\<rparr>)
      | (Inr ids, d) \<Rightarrow>
        (case removeAll_blobs (blobs s) env (files s) of
           (Inl e, fs') \<Rightarrow> (Inl e, s\<lparr>db := d, files := fs'\<rparr>)
         | (Inr _, fs') \<Rightarrow>
           (Inr (), fold (\<lambda>eid. publish EventDeleted eid None []) ids (s\<lparr>db := d, files := fs'\<rparr>))))"

definition timed_out :: "int \<Rightarrow> entry \<Rightarrow> entry" where
  "timed_out timeout e =
     (let e1 = e\<lparr>Status := StatusError\<rparr>
      in if Error e1 = [] then e1\<lparr>Error := ''no response after '' @ Duration_String timeout\<rparr> else e1)"

definition SweepPending ::
  "'db engine \<Rightarrow> os_env \<Rightarrow> gotime \<Rightarrow> int \<Rightarrow> 'db store \<Rightarrow> nat \<times> 'db store" where
  "SweepPending exec env now timeout s =
     (let stale = staleIDs now timeout (mem s)
      in (length stale,
          fold (\<lambda>eid s. snd (Finalize exec env now eid (Some (timed_out timeout)) s)) stale s))"

end
