(* ===== verification/Store_Inv.thy ===== *)
theory Store_Inv
  imports Store
begin

text \<open>
  The store's operations as the steps of one machine, and its invariant: what holds of the
  memory, the buffers, the files, the history and the broker in every state the operations
  reach, whichever calls of the operating system and statements of the engine fail.
\<close>

section \<open>Publications\<close>

lemma publish_simps [simp]:
  "mem (publish ty i e c s) = mem s" "db (publish ty i e c s) = db s"
  "blobs (publish ty i e c s) = blobs s" "files (publish ty i e c s) = files s"
  "maxEntries (publish ty i e c s) = maxEntries s"
  "events (publish ty i e c s) = Publish \<lparr>ev_Type = ty, ev_ID = i, ev_Entry = e, ev_Chunk = c\<rparr> (events s)"
  by (simp_all add: publish_def)

abbreviation deleted :: "bytes \<Rightarrow> event" where
  "deleted i \<equiv> \<lparr>ev_Type = EventDeleted, ev_ID = i, ev_Entry = None, ev_Chunk = []\<rparr>"

lemma fold_purge [simp]:
  "mem (fold (purge env) ids s) = mem s" "db (fold (purge env) ids s) = db s"
  "blobs (fold (purge env) ids s) = blobs s" "maxEntries (fold (purge env) ids s) = maxEntries s"
  "files (fold (purge env) ids s) = fold (removeFor (blobs s) env) ids (files s)"
  "events (fold (purge env) ids s) = fold Publish (map deleted ids) (events s)"
  by (induction ids arbitrary: s) (simp_all add: purge_def)

lemma fold_publish_deleted [simp]:
  "mem (fold (\<lambda>i. publish EventDeleted i None []) ids s) = mem s"
  "db (fold (\<lambda>i. publish EventDeleted i None []) ids s) = db s"
  "blobs (fold (\<lambda>i. publish EventDeleted i None []) ids s) = blobs s"
  "files (fold (\<lambda>i. publish EventDeleted i None []) ids s) = files s"
  "maxEntries (fold (\<lambda>i. publish EventDeleted i None []) ids s) = maxEntries s"
  "events (fold (\<lambda>i. publish EventDeleted i None []) ids s) = fold Publish (map deleted ids) (events s)"
  by (induction ids arbitrary: s) simp_all

section \<open>Retention and the other entries' files\<close>

lemma sides_no_dash [simp]: "CHR ''-'' \<notin> set SideRequest" "CHR ''-'' \<notin> set SideResponse"
  by (simp_all add: side_defs)

lemma fold_removeFor_spec:
  assumes "fs_ok fs"
  shows "fs_ok (fold (removeFor bs env) ids fs)"
    "inodes (fold (removeFor bs env) ids fs) = inodes fs"
    "owns fs q h \<Longrightarrow> owns (fold (removeFor bs env) ids fs) q h"
    "i \<notin> set ids \<Longrightarrow> sd \<in> {SideRequest, SideResponse} \<Longrightarrow>
       map_of (dir (fold (removeFor bs env) ids fs)) (blob_path bs i sd) = map_of (dir fs) (blob_path bs i sd)"
proof -
  have "fs_ok (fold (removeFor bs env) ids fs) \<and>
    inodes (fold (removeFor bs env) ids fs) = inodes fs \<and>
    (owns fs q h \<longrightarrow> owns (fold (removeFor bs env) ids fs) q h) \<and>
    (i \<notin> set ids \<longrightarrow> sd \<in> {SideRequest, SideResponse} \<longrightarrow>
       map_of (dir (fold (removeFor bs env) ids fs)) (blob_path bs i sd) = map_of (dir fs) (blob_path bs i sd))"
    using assms
  proof (induction ids arbitrary: fs)
    case (Cons j ids)
    note R = removeFor_spec [OF Cons.prems, where bs = bs and env = env and eid = j]
    have "i \<noteq> j \<Longrightarrow> sd \<in> {SideRequest, SideResponse} \<Longrightarrow>
        blob_path bs i sd \<notin> {blob_path bs j SideRequest, blob_path bs j SideResponse}"
      by (auto simp: blob_path_inj)
    with Cons.IH [OF R(1)] R show ?case by auto
  qed simp
  then show "fs_ok (fold (removeFor bs env) ids fs)"
    "inodes (fold (removeFor bs env) ids fs) = inodes fs"
    "owns fs q h \<Longrightarrow> owns (fold (removeFor bs env) ids fs) q h"
    "i \<notin> set ids \<Longrightarrow> sd \<in> {SideRequest, SideResponse} \<Longrightarrow>
       map_of (dir (fold (removeFor bs env) ids fs)) (blob_path bs i sd) = map_of (dir fs) (blob_path bs i sd)"
    by blast+
qed

section \<open>The operations as steps\<close>

datatype op =
    OpPut gotime "bytes option" entry
  | OpSetRequestBody os_env bytes bytes
  | OpAppend os_env gotime bytes bytes bool
  | OpUpdate gotime bytes "entry \<Rightarrow> entry"
  | OpFinalize os_env gotime bytes "(entry \<Rightarrow> entry) option"
  | OpSweep os_env gotime int
  | OpGet bytes
  | OpList int gotime
  | OpBody os_env bytes side
  | OpClear os_env
  | OpClose

text \<open>Whether the call returned without an error, and the store after it.\<close>

fun do_op :: "'db engine \<Rightarrow> op \<Rightarrow> 'db store \<Rightarrow> bool \<times> 'db store" where
  "do_op exec (OpPut now rnd e) s = map_prod is_ok id (Put now rnd e s)"
| "do_op exec (OpSetRequestBody env i body) s = map_prod is_ok id (SetRequestBody env i body s)"
| "do_op exec (OpAppend env now i c d) s = map_prod is_ok id (AppendResponse env now i c d s)"
| "do_op exec (OpUpdate now i fn) s = map_prod is_ok id (Update now i fn s)"
| "do_op exec (OpFinalize env now i fn) s = map_prod is_ok id (Finalize exec env now i fn s)"
| "do_op exec (OpSweep env now t) s = (True, snd (SweepPending exec env now t s))"
| "do_op exec (OpGet i) s = map_prod is_ok id (Get exec i s)"
| "do_op exec (OpList n before) s = map_prod is_ok id (List exec n before s)"
| "do_op exec (OpBody env i sd) s = map_prod is_ok id (Body exec env i sd s)"
| "do_op exec (OpClear env) s = map_prod is_ok id (Clear exec env s)"
| "do_op exec OpClose s = (True, Close s)"

text \<open>
  What the callers guarantee: a new entry's id is not in use, and the functions passed to
  \<open>Update\<close> and \<open>Finalize\<close> do not change an entry's id.
\<close>

definition keeps_id :: "(entry \<Rightarrow> entry) \<Rightarrow> bool" where
  "keeps_id fn \<longleftrightarrow> (\<forall>e. ID (fn e) = ID e)"

definition unused :: "('db \<Rightarrow> bytes \<Rightarrow> row option) \<Rightarrow> bytes \<Rightarrow> 'db store \<Rightarrow> bool" where
  "unused tbl i s \<longleftrightarrow> i \<noteq> [] \<and> mem_get i (mem s) = None \<and> tbl (db s) i = None"

fun admissible :: "('db \<Rightarrow> bytes \<Rightarrow> row option) \<Rightarrow> op \<Rightarrow> 'db store \<Rightarrow> bool" where
  "admissible tbl (OpPut now rnd e) s = (\<forall>i. put_id rnd e = Inr i \<longrightarrow> unused tbl i s)"
| "admissible tbl (OpUpdate now i fn) s = keeps_id fn"
| "admissible tbl (OpFinalize env now i fn) s = (\<forall>f. fn = Some f \<longrightarrow> keeps_id f)"
| "admissible tbl _ s = True"

text \<open>A step is a call, or an operation of a subscriber on the broker.\<close>

inductive store_step ::
  "'db engine \<Rightarrow> ('db \<Rightarrow> bytes \<Rightarrow> row option) \<Rightarrow> 'db store \<Rightarrow> 'db store \<Rightarrow> bool" for exec tbl where
  call: "admissible tbl op s \<Longrightarrow> store_step exec tbl s (snd (do_op exec op s))"
| subscriber: "broker_step (events s) b \<Longrightarrow> store_step exec tbl s (s\<lparr>events := b\<rparr>)"

text \<open>The states reached from a freshly opened store.\<close>

inductive store_reachable ::
  "'db engine \<Rightarrow> ('db \<Rightarrow> bytes \<Rightarrow> row option) \<Rightarrow> 'db \<Rightarrow> 'db store \<Rightarrow> bool" for exec tbl d0 where
  opened: "New exec env opts fs d0 = Inr s \<Longrightarrow> fs_ok fs \<Longrightarrow> store_reachable exec tbl d0 s"
| stepped: "store_reachable exec tbl d0 s \<Longrightarrow> store_step exec tbl s s' \<Longrightarrow> store_reachable exec tbl d0 s'"

section \<open>The invariant\<close>

definition live_inv :: "blobStore \<Rightarrow> fs \<Rightarrow> bytes \<Rightarrow> liveEntry \<Rightarrow> bool" where
  "live_inv bs fs k l \<longleftrightarrow> k \<noteq> [] \<and> ID (l_entry l) = k \<and>
     buf_id (req l) = k \<and> buf_side (req l) = SideRequest \<and>
     buf_id (resp l) = k \<and> buf_side (resp l) = SideResponse \<and>
     (\<exists>c. buf_inv bs fs c (req l)) \<and> (\<exists>c. buf_inv bs fs c (resp l))"

definition store_inv :: "('db \<Rightarrow> bytes \<Rightarrow> row option) \<Rightarrow> 'db store \<Rightarrow> bool" where
  "store_inv tbl s \<longleftrightarrow> mem_ok (mem s) \<and> fs_ok (files s) \<and> broker_ok (events s) \<and>
     0 < maxInline (blobs s) \<and> 0 < maxEntries s \<and>
     (\<forall>k l. mem_get k (mem s) = Some l \<longrightarrow>
        live_inv (blobs s) (files s) k l \<and> tbl (db s) k = None) \<and>
     (\<forall>k r. tbl (db s) k = Some r \<longrightarrow> is_ok (scanEntry r))"

lemma store_invD:
  assumes "store_inv tbl s"
  shows "mem_ok (mem s)" "fs_ok (files s)" "broker_ok (events s)" "0 < maxInline (blobs s)"
    "0 < maxEntries s"
    "mem_get k (mem s) = Some l \<Longrightarrow> live_inv (blobs s) (files s) k l"
    "mem_get k (mem s) = Some l \<Longrightarrow> tbl (db s) k = None"
    "tbl (db s) k = Some r \<Longrightarrow> is_ok (scanEntry r)"
  using assms by (auto simp: store_inv_def)

text \<open>A buffer's own path.\<close>

lemma buf_inv_path:
  "buf_inv bs fs c b \<Longrightarrow> path b \<noteq> [] \<Longrightarrow> path b = spill_path bs b"
  by (simp add: buf_inv_def)

lemma live_inv_frame:
  assumes "live_inv bs fs k l"
    and "\<And>q h. owns fs q h \<Longrightarrow> q \<noteq> [] \<Longrightarrow> q \<in> {blob_path bs k SideRequest, blob_path bs k SideResponse} \<Longrightarrow>
      owns fs' q h"
  shows "live_inv bs fs' k l"
proof -
  have fr: "buf_inv bs fs' c b"
    if i: "buf_inv bs fs c b" and "spill_path bs b \<in> {blob_path bs k SideRequest, blob_path bs k SideResponse}"
    for c b
  proof (cases "path b = []")
    case True
    with i show ?thesis by (simp add: buf_inv_def)
  next
    case False
    with i have "path b = spill_path bs b" by (simp add: buf_inv_def)
    with that assms(2) False show ?thesis by (metis buf_inv_frame)
  qed
  from assms(1) obtain c d where "buf_inv bs fs c (req l)" "buf_inv bs fs d (resp l)"
    by (auto simp: live_inv_def)
  with assms(1) have "buf_inv bs fs' c (req l)" "buf_inv bs fs' d (resp l)"
    by (auto simp: live_inv_def intro!: fr)
  with assms(1) show ?thesis by (auto simp: live_inv_def)
qed


lemma blob_path_other:
  assumes "k \<noteq> i" "sd \<in> {SideRequest, SideResponse}"
  shows "blob_path bs i sd \<notin> {blob_path bs k SideRequest, blob_path bs k SideResponse}"
  using assms by (auto simp: blob_path_inj)

lemma sides_differ [simp]: "SideRequest \<noteq> SideResponse" "SideResponse \<noteq> SideRequest"
  by (simp_all add: side_defs)

text \<open>A write to one body of one entry keeps every entry well-formed.\<close>

lemma live_inv_write:
  assumes "fs_ok fs" "live_inv bs fs k l"
  shows "buf_Write bs env p (req l) fs = (r, b, fs') \<Longrightarrow> live_inv bs fs' k (l\<lparr>req := b\<rparr>)"
    and "buf_Write bs env p (resp l) fs = (r, b, fs') \<Longrightarrow> live_inv bs fs' k (l\<lparr>resp := b\<rparr>)"
proof -
  obtain c d where I: "buf_inv bs fs c (req l)" "buf_inv bs fs d (resp l)"
    and F: "k \<noteq> []" "ID (l_entry l) = k" "buf_id (req l) = k" "buf_side (req l) = SideRequest"
      "buf_id (resp l) = k" "buf_side (resp l) = SideResponse"
    using assms(2) by (auto simp: live_inv_def)
  have ne: "blob_path bs k SideRequest \<noteq> blob_path bs k SideResponse" by (simp add: blob_path_inj)
  {
    assume w: "buf_Write bs env p (req l) fs = (r, b, fs')"
    note B = buf_Write_frame [OF assms(1) I(1) w]
    have "\<exists>c'. buf_inv bs fs' c' b"
      using buf_Write_inv [OF assms(1) I(1) w] by (cases r) auto
    moreover have "buf_inv bs fs' d (resp l)"
      using I(2) buf_inv_path [OF I(2)] B(5) F ne
      by (cases "path (resp l) = []") (auto simp: buf_inv_def)
    ultimately show "live_inv bs fs' k (l\<lparr>req := b\<rparr>)" using F B(2,3) by (auto simp: live_inv_def)
  next
    assume w: "buf_Write bs env p (resp l) fs = (r, b, fs')"
    note B = buf_Write_frame [OF assms(1) I(2) w]
    have "\<exists>c'. buf_inv bs fs' c' b"
      using buf_Write_inv [OF assms(1) I(2) w] by (cases r) auto
    moreover have "buf_inv bs fs' c (req l)"
      using I(1) buf_inv_path [OF I(1)] B(5) F ne
      by (cases "path (req l) = []") (auto simp: buf_inv_def)
    ultimately show "live_inv bs fs' k (l\<lparr>resp := b\<rparr>)" using F B(2,3) by (auto simp: live_inv_def)
  }
qed

lemma live_inv_write_other:
  assumes "fs_ok fs" "live_inv bs fs i l" "live_inv bs fs k l'" "k \<noteq> i"
    and "buf_Write bs env p (req l) fs = (r, b, fs') \<or> buf_Write bs env p (resp l) fs = (r, b, fs')"
  shows "live_inv bs fs' k l'"
proof (rule live_inv_frame [OF assms(3)])
  fix q h
  assume o: "owns fs q h" "q \<in> {blob_path bs k SideRequest, blob_path bs k SideResponse}"
  have "q \<noteq> blob_path bs i SideRequest" "q \<noteq> blob_path bs i SideResponse"
    using o(2) blob_path_other [OF assms(4)] by auto
  then show "owns fs' q h"
    using assms(1,2,5) o(1) buf_Write_frame(5) by (fastforce simp: live_inv_def)
qed

lemma live_inv_buffers [inv_intros]:
  "0 \<le> maxInline bs \<Longrightarrow> ID e \<noteq> [] \<Longrightarrow>
   live_inv bs fs (ID e) \<lparr>l_entry = e, req = buffer (ID e) SideRequest,
     resp = buffer (ID e) SideResponse, lastSeen = t\<rparr>"
  by (auto simp: live_inv_def intro: buf_inv_buffer) (simp_all add: buffer_def)

lemma live_inv_entry:
  "live_inv bs fs k l \<Longrightarrow> keeps_id fn \<Longrightarrow> live_inv bs fs k (live_update now fn l)"
  "live_inv bs fs k l \<Longrightarrow> live_inv bs fs k (touch now l)"
  "live_inv bs fs k l \<Longrightarrow> live_inv bs fs k (close_bodies l)"
  by (auto simp: live_inv_def live_update_def touch_def keeps_id_def close_bodies_def
      intro: buf_inv_Close)

lemma keeps_id_finalize [simp]:
  "(\<And>f. fn = Some f \<Longrightarrow> keeps_id f) \<Longrightarrow> keeps_id (finalize_entry now fn)"
  by (auto simp: keeps_id_def finalize_entry_def Let_def split: option.splits)

lemma keeps_id_timed_out [simp]: "keeps_id (timed_out t)"
  by (simp add: keeps_id_def timed_out_def Let_def)

section \<open>Every operation keeps the invariant\<close>

lemma store_inv_mem_set:
  assumes "store_inv tbl s" "mem_get k (mem s) = Some l" "live_inv (blobs s) (files s) k l'"
  shows "store_inv tbl (s\<lparr>mem := mem_set k l' (mem s)\<rparr>)"
  using assms by (auto simp: store_inv_def intro: mem_ok_set)

lemma store_inv_publish [inv_intros]:
  "store_inv tbl s \<Longrightarrow> store_inv tbl (publish ty i e c s)"
  by (simp add: store_inv_def broker_ok_Publish)

lemma with_defaults_ID [simp]: "ID (with_defaults now i e) = i"
  by (simp add: with_defaults_def Let_def)

text \<open>The live entry \<open>Put\<close> creates.\<close>

abbreviation new_live :: "gotime \<Rightarrow> bytes \<Rightarrow> entry \<Rightarrow> liveEntry" where
  "new_live now i e \<equiv> \<lparr>l_entry = with_defaults now i e, req = buffer i SideRequest,
     resp = buffer i SideResponse, lastSeen = now\<rparr>"

lemma Put_eq:
  "Put now rnd e s =
     (case put_id rnd e of
        Inl er \<Rightarrow> (Inl er, s)
      | Inr i \<Rightarrow> (Inr i, publish EventCreated i (Some (snapshot (new_live now i e))) []
          (s\<lparr>mem := mem_set i (new_live now i e) (mem s)\<rparr>)))"
  by (simp add: Put_def mem_put_def mem_set_def Let_def split: sum.splits)

lemma store_inv_Put:
  assumes "store_inv tbl s" "admissible tbl (OpPut now rnd e) s" "Put now rnd e s = (r, s')"
  shows "store_inv tbl s'"
proof (cases "put_id rnd e")
  case (Inl er)
  with assms show ?thesis by (simp add: Put_eq)
next
  case (Inr i)
  with assms(2) have u: "unused tbl i s" by simp
  have "live_inv (blobs s) (files s) i (new_live now i e)"
    using live_inv_buffers [of "blobs s" "with_defaults now i e"] assms(1) u
    by (simp add: store_inv_def unused_def)
  then have "store_inv tbl (s\<lparr>mem := mem_set i (new_live now i e) (mem s)\<rparr>)"
    using assms(1) u by (auto simp: store_inv_def unused_def intro: mem_ok_set)
  then show ?thesis using assms(3) Inr by (auto simp: Put_eq store_inv_publish)
qed

text \<open>The part \<open>SetRequestBody\<close> and \<open>AppendResponse\<close> share: a write to one of the buffers.\<close>

lemma store_inv_write:
  assumes "store_inv tbl s" "mem_get i (mem s) = Some l"
    and "buf_Write (blobs s) env p (req l) (files s) = (r, b, fs') \<and> l' = l\<lparr>req := b\<rparr> \<or>
      buf_Write (blobs s) env p (resp l) (files s) = (r, b, fs') \<and> l' = l\<lparr>resp := b\<rparr>"
  shows "store_inv tbl (s\<lparr>mem := mem_set i l' (mem s), files := fs'\<rparr>)"
    and "store_inv tbl (s\<lparr>mem := mem_set i (touch now l') (mem s), files := fs'\<rparr>)"
proof -
  note I = store_invD [OF assms(1)]
  have l: "live_inv (blobs s) (files s) i l" by (rule I(6) [OF assms(2)])
  obtain c d where B: "buf_inv (blobs s) (files s) c (req l)" "buf_inv (blobs s) (files s) d (resp l)"
    using l by (auto simp: live_inv_def)
  have "fs_ok fs'" using assms(3) buf_Write_frame(1) [OF I(2) B(1)] buf_Write_frame(1) [OF I(2) B(2)]
    by blast
  moreover have l': "live_inv (blobs s) fs' i l'" using live_inv_write [OF I(2) l] assms(3) by blast
  moreover have "live_inv (blobs s) fs' k m" if "mem_get k (mem s) = Some m" "k \<noteq> i" for k m
    using live_inv_write_other [OF I(2) l I(6) [OF that(1)] that(2)] assms(3) by blast
  ultimately show "store_inv tbl (s\<lparr>mem := mem_set i l' (mem s), files := fs'\<rparr>)"
    "store_inv tbl (s\<lparr>mem := mem_set i (touch now l') (mem s), files := fs'\<rparr>)"
    using I assms(2) live_inv_entry(2)
    by (auto simp: store_inv_def intro: mem_ok_set)
qed

lemma store_inv_SetRequestBody:
  "store_inv tbl s \<Longrightarrow> SetRequestBody env i body s = (r, s') \<Longrightarrow> store_inv tbl s'"
  by (auto simp: SetRequestBody_def Let_def dest: store_inv_write(1)
      split: option.splits prod.splits sum.splits)

lemma store_inv_AppendResponse:
  "store_inv tbl s \<Longrightarrow> AppendResponse env now i c d s = (r, s') \<Longrightarrow> store_inv tbl s'"
  by (auto simp: AppendResponse_def Let_def intro!: store_inv_publish intro: store_inv_write
      split: option.splits prod.splits sum.splits if_splits)

lemma store_inv_Update:
  "store_inv tbl s \<Longrightarrow> keeps_id fn \<Longrightarrow> Update now i fn s = (r, s') \<Longrightarrow> store_inv tbl s'"
  by (auto simp: Update_def Let_def intro!: store_inv_publish
      intro: store_inv_mem_set live_inv_entry dest: store_invD(6) split: option.splits)


text \<open>\<open>Finalize\<close>, branch by branch.\<close>

abbreviation finalized :: "gotime \<Rightarrow> (entry \<Rightarrow> entry) option \<Rightarrow> liveEntry \<Rightarrow> liveEntry" where
  "finalized now fn l \<equiv> close_bodies (live_update now (finalize_entry now fn) l)"

abbreviation published_final :: "bytes \<Rightarrow> entry \<Rightarrow> 'db \<Rightarrow> 'db store \<Rightarrow> 'db store" where
  "published_final i e d s \<equiv>
     publish EventUpdated i (Some e) [] (s\<lparr>db := d, mem := mem_delete i (mem s)\<rparr>)"

lemma mem_delete_set [simp]: "mem_delete i (mem_set i l m) = mem_delete i m"
  by (simp add: mem_delete_def mem_set_def delete_update_same)

lemma Finalize_cases:
  assumes "Finalize exec env now i fn s = (r, s')"
  obtains (missing) "mem_get i (mem s) = None" "r = Inl ErrNotFound" "s' = s"
  | (insert_failed) l er d1 where "mem_get i (mem s) = Some l"
      "db_insert exec (snapshot (finalized now fn l)) (db s) = (Inl er, d1)" "r = Inl er"
      "s' = s\<lparr>mem := mem_set i (finalized now fn l) (mem s), db := d1\<rparr>"
  | (retention_failed) l d1 er d2 where "mem_get i (mem s) = Some l"
      "db_insert exec (snapshot (finalized now fn l)) (db s) = (Inr (), d1)"
      "applyRetention exec (maxEntries s) d1 = (Inl er, d2)" "r = Inl er"
      "s' = (published_final i (snapshot (finalized now fn l)) d1 s)\<lparr>db := d2\<rparr>"
  | (success) l d1 vs d2 where "mem_get i (mem s) = Some l"
      "db_insert exec (snapshot (finalized now fn l)) (db s) = (Inr (), d1)"
      "applyRetention exec (maxEntries s) d1 = (Inr vs, d2)" "r = Inr ()"
      "s' = fold (purge env) vs ((published_final i (snapshot (finalized now fn l)) d1 s)\<lparr>db := d2\<rparr>)"
proof (cases "mem_get i (mem s)")
  case None
  with assms show thesis by (intro missing) (auto simp: Finalize_def)
next
  case (Some l)
  obtain x d1 where x: "db_insert exec (snapshot (finalized now fn l)) (db s) = (x, d1)" by fastforce
  obtain y d2 where y: "applyRetention exec (maxEntries s) d1 = (y, d2)" by fastforce
  show thesis
  proof (cases x)
    case (Inl er)
    with assms Some x show thesis by (intro insert_failed) (auto simp: Finalize_def Let_def)
  next
    case (Inr u)
    with assms Some x y show thesis
      by (cases y) (auto simp: Finalize_def Let_def intro: retention_failed success)
  qed
qed

lemma finalized_fields [simp]:
  "l_entry (finalized now fn l) = finalize_entry now fn (l_entry l)"
  "req (finalized now fn l) = buf_Close (req l)" "resp (finalized now fn l) = buf_Close (resp l)"
  by (simp_all add: close_bodies_def live_update_def)

text \<open>A database that only lost rows, or a broker after publications.\<close>

lemma store_inv_db:
  "store_inv tbl s \<Longrightarrow> tbl d \<subseteq>\<^sub>m tbl (db s) \<Longrightarrow> store_inv tbl (s\<lparr>db := d\<rparr>)"
  by (fastforce simp: store_inv_def map_le_def dom_def)

lemma store_inv_db_eq:
  "store_inv tbl s \<Longrightarrow> tbl d = tbl (db s) \<Longrightarrow> store_inv tbl (s\<lparr>db := d\<rparr>)"
  by (simp add: store_inv_db)

lemma fold_Publish_ok: "broker_ok b \<Longrightarrow> broker_ok (fold Publish es b)"
  by (rule bus.fold_publish_ok)

text \<open>Removing the files of entries: no handle is lost to another path.\<close>

lemma store_inv_files:
  assumes "store_inv tbl s" "fs_ok fs'" "\<And>q h. owns (files s) q h \<Longrightarrow> owns fs' q h"
  shows "store_inv tbl (s\<lparr>files := fs'\<rparr>)"
proof -
  have "live_inv (blobs s) fs' k l" if "mem_get k (mem s) = Some l" for k l
    using live_inv_frame [OF store_invD(6) [OF assms(1) that]] assms(3) by blast
  then show ?thesis using assms(1,2) by (auto simp: store_inv_def)
qed

lemma store_inv_purge:
  assumes "store_inv tbl s"
  shows "store_inv tbl (purge env i s)"
  unfolding purge_def using assms removeFor_spec [OF store_invD(2) [OF assms]]
  by (intro store_inv_publish store_inv_files) auto

lemma store_inv_fold_purge: "store_inv tbl s \<Longrightarrow> store_inv tbl (fold (purge env) vs s)"
  by (rule fold_invariant) (auto intro: store_inv_purge)

context sql_engine
begin

lemma store_inv_final:
  assumes "store_inv tbl s" "mem_get i (mem s) = Some l"
    and "db_insert exec (snapshot (finalized now fn l)) (db s) = (Inr (), d1)"
    and "\<And>f. fn = Some f \<Longrightarrow> keeps_id f"
  shows "store_inv tbl (published_final i (snapshot (finalized now fn l)) d1 s)"
proof -
  have "ID (snapshot (finalized now fn l)) = i"
    using store_invD(6) [OF assms(1,2)] keeps_id_finalize [OF assms(4)]
    by (simp add: live_inv_def keeps_id_def)
  then obtain row where "tbl d1 = (tbl (db s))(i \<mapsto> row)" "is_ok (scanEntry row)"
    using db_insert_cases [OF assms(3)] entry_row_scan [of "snapshot (finalized now fn l)"]
    by (auto simp: is_ok_def)
  then show ?thesis
    using assms(1) by (intro store_inv_publish) (auto simp: store_inv_def intro: mem_ok_delete)
qed

lemma store_inv_Finalize:
  assumes "store_inv tbl s" "\<And>f. fn = Some f \<Longrightarrow> keeps_id f"
    and "Finalize exec env now i fn s = (r, s')"
  shows "store_inv tbl s'"
  using assms(3)
proof (cases rule: Finalize_cases)
  case missing
  with assms(1) show ?thesis by simp
next
  case (insert_failed l er d1)
  have "live_inv (blobs s) (files s) i (finalized now fn l)"
    using store_invD(6) [OF assms(1) insert_failed(1)] assms(2)
    by (intro live_inv_entry keeps_id_finalize)
  from store_inv_mem_set [OF assms(1) insert_failed(1) this]
  show ?thesis unfolding insert_failed(4)
    using db_insert_cases [OF insert_failed(2)] store_inv_db_eq by fastforce
next
  case (retention_failed l d1 er d2)
  from store_inv_final [OF assms(1) retention_failed(1,2) assms(2)]
  show ?thesis unfolding retention_failed(5)
    using applyRetention_any [OF retention_failed(3)] by (intro store_inv_db) simp_all
next
  case (success l d1 vs d2)
  from store_inv_final [OF assms(1) success(1,2) assms(2)]
  show ?thesis unfolding success(5)
    using applyRetention_any [OF success(3)] by (intro store_inv_fold_purge store_inv_db) simp_all
qed

lemma store_inv_SweepPending:
  assumes "store_inv tbl s" "SweepPending exec env now t s = (n, s')"
  shows "store_inv tbl s'"
proof -
  have "store_inv tbl (fold (\<lambda>i s. snd (Finalize exec env now i (Some (timed_out t)) s)) xs s)" for xs
    by (rule fold_invariant [where P = "store_inv tbl", OF assms(1)]) (metis keeps_id_timed_out option.inject prod.collapse store_inv_Finalize)
  with assms(2) show ?thesis by (auto simp: SweepPending_def Let_def)
qed

lemma store_inv_Get: "store_inv tbl s \<Longrightarrow> Get exec i s = (r, s') \<Longrightarrow> store_inv tbl s'"
  by (auto simp: Get_def dest: db_get_cases(1) intro: store_inv_db_eq split: option.splits prod.splits)

lemma store_inv_List: "store_inv tbl s \<Longrightarrow> List exec n before s = (r, s') \<Longrightarrow> store_inv tbl s'"
  by (auto simp: List_def Let_def dest: db_list_cases(1) intro: store_inv_db_eq
      split: prod.splits sum.splits)

lemma store_inv_Body: "store_inv tbl s \<Longrightarrow> Body exec env i sd s = (r, s') \<Longrightarrow> store_inv tbl s'"
  by (auto simp: Body_def Let_def dest: store_inv_Get split: prod.splits sum.splits if_splits)

lemma store_inv_Clear:
  assumes "store_inv tbl s" "Clear exec env s = (r, s')"
  shows "store_inv tbl s'"
proof -
  obtain x d where x: "db_clear exec (db s) = (x, d)" by fastforce
  obtain y fs' where y: "removeAll_blobs (blobs s) env (files s) = (y, fs')" by fastforce
  have "tbl d \<subseteq>\<^sub>m tbl (db s)" using db_clear_ok [OF x] by (cases x) auto
  then have d: "store_inv tbl (s\<lparr>db := d\<rparr>)" by (rule store_inv_db [OF assms(1)])
  have "fs_ok fs'" "\<And>q h. owns (files s) q h \<Longrightarrow> owns fs' q h"
    using y remove_names_spec [OF store_invD(2) [OF assms(1)]] store_invD(2) [OF assms(1)]
    by (auto simp: removeAll_blobs_def split: sum.splits)
  then have df: "store_inv tbl (s\<lparr>db := d, files := fs'\<rparr>)"
    using store_inv_files [OF d] by simp
  then have "store_inv tbl (fold (\<lambda>i. publish EventDeleted i None []) ids (s\<lparr>db := d, files := fs'\<rparr>))" for ids
    by (rule fold_invariant) (rule store_inv_publish)
  with assms(2) d df show ?thesis
    by (auto simp: Clear_def x y split: sum.splits)
qed


text \<open>Opening a store.\<close>

lemma New_cases:
  assumes "New exec env opts fs d0 = Inr s" "fs_ok fs"
  shows "mem s = newMemStore" "events s = NewBroker" "tbl (db s) = tbl d0" "fs_ok (files s)"
    "maxEntries s = (if MaxEntries opts \<le> 0 then 1000 else MaxEntries opts)"
    "maxInline (blobs s) = (if MaxInlineBodySize opts \<le> 0 then 1048576 else MaxInlineBodySize opts)"
    "blob_dir (blobs s) = path_join (DataDir opts) ''blobs''" "DataDir opts \<noteq> []"
    "\<exists>ids. set ids = dom (tbl d0) \<and> removeOrphans (blobs s) env (Inr ids) fs = (Inr (), files s)"
proof -
  obtain bs where bs: "newBlobStore env (path_join (DataDir opts) ''blobs'')
      (if MaxInlineBodySize opts \<le> 0 then 1048576 else MaxInlineBodySize opts) = Inr bs"
    using assms(1) by (auto simp: New_def Let_def split: sum.splits if_splits)
  then have b: "bs = \<lparr>blob_dir = path_join (DataDir opts) ''blobs'',
      maxInline = (if MaxInlineBodySize opts \<le> 0 then 1048576 else MaxInlineBodySize opts)\<rparr>"
    by (simp add: newBlobStore_def split: if_splits)
  obtain x d1 where x: "openDB exec d0 = (x, d1)" by fastforce
  obtain known d2 where k: "knownIDs exec d1 = (known, d2)" by fastforce
  obtain y fs' where y: "removeOrphans bs env known fs = (y, fs')" by fastforce
  have s: "s = \<lparr>mem = newMemStore, db = d2, blobs = bs, files = fs', events = NewBroker,
      maxEntries = (if MaxEntries opts \<le> 0 then 1000 else MaxEntries opts)\<rparr>"
    "y = Inr ()" "DataDir opts \<noteq> []"
    using assms(1) by (auto simp: New_def Let_def bs x k y split: sum.splits if_splits)
  obtain ids where ids: "known = Inr ids" using s(2) y by (cases known) (auto simp: removeOrphans_def)
  have "fs_ok (fold (remove_orphan bs env ids) ns fs)" for ns
    by (rule fold_invariant [where P = fs_ok, OF assms(2)])
      (auto simp: remove_orphan_def intro: os_Remove_ok [OF _ surjective_pairing])
  then have "fs_ok fs'" using y s(2) by (auto simp: removeOrphans_def ids assms(2) split: sum.splits)
  with s b show "mem s = newMemStore" "events s = NewBroker" "fs_ok (files s)"
    "maxEntries s = (if MaxEntries opts \<le> 0 then 1000 else MaxEntries opts)"
    "maxInline (blobs s) = (if MaxInlineBodySize opts \<le> 0 then 1048576 else MaxInlineBodySize opts)"
    "blob_dir (blobs s) = path_join (DataDir opts) ''blobs''" "DataDir opts \<noteq> []"
    by simp_all
  have t: "tbl d1 = tbl d0" "tbl d2 = tbl d1" "set ids = dom (tbl d1)"
    using openDB_tbl [OF x] knownIDs_ok [OF k] ids by auto
  then show "tbl (db s) = tbl d0" using s by simp
  show "\<exists>ids. set ids = dom (tbl d0) \<and> removeOrphans (blobs s) env (Inr ids) fs = (Inr (), files s)"
    using t y s ids by (intro exI [of _ ids]) simp
qed

lemma store_inv_New:
  assumes "New exec env opts fs d0 = Inr s" "fs_ok fs"
    and "\<And>k r. tbl d0 k = Some r \<Longrightarrow> is_ok (scanEntry r)"
  shows "store_inv tbl s"
  using New_cases [OF assms(1,2)] assms(3)
  by (auto simp: store_inv_def mem_ok_def broker_ok_NewBroker mem_get_def newMemStore_def)

lemma store_inv_Close: "store_inv tbl s \<Longrightarrow> store_inv tbl (Close s)"
  by (simp add: store_inv_def Close_def broker_ok_Close)

text \<open>Every call keeps the invariant.\<close>

lemma store_inv_do_op:
  assumes "store_inv tbl s" "admissible tbl op s"
  shows "store_inv tbl (snd (do_op exec op s))"
  using assms(2)
proof (cases op)
  case (OpPut now rnd e)
  with assms show ?thesis using store_inv_Put [OF assms(1) _ surjective_pairing] by auto
next
  case (OpUpdate now i fn)
  with assms show ?thesis using store_inv_Update [OF assms(1) _ surjective_pairing] by auto
next
  case (OpFinalize env now i fn)
  with assms show ?thesis using store_inv_Finalize [OF assms(1) _ surjective_pairing] by auto
qed (use store_inv_SetRequestBody [OF assms(1) surjective_pairing]
      store_inv_AppendResponse [OF assms(1) surjective_pairing]
      store_inv_SweepPending [OF assms(1) surjective_pairing] store_inv_Get [OF assms(1) surjective_pairing]
      store_inv_List [OF assms(1) surjective_pairing] store_inv_Body [OF assms(1) surjective_pairing]
      store_inv_Clear [OF assms(1) surjective_pairing] store_inv_Close [OF assms(1)]
    in simp_all)

lemma store_inv_step: "store_step exec tbl s s' \<Longrightarrow> store_inv tbl s \<Longrightarrow> store_inv tbl s'"
proof (induction rule: store_step.induct)
  case (subscriber s b)
  then show ?case by (simp add: store_inv_def broker_step_ok)
qed (rule store_inv_do_op)

lemma store_inv_reachable:
  assumes "store_reachable exec tbl d0 s" "\<And>k r. tbl d0 k = Some r \<Longrightarrow> is_ok (scanEntry r)"
  shows "store_inv tbl s"
  using assms(1)
proof induction
  case (opened env opts fs s)
  then show ?case using store_inv_New assms(2) by blast
next
  case (stepped s s')
  then show ?case using store_inv_step by blast
qed

end

end
