(* ===== verification/Store_Bodies.thy ===== *)
theory Store_Bodies
  imports Store_Inv
begin

text \<open>
  What happens to the bytes: an abstract history of the captured bodies, updated by each call,
  and the simulation that the store's buffers, files and rows implement it.

  \<open>G k sd = Some c\<close>: the body \<open>sd\<close> of entry \<open>k\<close> is exactly \<open>c\<close>. \<open>None\<close>: nothing is promised,
  because a write to it failed, its row could not be written, or \<open>Clear\<close> found it spilled while
  the entry was still in flight.
\<close>

type_synonym history = "bytes \<Rightarrow> side \<Rightarrow> bytes option"

definition side_buf :: "side \<Rightarrow> liveEntry \<Rightarrow> bodyBuffer" where
  "side_buf sd l = (if sd = SideRequest then req l else resp l)"

definition history_append :: "bytes \<Rightarrow> side \<Rightarrow> bytes \<Rightarrow> bool \<Rightarrow> history \<Rightarrow> history" where
  "history_append i sd p ok G =
     G(i := (G i)(sd := (if ok then map_option (\<lambda>c. c @ p) (G i sd) else None)))"

text \<open>The entries whose row a call tries to write.\<close>

fun finalizes :: "op \<Rightarrow> 'db store \<Rightarrow> bytes list" where
  "finalizes (OpFinalize env now i fn) s = [i]"
| "finalizes (OpSweep env now t) s = staleIDs now t (mem s)"
| "finalizes _ s = []"

definition in_memory :: "bytes \<Rightarrow> 'db store \<Rightarrow> bool" where
  "in_memory k s \<longleftrightarrow> mem_get k (mem s) \<noteq> None"

text \<open>The call \<open>op\<close>, from \<open>s\<close> to \<open>s'\<close>, with success \<open>ok\<close>.\<close>

fun history_op :: "op \<Rightarrow> bool \<Rightarrow> 'db store \<Rightarrow> 'db store \<Rightarrow> history \<Rightarrow> history" where
  "history_op (OpPut now rnd e) ok s s' G =
     (case put_id rnd e of Inl _ \<Rightarrow> G | Inr i \<Rightarrow> G(i := \<lambda>_. Some []))"
| "history_op (OpSetRequestBody env i body) ok s s' G =
     (if in_memory i s then history_append i SideRequest body ok G else G)"
| "history_op (OpAppend env now i chunk d) ok s s' G =
     (if in_memory i s then history_append i SideResponse chunk ok G else G)"
| "history_op (OpClear env) ok s s' G =
     (\<lambda>k sd. case mem_get k (mem s) of
        Some l \<Rightarrow> if path (side_buf sd l) \<noteq> [] then None else G k sd
      | None \<Rightarrow> G k sd)"
| "history_op op ok s s' G = (\<lambda>k sd. if k \<in> set (finalizes op s) \<and> in_memory k s' then None else G k sd)"

inductive history_run ::
  "'db engine \<Rightarrow> ('db \<Rightarrow> bytes \<Rightarrow> row option) \<Rightarrow> 'db store \<Rightarrow> history \<Rightarrow> 'db store \<Rightarrow> history \<Rightarrow> bool"
  for exec tbl s0 G0 where
  start: "history_run exec tbl s0 G0 s0 G0"
| call: "history_run exec tbl s0 G0 s G \<Longrightarrow> admissible tbl op s \<Longrightarrow> do_op exec op s = (ok, s') \<Longrightarrow>
    history_run exec tbl s0 G0 s' (history_op op ok s s' G)"
| subscriber: "history_run exec tbl s0 G0 s G \<Longrightarrow> broker_step (events s) b \<Longrightarrow>
    history_run exec tbl s0 G0 (s\<lparr>events := b\<rparr>) G"

section \<open>The simulation\<close>

definition buf_holds :: "blobStore \<Rightarrow> fs \<Rightarrow> bytes \<Rightarrow> bodyBuffer \<Rightarrow> bool" where
  "buf_holds bs fs c b \<longleftrightarrow> buf_inv bs fs c b \<and> spill_ok bs fs c b"

text \<open>The columns of one side: path, inline bytes, size.\<close>

definition side_columns :: "side \<Rightarrow> row \<Rightarrow> bytes option \<times> bytes option \<times> int" where
  "side_columns sd r =
     (if sd = SideRequest then (r_request_body_path r, r_request_body r, r_request_body_size r)
      else (r_response_body_path r, r_response_body r, r_response_body_size r))"

definition row_holds :: "blobStore \<Rightarrow> fs \<Rightarrow> bytes \<Rightarrow> side \<Rightarrow> bytes \<Rightarrow> row \<Rightarrow> bool" where
  "row_holds bs fs k sd c r \<longleftrightarrow>
     (case side_columns sd r of (p, body, n) \<Rightarrow>
        n = int (length c) \<and>
        (p = None \<and> null_string body = c \<or>
         p = Some (blob_path bs k sd) \<and> file_at fs (blob_path bs k sd) = Some c))"

definition side_holds ::
  "('db \<Rightarrow> bytes \<Rightarrow> row option) \<Rightarrow> 'db store \<Rightarrow> bytes \<Rightarrow> side \<Rightarrow> bytes \<Rightarrow> bool" where
  "side_holds tbl s k sd c \<longleftrightarrow>
     (\<forall>l. mem_get k (mem s) = Some l \<longrightarrow> buf_holds (blobs s) (files s) c (side_buf sd l)) \<and>
     (\<forall>r. tbl (db s) k = Some r \<longrightarrow> row_holds (blobs s) (files s) k sd c r)"

definition captured :: "('db \<Rightarrow> bytes \<Rightarrow> row option) \<Rightarrow> history \<Rightarrow> 'db store \<Rightarrow> bool" where
  "captured tbl G s \<longleftrightarrow>
     (\<forall>k. \<forall>sd \<in> {SideRequest, SideResponse}. \<forall>c. G k sd = Some c \<longrightarrow> side_holds tbl s k sd c)"

lemma capturedI:
  "(\<And>k sd c. sd \<in> {SideRequest, SideResponse} \<Longrightarrow> G k sd = Some c \<Longrightarrow> side_holds tbl s k sd c) \<Longrightarrow>
   captured tbl G s"
  by (simp add: captured_def)

lemma capturedD:
  "captured tbl G s \<Longrightarrow> sd \<in> {SideRequest, SideResponse} \<Longrightarrow> G k sd = Some c \<Longrightarrow> side_holds tbl s k sd c"
  by (auto simp: captured_def)

text \<open>The path of a body is left alone by a change of the file system.\<close>

definition path_kept :: "fs \<Rightarrow> fs \<Rightarrow> bytes \<Rightarrow> bool" where
  "path_kept fs fs' p \<longleftrightarrow> map_of (dir fs') p = map_of (dir fs) p \<and> file_at fs' p = file_at fs p \<and>
     (\<forall>h. owns fs p h \<longrightarrow> owns fs' p h)"

lemma path_kept_refl [simp]: "path_kept fs fs p"
  by (simp add: path_kept_def)

lemma buf_holds_kept:
  assumes "buf_holds bs fs c b" "path_kept fs fs' (spill_path bs b)"
  shows "buf_holds bs fs' c b"
proof (cases "path b = []")
  case True
  with assms(1) show ?thesis by (simp add: buf_holds_def buf_inv_def spill_ok_def)
next
  case False
  with assms(1) have "path b = spill_path bs b" by (simp add: buf_holds_def buf_inv_def)
  with assms show ?thesis
    by (auto simp: buf_holds_def path_kept_def intro: buf_inv_frame spill_ok_frame)
qed

lemma row_holds_kept:
  "row_holds bs fs k sd c r \<Longrightarrow> path_kept fs fs' (blob_path bs k sd) \<Longrightarrow> row_holds bs fs' k sd c r"
  by (auto simp: row_holds_def path_kept_def split: prod.splits)

lemma side_buf_ids:
  "live_inv bs fs k l \<Longrightarrow> sd \<in> {SideRequest, SideResponse} \<Longrightarrow>
   buf_id (side_buf sd l) = k \<and> buf_side (side_buf sd l) = sd"
  by (auto simp: side_buf_def live_inv_def)

text \<open>A change of the store that leaves the entry and its file alone.\<close>

lemma side_holds_kept:
  assumes "store_inv tbl s" "side_holds tbl s k sd c" "sd \<in> {SideRequest, SideResponse}"
    and "blobs s' = blobs s" "path_kept (files s) (files s') (blob_path (blobs s) k sd)"
    and "\<And>l'. mem_get k (mem s') = Some l' \<Longrightarrow>
      \<exists>l. mem_get k (mem s) = Some l \<and> side_buf sd l' = side_buf sd l"
    and "\<And>r. tbl (db s') k = Some r \<Longrightarrow> tbl (db s) k = Some r"
  shows "side_holds tbl s' k sd c"
proof -
  have "buf_holds (blobs s) (files s') c (side_buf sd l')" if m: "mem_get k (mem s') = Some l'" for l'
  proof -
    obtain l where l: "mem_get k (mem s) = Some l" "side_buf sd l' = side_buf sd l"
      using assms(6) [OF m] by blast
    have "buf_id (side_buf sd l) = k \<and> buf_side (side_buf sd l) = sd"
      using store_invD(6) [OF assms(1) l(1)] assms(3) by (rule side_buf_ids)
    with l assms(2,5) show ?thesis by (auto simp: side_holds_def intro: buf_holds_kept)
  qed
  with assms(2,4,5,7) show ?thesis by (auto simp: side_holds_def intro: row_holds_kept)
qed

lemma captured_kept:
  assumes "store_inv tbl s" "captured tbl G s" "blobs s' = blobs s" "files s' = files s"
    and "\<And>k l'. mem_get k (mem s') = Some l' \<Longrightarrow>
      \<exists>l. mem_get k (mem s) = Some l \<and> req l' = req l \<and> resp l' = resp l"
    and "tbl (db s') \<subseteq>\<^sub>m tbl (db s)"
  shows "captured tbl G s'"
proof (rule capturedI)
  fix k sd c
  assume sd: "sd \<in> {SideRequest, SideResponse}" and "G k sd = Some c"
  then have h: "side_holds tbl s k sd c" by (rule capturedD [OF assms(2)])
  show "side_holds tbl s' k sd c"
    using assms(3-6) by (intro side_holds_kept [OF assms(1) h sd])
      (fastforce simp: side_buf_def map_le_def dom_def)+
qed

lemma captured_publish [simp]: "captured tbl G (publish ty i e c s) = captured tbl G s"
  by (simp add: captured_def side_holds_def)

section \<open>The operations\<close>

lemma captured_Put:
  assumes "store_inv tbl s" "captured tbl G s" "put_id rnd e = Inr i" "unused tbl i s"
    and "Put now rnd e s = (r, s')"
  shows "captured tbl (G(i := \<lambda>_. Some [])) s'"
proof (rule capturedI)
  fix k sd c
  assume sd: "sd \<in> {SideRequest, SideResponse}" and G: "(G(i := \<lambda>_. Some [])) k sd = Some c"
  have s': "s' = publish EventCreated i (Some (snapshot (new_live now i e))) []
      (s\<lparr>mem := mem_set i (new_live now i e) (mem s)\<rparr>)"
    using assms(3,5) by (simp add: Put_eq)
  show "side_holds tbl s' k sd c"
  proof (cases "k = i")
    case True
    with G have "c = []" by simp
    have "buf_holds (blobs s) (files s) [] (buffer i sd)"
      using store_invD(4) [OF assms(1)] by (simp add: buf_holds_def buf_inv_buffer spill_ok_buffer)
    with True \<open>c = []\<close> sd assms(4) show ?thesis
      by (auto simp: s' side_holds_def side_buf_def unused_def)
  next
    case False
    with G have "G k sd = Some c" by simp
    then have h: "side_holds tbl s k sd c" by (rule capturedD [OF assms(2) sd])
    show ?thesis using False by (intro side_holds_kept [OF assms(1) h sd]) (auto simp: s')
  qed
qed

text \<open>The write \<open>SetRequestBody\<close> and \<open>AppendResponse\<close> make, to the buffer of side \<open>sd\<close>.\<close>

definition with_buf :: "side \<Rightarrow> bodyBuffer \<Rightarrow> liveEntry \<Rightarrow> liveEntry" where
  "with_buf sd b l = (if sd = SideRequest then l\<lparr>req := b\<rparr> else l\<lparr>resp := b\<rparr>)"

lemma captured_write:
  assumes "store_inv tbl s" "captured tbl G s" "mem_get i (mem s) = Some l"
    and "sd \<in> {SideRequest, SideResponse}"
    and "buf_Write (blobs s) env p (side_buf sd l) (files s) = (r, b, fs')"
    and "l' = with_buf sd b l \<or> l' = touch now (with_buf sd b l)"
  shows "captured tbl (history_append i sd p (is_ok r) G) (s\<lparr>mem := mem_set i l' (mem s), files := fs'\<rparr>)"
    (is "captured tbl ?G ?s")
proof (rule capturedI)
  fix k sd' c
  assume sd': "sd' \<in> {SideRequest, SideResponse}" and G: "?G k sd' = Some c"
  note I = store_invD [OF assms(1)]
  have live: "live_inv (blobs s) (files s) i l" using I(6) [OF assms(3)] .
  note ids = side_buf_ids [OF live assms(4)]
  obtain d where d: "buf_inv (blobs s) (files s) d (side_buf sd l)"
    using live assms(4) by (auto simp: live_inv_def side_buf_def)
  note F = buf_Write_frame [OF I(2) d assms(5)]
  have bufs: "side_buf sd l' = b" "sd' \<noteq> sd \<Longrightarrow> side_buf sd' l' = side_buf sd' l"
    using assms(4,6) sd' by (auto simp: side_buf_def with_buf_def touch_def)
  show "side_holds tbl ?s k sd' c"
  proof (cases "k = i \<and> sd' = sd")
    case True
    then obtain c0 n where c0: "G i sd = Some c0" "c = c0 @ p" "r = Inr n"
      using G by (auto simp: history_append_def elim: is_okE split: if_splits)
    have h: "buf_holds (blobs s) (files s) c0 (side_buf sd l)"
      using capturedD [OF assms(2,4) c0(1)] assms(3) by (simp add: side_holds_def)
    then have c: "buf_inv (blobs s) (files s) c0 (side_buf sd l)"
      "spill_ok (blobs s) (files s) c0 (side_buf sd l)" by (simp_all add: buf_holds_def)
    have "sink_holds (blobs s) c0 (side_buf sd l, files s)" using c I(2) by (simp add: sink_holds_def)
    from sink_Write_ok [OF this, of env p n "(b, fs')"]
    have "buf_holds (blobs s) fs' c b"
      using assms(5) c0 by (simp add: sink_Write_def sink_holds_def buf_holds_def)
    then show ?thesis using True bufs(1) I(7) [OF assms(3)] by (simp add: side_holds_def)
  next
    case False
    then have "G k sd' = Some c" using G by (auto simp: history_append_def split: if_splits)
    then have h: "side_holds tbl s k sd' c" by (rule capturedD [OF assms(2) sd'])
    have "blob_path (blobs s) k sd' \<noteq> spill_path (blobs s) (side_buf sd l)"
      using False sd' assms(4) ids blob_path_inj by auto
    then have "path_kept (files s) fs' (blob_path (blobs s) k sd')"
      using F by (simp add: path_kept_def)
    then show ?thesis
      using False bufs(2) assms(3)
      by (intro side_holds_kept [OF assms(1) h sd']) (auto split: if_splits)
  qed
qed


text \<open>What is promised after a call that tried to write the rows of \<open>xs\<close>.\<close>

definition voided :: "bytes list \<Rightarrow> 'db store \<Rightarrow> history \<Rightarrow> history" where
  "voided xs s' G = (\<lambda>k sd. if k \<in> set xs \<and> in_memory k s' then None else G k sd)"

lemma voided_Nil [simp]: "voided [] s' G = G"
  by (simp add: voided_def fun_eq_iff)

lemma row_of_final:
  assumes "buf_holds bs fs c (side_buf sd l)" "live_inv bs fs k l" "sd \<in> {SideRequest, SideResponse}"
    and "entry_row (snapshot (finalized now fn l)) = Inr r"
  shows "row_holds bs fs k sd c r"
proof -
  have ids: "buf_id (side_buf sd l) = k \<and> buf_side (side_buf sd l) = sd"
    by (rule side_buf_ids [OF assms(2,3)])
  have cols: "side_columns sd r = (nullString (path (side_buf sd l)),
      blobColumn (preview (side_buf sd l)) (path (side_buf sd l) \<noteq> []), buf_size (side_buf sd l))"
    using assms(3,4) by (auto simp: entry_row_def side_columns_def side_buf_def split: sum.splits)
  have b: "buf_size (side_buf sd l) = int (length c)"
    "path (side_buf sd l) = [] \<Longrightarrow> preview (side_buf sd l) = c"
    "path (side_buf sd l) \<noteq> [] \<Longrightarrow> path (side_buf sd l) = blob_path bs k sd \<and>
       file_at fs (blob_path bs k sd) = Some c"
    using assms(1) ids by (auto simp: buf_holds_def buf_inv_def spill_ok_def file_at_def)
  then show ?thesis
    by (cases "path (side_buf sd l) = []") (simp_all add: row_holds_def cols nullString_def)
qed

lemma path_kept_removed:
  assumes "fs_ok fs" "k \<notin> set vs" "sd \<in> {SideRequest, SideResponse}"
  shows "path_kept fs (fold (removeFor bs env) vs fs) (blob_path bs k sd)"
  using fold_removeFor_spec(2,3) [OF assms(1), where bs = bs and env = env and ids = vs]
    fold_removeFor_spec(4) [OF assms]
  by (simp add: path_kept_def file_at_def)

lemma captured_fold_purge:
  assumes "store_inv tbl s" "captured tbl G s"
    and "\<And>v. v \<in> set vs \<Longrightarrow> mem_get v (mem s) = None \<and> tbl (db s) v = None"
  shows "captured tbl G (fold (purge env) vs s)"
proof (rule capturedI)
  fix k sd c
  assume sd: "sd \<in> {SideRequest, SideResponse}" and "G k sd = Some c"
  then have h: "side_holds tbl s k sd c" by (rule capturedD [OF assms(2)])
  show "side_holds tbl (fold (purge env) vs s) k sd c"
  proof (cases "k \<in> set vs")
    case True
    with assms(3) show ?thesis by (simp add: side_holds_def)
  next
    case False
    from path_kept_removed [OF store_invD(2) [OF assms(1)] this sd]
    show ?thesis by (intro side_holds_kept [OF assms(1) h sd]) auto
  qed
qed

context sql_engine
begin

lemma captured_final:
  assumes "store_inv tbl s" "captured tbl G s" "mem_get i (mem s) = Some l"
    and "db_insert exec (snapshot (finalized now fn l)) (db s) = (Inr (), d1)"
    and "\<And>f. fn = Some f \<Longrightarrow> keeps_id f"
  shows "captured tbl G (published_final i (snapshot (finalized now fn l)) d1 s)"
    (is "captured tbl G ?s")
proof (rule capturedI)
  fix k sd c
  assume sd: "sd \<in> {SideRequest, SideResponse}" and "G k sd = Some c"
  then have h: "side_holds tbl s k sd c" by (rule capturedD [OF assms(2)])
  have live: "live_inv (blobs s) (files s) i l" by (rule store_invD(6) [OF assms(1,3)])
  have "ID (snapshot (finalized now fn l)) = i"
    using live keeps_id_finalize [OF assms(5)] by (simp add: live_inv_def keeps_id_def)
  then obtain row where row: "entry_row (snapshot (finalized now fn l)) = Inr row"
    "tbl d1 = (tbl (db s))(i \<mapsto> row)"
    using db_insert_cases [OF assms(4)] by auto
  show "side_holds tbl ?s k sd c"
  proof (cases "k = i")
    case True
    with h assms(3) have "buf_holds (blobs s) (files s) c (side_buf sd l)" by (simp add: side_holds_def)
    from row_of_final [OF this live sd row(1)] True row(2) show ?thesis by (simp add: side_holds_def)
  next
    case False
    with row(2) show ?thesis by (intro side_holds_kept [OF assms(1) h sd]) auto
  qed
qed

lemma captured_Finalize:
  assumes "store_inv tbl s" "captured tbl G s" "\<And>f. fn = Some f \<Longrightarrow> keeps_id f"
    and "Finalize exec env now i fn s = (r, s')"
  shows "captured tbl (voided [i] s' G) s'"
  using assms(4)
proof (cases rule: Finalize_cases)
  case missing
  with assms(2) show ?thesis by (simp add: captured_def voided_def in_memory_def)
next
  case (insert_failed l er d1)
  have t: "tbl d1 = tbl (db s)" using db_insert_cases [OF insert_failed(2)] by simp
  show ?thesis
  proof (rule capturedI)
    fix k sd c
    assume sd: "sd \<in> {SideRequest, SideResponse}" and G: "voided [i] s' G k sd = Some c"
    then have k: "k \<noteq> i" "G k sd = Some c"
      by (auto simp: voided_def in_memory_def insert_failed(4) split: if_splits)
    show "side_holds tbl s' k sd c" unfolding insert_failed(4) using k(1) t
      by (intro side_holds_kept [OF assms(1) capturedD [OF assms(2) sd k(2)] sd]) simp_all
  qed
next
  case (retention_failed l d1 er d2)
  note F = captured_final [OF assms(1,2) retention_failed(1,2) assms(3)]
    store_inv_final [OF assms(1) retention_failed(1,2) assms(3)]
  have "captured tbl G s'" unfolding retention_failed(5)
    using applyRetention_any [OF retention_failed(3)]
    by (intro captured_kept [OF F(2) F(1)]) simp_all
  moreover have "voided [i] s' G = G" by (simp add: voided_def in_memory_def retention_failed(5) fun_eq_iff)
  ultimately show ?thesis by simp
next
  case (success l d1 vs d2)
  let ?f = "published_final i (snapshot (finalized now fn l)) d1 s"
  note F = captured_final [OF assms(1,2) success(1,2) assms(3)]
    store_inv_final [OF assms(1) success(1,2) assms(3)]
  have le: "tbl d2 \<subseteq>\<^sub>m tbl d1" using applyRetention_any [OF success(3)] .
  have inv: "store_inv tbl (?f\<lparr>db := d2\<rparr>)" by (rule store_inv_db [OF F(2)]) (simp_all add: le)
  have "tbl (db (?f\<lparr>db := d2\<rparr>)) \<subseteq>\<^sub>m tbl (db ?f)" using le by simp
  then have cap: "captured tbl G (?f\<lparr>db := d2\<rparr>)" by (intro captured_kept [OF F(2) F(1)]) simp_all
  have "mem_get v (mem (?f\<lparr>db := d2\<rparr>)) = None \<and> tbl (db (?f\<lparr>db := d2\<rparr>)) v = None" if "v \<in> set vs" for v
  proof -
    have "tbl (db ?f) v \<noteq> None" "tbl d2 v = None"
      using that applyRetention_ok(2,3) [OF success(3)] by (auto simp: restrict_map_def)
    with store_invD(7) [OF F(2), of v] show ?thesis by (cases "mem_get v (mem ?f)") auto
  qed
  then have "captured tbl G s'" unfolding success(5) by (rule captured_fold_purge [OF inv cap])
  moreover have "voided [i] s' G = G" by (simp add: voided_def in_memory_def success(5) fun_eq_iff)
  ultimately show ?thesis by simp
qed

lemma Finalize_mem_other:
  "Finalize exec env now i fn s = (r, s') \<Longrightarrow> k \<noteq> i \<Longrightarrow> mem_get k (mem s') = mem_get k (mem s)"
  by (erule Finalize_cases) auto

lemma captured_sweep:
  assumes "store_inv tbl s" "captured tbl G s" "distinct xs"
    and "s' = fold (\<lambda>i s. snd (Finalize exec env now i (Some (timed_out t)) s)) xs s"
  shows "captured tbl (voided xs s' G) s' \<and> (\<forall>k. k \<notin> set xs \<longrightarrow> mem_get k (mem s') = mem_get k (mem s))"
  using assms
proof (induction xs arbitrary: s G)
  case (Cons x xs)
  obtain r s1 where f: "Finalize exec env now x (Some (timed_out t)) s = (r, s1)" by fastforce
  have kp: "keeps_id f" if "Some (timed_out t) = Some f" for f using that by auto
  note F = captured_Finalize [OF Cons.prems(1,2) kp f] store_inv_Finalize [OF Cons.prems(1) kp f]
  have s': "s' = fold (\<lambda>i s. snd (Finalize exec env now i (Some (timed_out t)) s)) xs s1"
    using Cons.prems(4) f by simp
  from Cons.IH [OF F(2) F(1) _ s'] Cons.prems(3)
  have IH: "captured tbl (voided xs s' (voided [x] s1 G)) s'"
    "\<And>k. k \<notin> set xs \<Longrightarrow> mem_get k (mem s') = mem_get k (mem s1)" by simp_all
  have "in_memory x s' = in_memory x s1" using IH(2) [of x] Cons.prems(3) by (simp add: in_memory_def)
  then have "voided xs s' (voided [x] s1 G) = voided (x # xs) s' G"
    by (auto simp: voided_def fun_eq_iff)
  with IH Finalize_mem_other [OF f] show ?case by simp
qed simp

lemma captured_Clear:
  assumes "store_inv tbl s" "captured tbl G s" "Clear exec env s = (r, s')"
  shows "captured tbl (history_op (OpClear env) ok s s' G) s'"
proof (rule capturedI)
  fix k sd c
  assume sd: "sd \<in> {SideRequest, SideResponse}" and G': "history_op (OpClear env) ok s s' G k sd = Some c"
  then have G: "G k sd = Some c" by (auto split: option.splits if_splits)
  have h: "side_holds tbl s k sd c" by (rule capturedD [OF assms(2) sd G])
  obtain x d where x: "db_clear exec (db s) = (x, d)" by fastforce
  obtain y fs' where y: "removeAll_blobs (blobs s) env (files s) = (y, fs')" by fastforce
  have mem: "mem s' = mem s" "blobs s' = blobs s"
    using assms(3) by (auto simp: Clear_def x y split: sum.splits)
  show "side_holds tbl s' k sd c"
  proof (cases x)
    case (Inl e)
    with assms(3) x db_clear_ok(2) [OF x] show ?thesis
      by (intro side_holds_kept [OF assms(1) h sd]) (auto simp: Clear_def)
  next
    case (Inr ids)
    then have "tbl (db s') = Map.empty"
      using db_clear_ok(1) [OF x] assms(3) by (auto simp: Clear_def x y split: sum.splits)
    moreover have "buf_holds (blobs s) (files s') c (side_buf sd l)" if "mem_get k (mem s) = Some l" for l
    proof -
      have "path (side_buf sd l) = []" using G' that by (auto split: if_splits)
      moreover have "buf_holds (blobs s) (files s) c (side_buf sd l)" using h that by (simp add: side_holds_def)
      ultimately show ?thesis by (simp add: buf_holds_def buf_inv_def spill_ok_def)
    qed
    ultimately show ?thesis using mem by (simp add: side_holds_def)
  qed
qed


lemma captured_do_op:
  assumes "store_inv tbl s" "captured tbl G s" "admissible tbl op s" "do_op exec op s = (ok, s')"
  shows "captured tbl (history_op op ok s s' G) s'"
  using assms(4)
proof (cases op)
  case (OpPut now rnd e)
  show ?thesis
  proof (cases "put_id rnd e")
    case (Inl er)
    with assms(2,4) OpPut show ?thesis by (auto simp: Put_eq)
  next
    case (Inr i)
    obtain r where "Put now rnd e s = (r, s')" using assms(4) OpPut by (auto simp: map_prod_def split: prod.splits)
    from captured_Put [OF assms(1,2) Inr _ this] assms(3) OpPut Inr show ?thesis by simp
  qed
next
  case (OpSetRequestBody env i body)
  show ?thesis
  proof (cases "mem_get i (mem s)")
    case None
    with assms(2,4) OpSetRequestBody show ?thesis by (auto simp: SetRequestBody_def in_memory_def)
  next
    case (Some l)
    obtain r b fs' where w: "buf_Write (blobs s) env body (req l) (files s) = (r, b, fs')" by (rule prod_cases3)
    have "captured tbl (history_append i SideRequest body (is_ok r) G)
        (s\<lparr>mem := mem_set i (with_buf SideRequest b l) (mem s), files := fs'\<rparr>)"
      by (rule captured_write [where env = env, OF assms(1,2) Some _ _ disjI1 [OF refl]])
        (simp_all add: side_buf_def w)
    with w Some assms(4) OpSetRequestBody show ?thesis
      by (cases r) (auto simp: SetRequestBody_def in_memory_def with_buf_def)
  qed
next
  case (OpAppend env now i chunk d)
  show ?thesis
  proof (cases "mem_get i (mem s)")
    case None
    with assms(2,4) OpAppend show ?thesis by (auto simp: AppendResponse_def in_memory_def)
  next
    case (Some l)
    obtain r b fs' where w: "buf_Write (blobs s) env chunk (resp l) (files s) = (r, b, fs')" by (rule prod_cases3)
    have "captured tbl (history_append i SideResponse chunk (is_ok r) G)
        (s\<lparr>mem := mem_set i l' (mem s), files := fs'\<rparr>)"
      if "l' = with_buf SideResponse b l \<or> l' = touch now (with_buf SideResponse b l)" for l'
      using w that by (intro captured_write [OF assms(1,2) Some, where now = now]) (simp_all add: side_buf_def)
    with w Some assms(4) OpAppend show ?thesis
      by (cases r) (auto simp: AppendResponse_def in_memory_def with_buf_def Let_def)
  qed
next
  case (OpFinalize env now i fn)
  then obtain r where "Finalize exec env now i fn s = (r, s')"
    using assms(4) by (auto simp: map_prod_def split: prod.splits)
  from captured_Finalize [OF assms(1,2) _ this] assms(3) OpFinalize show ?thesis
    by (simp add: voided_def)
next
  case (OpSweep env now t)
  then have "s' = fold (\<lambda>i s. snd (Finalize exec env now i (Some (timed_out t)) s)) (staleIDs now t (mem s)) s"
    using assms(4) by (simp add: SweepPending_def Let_def)
  from captured_sweep [OF assms(1,2) staleIDs_distinct [OF store_invD(1) [OF assms(1)]] this]
  show ?thesis using OpSweep by (simp add: voided_def)
next
  case (OpClear env)
  then obtain r where "Clear exec env s = (r, s')"
    using assms(4) by (auto simp: map_prod_def split: prod.splits)
  from captured_Clear [OF assms(1,2) this] OpClear show ?thesis by simp
next
  case (OpUpdate now i fn)
  then have "captured tbl G s'"
    using assms(4) by (intro captured_kept [OF assms(1,2)])
      (auto simp: Update_def live_update_def Let_def map_prod_def split: option.splits if_splits)
  with OpUpdate show ?thesis by simp
next
  case (OpGet i)
  then have "captured tbl G s'"
    using assms(4) by (intro captured_kept [OF assms(1,2)])
      (auto simp: Get_def map_prod_def dest: db_get_cases(1) split: option.splits prod.splits)
  with OpGet show ?thesis by simp
next
  case (OpBody env i sd)
  then have "captured tbl G s'"
    using assms(4) by (intro captured_kept [OF assms(1,2)])
      (auto simp: Body_def Get_def Let_def map_prod_def dest: db_get_cases(1)
        split: option.splits prod.splits sum.splits if_splits)
  with OpBody show ?thesis by simp
next
  case (OpList n before)
  then have "captured tbl G s'"
    using assms(4) by (intro captured_kept [OF assms(1,2)])
      (auto simp: List_def Let_def map_prod_def dest: db_list_cases(1) split: prod.splits sum.splits)
  with OpList show ?thesis by simp
next
  case OpClose
  then have "captured tbl G s'"
    using assms(4) by (intro captured_kept [OF assms(1,2)]) (auto simp: Close_def)
  with OpClose show ?thesis by simp
qed

lemma captured_run:
  assumes "history_run exec tbl s0 G0 s G" "store_inv tbl s0" "captured tbl G0 s0"
  shows "store_inv tbl s \<and> captured tbl G s"
  using assms(1)
proof induction
  case start
  with assms show ?case by simp
next
  case (call s G op ok s')
  then show ?case using captured_do_op store_inv_do_op by (metis snd_conv)
next
  case (subscriber s G b)
  then show ?case
    by (simp add: store_inv_def broker_step_ok) (simp add: captured_def side_holds_def)
qed


text \<open>What \<open>Body\<close> reads.\<close>

lemma Body_live:
  assumes "store_inv tbl s" "mem_get k (mem s) = Some l" "sd \<in> {SideRequest, SideResponse}"
  shows "Body exec env k sd s =
    (if path (side_buf sd l) = [] then (Inr (preview (side_buf sd l), buf_size (side_buf sd l)), s)
     else case os_Open env (path (side_buf sd l)) (files s) of
       Inl er \<Rightarrow> (Inl er, s)
     | Inr c \<Rightarrow> (Inr (c, buf_size (side_buf sd l)), s))"
  using assms(2,3) by (auto simp: Body_def Get_def side_buf_def split: sum.splits)

lemma Body_captured:
  assumes "store_inv tbl s" "side_holds tbl s k sd c" "sd \<in> {SideRequest, SideResponse}" "open_ok env"
  shows "fst (Body exec env k sd s) = Inr (c, int (length c)) \<or> \<not> in_memory k s \<and>
    (fst (Body exec env k sd s) = Inl ErrSQL \<or>
     fst (Body exec env k sd s) = Inl ErrNotFound \<and> tbl (db s) k = None)"
proof (cases "mem_get k (mem s)")
  case (Some l)
  with assms(2) have h: "buf_inv (blobs s) (files s) c (side_buf sd l)"
    "spill_ok (blobs s) (files s) c (side_buf sd l)" by (simp_all add: side_holds_def buf_holds_def)
  then have "path (side_buf sd l) \<noteq> [] \<Longrightarrow> os_Open env (path (side_buf sd l)) (files s) = Inr c"
    using assms(4) by (auto simp: spill_ok_def os_Open_def file_at_def)
  moreover have "path (side_buf sd l) = [] \<Longrightarrow> preview (side_buf sd l) = c"
    "buf_size (side_buf sd l) = int (length c)" using h by (auto simp: buf_inv_def le_nat_iff)
  ultimately show ?thesis using Body_live [OF assms(1) Some assms(3)] by simp
next
  case None
  obtain x d where x: "db_get exec k (db s) = (x, d)" by fastforce
  note G = db_get_cases [OF x]
  show ?thesis
  proof (cases x)
    case (Inl e)
    have "x = Inl ErrSQL \<or> x = Inl ErrNotFound \<and> tbl (db s) k = None"
      using G(2) Inl store_invD(8) [OF assms(1), of k] by (auto elim: is_okE split: option.splits)
    with None x Inl show ?thesis by (auto simp: Body_def Get_def in_memory_def)
  next
    case (Inr e)
    then obtain r where r: "tbl (db s) k = Some r" "scanEntry r = Inr e"
      using G(2) by (auto split: option.splits)
    have h: "row_holds (blobs s) (files s) k sd c r" using assms(2) r(1) by (simp add: side_holds_def)
    obtain p body n where c: "side_columns sd r = (p, body, n)" by (rule prod_cases3)
    have f: "RequestBodyPath e = null_string (r_request_body_path r)" "RequestBody e = null_string (r_request_body r)"
      "RequestBodySize e = r_request_body_size r" "ResponseBodyPath e = null_string (r_response_body_path r)"
      "ResponseBody e = null_string (r_response_body r)" "ResponseBodySize e = r_response_body_size r"
      using r(2) by (auto simp: scanEntry_def split: sum.splits)
    have "Get exec k s = (Inr e, s\<lparr>db := d\<rparr>)" using None x Inr by (simp add: Get_def)
    then have "fst (Body exec env k sd s) =
        (if null_string p \<noteq> [] then map_sum id (\<lambda>b. (b, n)) (os_Open env (null_string p) (files s))
         else Inr (null_string body, n))"
      using f c assms(3) by (auto simp: Body_def side_columns_def split: sum.splits if_splits)
    moreover have "n = int (length c) \<and> (p = None \<and> null_string body = c \<or>
        p = Some (blob_path (blobs s) k sd) \<and> file_at (files s) (blob_path (blobs s) k sd) = Some c)"
      using h c by (simp add: row_holds_def)
    moreover have "null_string None = []" "null_string (Some v) = v" for v by (simp_all add: null_string_def)
    ultimately show ?thesis using assms(4) None by (auto simp: os_Open_def in_memory_def)
  qed
qed

end

section \<open>Properties\<close>


definition small_options :: options where
  "small_options = \<lparr>DataDir = ''/data'', MaxInlineBodySize = 4, MaxEntries = 2\<rparr>"

definition small_store :: "row list store" where
  "small_store = \<lparr>mem = newMemStore, db = [], blobs = small_blobs, files = empty_fs,
     events = NewBroker, maxEntries = 2\<rparr>"

lemma New_small: "New table_exec os_fine small_options empty_fs [] = Inr small_store"
  by (simp add: New_def small_options_def small_store_def os_fine_def newBlobStore_def path_join_def
      small_blobs_def openDB_def knownIDs_def query_ids_def table_rows_def removeOrphans_def
      os_ReadDir_def empty_fs_def)

text \<open>One entry in flight, with a response longer than the inline threshold.\<close>

definition one_put :: op where
  "one_put = OpPut (Time 5) None (zero_entry\<lparr>ID := ''1f''\<rparr>)"

definition one_append :: op where
  "one_append = OpAppend os_fine (Time 6) ''1f'' ''abcdef'' True"

definition one_store :: "row list store" where
  "one_store = snd (do_op table_exec one_append (snd (do_op table_exec one_put small_store)))"

lemma one_put_mem:
  "mem (snd (do_op table_exec one_put small_store)) =
     [(''1f'', new_live (Time 5) ''1f'' (zero_entry\<lparr>ID := ''1f''\<rparr>))]"
  by (simp add: one_put_def small_store_def Put_eq put_id_def zero_entry_def mem_set_def newMemStore_def)

lemma one_append_ok: "fst (do_op table_exec one_append (snd (do_op table_exec one_put small_store)))"
proof -
  let ?s = "snd (do_op table_exec one_put small_store)"
  obtain b fs' where "buf_Write (blobs ?s) os_fine ''abcdef'' (buffer ''1f'' SideResponse) (files ?s)
      = (Inr 6, b, fs')"
    using buf_Write_total [of os_fine "buffer ''1f'' SideResponse" "blobs ?s" "''abcdef''" "files ?s"]
    by (auto simp: os_fine_def buffer_def eval_nat_numeral)
  then show ?thesis by (simp add: one_append_def AppendResponse_def one_put_mem mem_get_def)
qed

lemma one_run: "history_run table_exec table_tbl small_store (\<lambda>_ _. None) one_store
    (history_append ''1f'' SideResponse ''abcdef'' True ((\<lambda>_ _. None)(''1f'' := \<lambda>_. Some [])))"
proof -
  let ?s1 = "snd (do_op table_exec one_put small_store)"
  have e1: "do_op table_exec one_put small_store = (True, ?s1)"
    by (simp add: one_put_def Put_eq put_id_def zero_entry_def)
  have a1: "admissible table_tbl one_put small_store"
    by (simp add: one_put_def put_id_def zero_entry_def unused_def small_store_def mem_get_def
        newMemStore_def table_tbl_def)
  have r1: "history_run table_exec table_tbl small_store (\<lambda>_ _. None) ?s1 ((\<lambda>_ _. None)(''1f'' := \<lambda>_. Some []))"
    using history_run.call [OF history_run.start a1 e1] by (simp add: one_put_def put_id_def zero_entry_def)
  have e2: "do_op table_exec one_append ?s1 = (True, one_store)"
    using one_append_ok by (simp add: one_store_def prod_eq_iff)
  have "admissible table_tbl one_append ?s1" by (simp add: one_append_def)
  from history_run.call [OF r1 this e2] show ?thesis
    by (simp add: one_append_def in_memory_def one_put_mem mem_get_def)
qed

lemma one_in_memory: "in_memory ''1f'' one_store"
  using one_append_ok
  by (auto simp: one_store_def in_memory_def one_append_def AppendResponse_def one_put_mem mem_get_def
      mem_set_def Let_def split: prod.splits sum.splits)



text \<open>
  C38. \<open>Clear\<close> is meant for the history, but it deletes every file of the body directory, the
  files of entries in flight included: after a successful \<open>Clear\<close>, an entry in flight whose body
  had spilled is still there, and reading that body fails until the entry ends, whatever the
  environment; the bytes written so far are lost to it, while the size still counts them.
\<close>

theorem clear_breaks_spilled_bodies:
  assumes "sql_engine exec tbl" "store_inv tbl s" "mem_get k (mem s) = Some l"
    and "sd = SideRequest \<or> sd = SideResponse" "path (side_buf sd l) \<noteq> []" "CHR ''/'' \<notin> set k"
    and "Clear exec env s = (Inr (), s')"
  shows "mem_get k (mem s') = Some l \<and> fst (Body exec env' k sd s') = Inl (ErrOS ''open'')"
proof -
  have sd: "sd \<in> {SideRequest, SideResponse}" using assms(4) by simp
  obtain y fs' where y: "removeAll_blobs (blobs s) env (files s) = (y, fs')" by fastforce
  have y': "y = Inr ()" "mem s' = mem s" "files s' = fs'"
    using assms(7) by (auto simp: Clear_def y split: prod.splits sum.splits)
  have live: "live_inv (blobs s) (files s) k l" by (rule store_invD(6) [OF assms(2,3)])
  then obtain c where "buf_inv (blobs s) (files s) c (side_buf sd l)"
    by (cases "sd = SideRequest") (auto simp: live_inv_def side_buf_def)
  then have p: "path (side_buf sd l) = path_join (blob_dir (blobs s)) (blob_name k sd)"
    using side_buf_ids [OF live sd] buf_inv_path [OF _ assms(5)] by (simp add: blob_path_def)
  have "CHR ''/'' \<notin> set (blob_name k sd)" using assms(4,6) by (auto simp: blob_name_def side_defs)
  then have "file_at fs' (path (side_buf sd l)) = None"
    using y y'(1) os_ReadDir_set [of env "blob_dir (blobs s)" "files s"]
    by (auto simp: p removeAll_blobs_def remove_names_all split: sum.splits)
  moreover have "store_inv tbl s'" using sql_engine.store_inv_Clear [OF assms(1,2,7)] .
  ultimately show ?thesis
    using sql_engine.Body_live [OF assms(1) _ _ sd, of s' k l env'] assms(3,5) y'(2,3)
    by (simp add: os_Open_def)
qed

lemma clear_breaks_spilled_bodies_witness:
  "fst (Body table_exec os_fine ''1f'' SideResponse (snd (Clear table_exec os_fine one_store)))
     = Inl (ErrOS ''open'')"
proof -
  have c: "fst (Clear table_exec os_fine one_store) = Inr ()" by code_simp
  obtain s' where s': "Clear table_exec os_fine one_store = (Inr (), s')" using c by (metis prod.collapse)
  have "case mem_get ''1f'' (mem one_store) of None \<Rightarrow> False | Some l \<Rightarrow> path (side_buf SideResponse l) \<noteq> []"
    by code_simp
  then obtain l where l: "mem_get ''1f'' (mem one_store) = Some l" "path (side_buf SideResponse l) \<noteq> []"
    by (auto split: option.splits)
  have "store_inv table_tbl one_store"
    using table.captured_run [OF one_run table.store_inv_New [OF New_small fs_ok_empty]]
    by (simp add: table_tbl_def captured_def)
  from clear_breaks_spilled_bodies [OF table.sql_engine_axioms this l(1) _ l(2) _ s'] s'
  show ?thesis by simp
qed

end
