(* ===== verification/Store_List.thy ===== *)
theory Store_List
  imports Store_Bodies
begin

text \<open>
  \<open>Store.List\<close>: the merge of the entries in flight with the newest rows of the history is the
  newest page of everything the store holds, although only \<open>limit\<close> rows are read.
\<close>

section \<open>The first elements of a sorted merge\<close>

lemma sorted_take_above:
  fixes key :: "'a \<Rightarrow> 'b::linorder"
  assumes "sorted_wrt (\<lambda>a b. key b \<le> key a) xs" "y \<in> set (take n xs)"
  shows "length (filter (\<lambda>z. key y < key z) xs) < n"
proof -
  obtain j where j: "j < n" "j < length xs" "xs ! j = y"
    using assms(2) by (auto simp: in_set_conv_nth)
  have "key z \<le> key y" if z: "z \<in> set (drop j xs)" for z
  proof -
    obtain i where i: "i < length (drop j xs)" "drop j xs ! i = z" using z unfolding in_set_conv_nth by blast
    show ?thesis
    proof (cases i)
      case 0
      with i j show ?thesis by simp
    next
      case (Suc i')
      with i j assms(1) show ?thesis by (auto simp: sorted_wrt_iff_nth_less)
    qed
  qed
  then have "filter (\<lambda>z. key y < key z) (drop j xs) = []"
    by (auto simp: filter_empty_conv not_less)
  then have "filter (\<lambda>z. key y < key z) xs = filter (\<lambda>z. key y < key z) (take j xs)"
    by (metis append_Nil2 append_take_drop_id filter_append)
  then have "length (filter (\<lambda>z. key y < key z) xs) \<le> j"
    using length_filter_le [of _ "take j xs"] by (metis (no_types) le_trans length_take min.cobounded2)
  with j show ?thesis by simp
qed

text \<open>The page made from all of \<open>xs\<close> and only the first \<open>n\<close> of \<open>ys\<close>: what is left out is not newer.\<close>

lemma merged_page:
  fixes key :: "'a \<Rightarrow> 'b::linorder"
  assumes "sorted_wrt (\<lambda>a b. key b \<le> key a) ys" "sorted_wrt (\<lambda>a b. key b \<le> key a) zs"
    and "mset zs = mset (xs @ take n ys)" "e \<in> set xs \<union> set ys" "e \<notin> set (take n zs)"
  shows "length (take n zs) = n \<and> (\<forall>z \<in> set (take n zs). key e \<le> key z)"
proof (cases "e \<in> set (drop n zs)")
  case True
  then have "n < length zs" by (metis drop_all empty_iff leI list.set(1))
  with True assms(2) show ?thesis using sorted_desc_take_drop by fastforce
next
  case False
  then have "e \<notin> set zs" using assms(5) by (metis Un_iff append_take_drop_id set_append)
  moreover have "set zs = set xs \<union> set (take n ys)" using assms(3) by (metis set_append set_mset_mset)
  ultimately have e: "e \<in> set (drop n ys)"
    using assms(4) by (metis Un_iff append_take_drop_id set_append)
  then have n: "n < length ys" by (metis drop_all empty_iff leI list.set(1))
  have up: "key e \<le> key y" if "y \<in> set (take n ys)" for y
    using sorted_desc_take_drop [OF assms(1) that e] .
  have "length zs = length xs + n" using assms(3) n by (metis length_append length_take min.absorb4 size_mset)
  moreover have "key e \<le> key z" if z: "z \<in> set (take n zs)" for z
  proof (rule ccontr)
    assume "\<not> key e \<le> key z"
    then have "key z < key y" if "y \<in> set (take n ys)" for y
      using up [OF that] by simp
    then have "filter (\<lambda>y. key z < key y) (take n ys) = take n ys"
      by (simp add: filter_id_conv)
    moreover have "length (filter (\<lambda>y. key z < key y) zs) =
        length (filter (\<lambda>y. key z < key y) xs) + length (filter (\<lambda>y. key z < key y) (take n ys))"
      using arg_cong [OF assms(3), of "\<lambda>m. size (filter_mset (\<lambda>y. key z < key y) m)"]
      by (simp flip: mset_filter)
    ultimately show False using sorted_take_above [OF assms(2) z] n by simp
  qed
  ultimately show ?thesis by simp
qed

section \<open>Properties\<close>

text \<open>An entry that \<open>List\<close> with the cursor \<open>before\<close> ranges over.\<close>

definition list_candidate ::
  "('db \<Rightarrow> bytes \<Rightarrow> row option) \<Rightarrow> gotime \<Rightarrow> 'db store \<Rightarrow> entry \<Rightarrow> bool" where
  "list_candidate tbl before s e \<longleftrightarrow>
     (\<exists>k l. mem_get k (mem s) = Some l \<and> e = snapshot l \<and> (IsZero before \<or> StartedAt e < before)) \<or>
     (\<exists>k r. tbl (db s) k = Some r \<and> scanEntry r = Inr e \<and>
        (IsZero before \<or> r_started_at r < UnixMilli before))"

lemma scan_fields:
  "scanEntry r = Inr e \<Longrightarrow> ID e = r_id r \<and> StartedAt e = time_UnixMilli (r_started_at r)"
  by (auto simp: scanEntry_def split: sum.splits)

lemma sort_newest_sorted: "sorted_wrt (\<lambda>a b. StartedAt b \<le> StartedAt a) (sort_newest es)"
proof -
  have "sorted (map (\<lambda>e. - nanos (StartedAt e)) (sort_newest es))"
    unfolding sort_newest_def by (rule sorted_sort_key)
  then show ?thesis by (simp add: sorted_wrt_map less_eq_gotime_def)
qed

lemma mem_list_ids:
  assumes "store_inv tbl s"
  shows "distinct (map ID (mem_list before (mem s)))"
    "e \<in> set (mem_list before (mem s)) \<Longrightarrow> in_memory (ID e) s"
proof -
  have "map ID (map (\<lambda>(k, l). snapshot l) (mem s)) = map fst (mem s)"
  proof -
    have "ID (snapshot l) = k" if "(k, l) \<in> set (mem s)" for k l
      using that store_invD(1,6) [OF assms] by (simp add: mem_get_iff [symmetric] live_inv_def)
    then show ?thesis by (auto simp: comp_def)
  qed
  then have "distinct (map ID (map (\<lambda>(k, l). snapshot l) (mem s)))"
    using store_invD(1) [OF assms] by (simp only: mem_ok_def)
  then show "distinct (map ID (mem_list before (mem s)))"
    unfolding mem_list_def by (rule distinct_map_filter)
  show "e \<in> set (mem_list before (mem s)) \<Longrightarrow> in_memory (ID e) s"
    using store_invD(1,6) [OF assms] by (auto simp: mem_list_iff in_memory_def live_inv_def)
qed

context sql_engine
begin

lemma List_parts:
  assumes "store_inv tbl s" "List exec n before s = (Inr es, s')"
  obtains rs ys where "newest_first {r \<in> ran (tbl (db s)). IsZero before \<or> r_started_at r < UnixMilli before} rs"
    "map scanEntry rs = map Inr ys"
    "es = take (nat (if n \<le> 0 then 100 else n))
       (sort_newest (mem_list before (mem s) @ take (nat (if n \<le> 0 then 100 else n)) ys))"
proof -
  let ?n = "if n \<le> 0 then 100 else n"
  obtain x d where x: "db_list exec ?n before (db s) = (x, d)" by fastforce
  then obtain rows where rows: "x = Inr rows"
    "es = take (nat ?n) (sort_newest (mem_list before (mem s) @ rows))"
    using assms(2) by (auto simp: List_def Let_def split: sum.splits if_splits)
  then obtain rs where rs:
    "newest_first {r \<in> ran (tbl (db s)). IsZero before \<or> r_started_at r < UnixMilli before} rs"
    "map scanEntry (sql_limit ?n rs) = map Inr rows"
    using db_list_cases(2) [OF x] by blast
  have "\<exists>ys. map scanEntry rs = map Inr ys"
  proof -
    have "\<exists>e. scanEntry r = Inr e" if "r \<in> set rs" for r
    proof -
      have "tbl (db s) (r_id r) = Some r" using rs(1) that by (auto simp: newest_first_def ran_id)
      from store_invD(8) [OF assms(1) this] show ?thesis by (auto elim: is_okE)
    qed
    then show ?thesis by (induction rs) (auto, metis list.simps(9))
  qed
  then obtain ys where ys: "map scanEntry rs = map Inr ys" by blast
  have "sql_limit ?n rs = take (nat ?n) rs" by (simp add: sql_limit_def)
  then have "map Inr rows = (map Inr (take (nat ?n) ys) :: (go_error + entry) list)"
    using rs(2) by (simp only: ys [symmetric] take_map [symmetric])
  then have "rows = take (nat ?n) ys" by (metis inj_Inr inj_map_eq_map)
  with that [OF rs(1) ys] rows(2) show thesis by simp
qed

end

text \<open>The newest page of at most \<open>n\<close> entries.\<close>

definition newest_page ::
  "('db \<Rightarrow> bytes \<Rightarrow> row option) \<Rightarrow> nat \<Rightarrow> gotime \<Rightarrow> 'db store \<Rightarrow> entry list \<Rightarrow> bool" where
  "newest_page tbl n before s es \<longleftrightarrow>
     sorted_wrt (\<lambda>a b. StartedAt b \<le> StartedAt a) es \<and> length es \<le> n \<and>
     distinct (map ID es) \<and> (\<forall>e \<in> set es. list_candidate tbl before s e) \<and>
     (\<forall>e. list_candidate tbl before s e \<longrightarrow> e \<notin> set es \<longrightarrow>
        length es = n \<and> (\<forall>x \<in> set es. StartedAt e \<le> StartedAt x))"

lemma List_page:
  assumes "sql_engine exec tbl" "store_inv tbl s" "List exec n before s = (Inr es, s')"
  defines "limit \<equiv> nat (if n \<le> 0 then 100 else n)"
  shows "newest_page tbl limit before s es"
proof -
  obtain rs ys where rs:
    "newest_first {r \<in> ran (tbl (db s)). IsZero before \<or> r_started_at r < UnixMilli before} rs"
    "map scanEntry rs = map Inr ys"
    "es = take limit (sort_newest (mem_list before (mem s) @ take limit ys))"
    by (rule sql_engine.List_parts [OF assms(1-3)]) (simp add: limit_def)
  let ?ms = "mem_list before (mem s)"
  let ?zs = "sort_newest (?ms @ take limit ys)"
  have scan: "list_all2 (\<lambda>r e. scanEntry r = Inr e) rs ys"
    using rs(2) by (simp add: list_all2_conv_all_nth) (metis length_map nth_map)
  have ids: "map ID ys = map r_id rs" "map StartedAt ys = map (time_UnixMilli \<circ> r_started_at) rs"
    using scan by (induction rule: list_all2_induct) (auto dest: scan_fields)
  have sorted: "sorted_wrt (\<lambda>a b. StartedAt b \<le> StartedAt a) ys"
  proof -
    have "sorted_wrt (\<lambda>a b. b \<le> a) (map (time_UnixMilli \<circ> r_started_at) rs)"
      using rs(1) by (auto simp: newest_first_def sorted_wrt_map time_UnixMilli_def less_eq_gotime_def
          elim: sorted_wrt_mono_rel [rotated])
    then show ?thesis by (simp flip: ids(2) add: sorted_wrt_map)
  qed
  have ys: "e \<in> set ys \<longleftrightarrow> (\<exists>k r. tbl (db s) k = Some r \<and> scanEntry r = Inr e \<and>
      (IsZero before \<or> r_started_at r < UnixMilli before))" for e
  proof -
    have "e \<in> set ys \<longleftrightarrow> Inr e \<in> set (map scanEntry rs)" unfolding rs(2) by auto
    also have "\<dots> \<longleftrightarrow> (\<exists>r \<in> set rs. scanEntry r = Inr e)" by (auto simp: image_iff eq_commute [of "Inr e"])
    also have "\<dots> \<longleftrightarrow> (\<exists>r \<in> ran (tbl (db s)). scanEntry r = Inr e \<and>
        (IsZero before \<or> r_started_at r < UnixMilli before))"
      using rs(1) by (simp add: newest_first_def) blast
    finally show ?thesis by (simp add: ran_def) blast
  qed
  have cand: "list_candidate tbl before s e \<longleftrightarrow> e \<in> set ?ms \<union> set ys" for e
    using mem_list_iff [OF store_invD(1) [OF assms(2)]] ys by (auto simp: list_candidate_def)
  have perm: "mset ?zs = mset (?ms @ take limit ys)" by (simp add: sort_newest_def)
  have "distinct (map ID (?ms @ take limit ys))"
  proof -
    have "distinct (map ID (take limit ys))"
      using rs(1) by (simp add: take_map [symmetric] ids newest_first_def)
    moreover have "\<not> in_memory (ID e) s" if e: "e \<in> set (take limit ys)" for e
    proof -
      obtain k r where r: "tbl (db s) k = Some r" "scanEntry r = Inr e"
        using in_set_takeD [OF e] ys by blast
      then have "ID e = k" using sql_engine.primary_key [OF assms(1) r(1)] by (auto dest: scan_fields)
      with r(1) store_invD(7) [OF assms(2), of k] show ?thesis
        by (cases "mem_get k (mem s)") (auto simp: in_memory_def)
    qed
    ultimately show ?thesis using mem_list_ids [OF assms(2)] by fastforce
  qed
  then have "distinct (map ID ?zs)" using perm by (metis mset_eq_imp_distinct_iff mset_map)
  then have "distinct (map ID es)" unfolding rs(3) by (simp add: take_map [symmetric])
  moreover have "sorted_wrt (\<lambda>a b. StartedAt b \<le> StartedAt a) es"
    unfolding rs(3) by (rule sorted_wrt_take [OF sort_newest_sorted])
  moreover have "list_candidate tbl before s e" if "e \<in> set es" for e
  proof -
    have "e \<in> set ?zs" using that unfolding rs(3) by (rule in_set_takeD)
    then have "e \<in> set (?ms @ take limit ys)" using perm by (metis set_mset_mset)
    then show ?thesis unfolding cand by (auto dest: in_set_takeD)
  qed
  moreover have "length es = limit \<and> (\<forall>x \<in> set es. StartedAt e \<le> StartedAt x)"
    if "list_candidate tbl before s e" "e \<notin> set es" for e
    using merged_page [OF sorted sort_newest_sorted perm, of e] that unfolding cand rs(3) by blast
  ultimately show ?thesis by (auto simp: newest_page_def rs(3))
qed

text \<open>
  C15. A page of the list is exactly the newest part of what the store holds: sorted newest
  first, no longer than the limit (100 by default), without duplicates, made of entries in
  flight and rows older than the cursor; and an entry it leaves out is not newer than any it
  shows, and is left out only because the page is full.
\<close>

theorem list_is_newest_page:
  assumes "sql_engine exec tbl" "store_inv tbl s" "List exec n before s = (Inr es, s')"
  defines "limit \<equiv> nat (if n \<le> 0 then 100 else n)"
  shows "sorted_wrt (\<lambda>a b. StartedAt b \<le> StartedAt a) es \<and> length es \<le> limit \<and>
    distinct (map ID es) \<and> (\<forall>e \<in> set es. list_candidate tbl before s e) \<and>
    (\<forall>e. list_candidate tbl before s e \<longrightarrow> e \<notin> set es \<longrightarrow>
       length es = limit \<and> (\<forall>x \<in> set es. StartedAt e \<le> StartedAt x))"
  unfolding limit_def by (rule List_page [OF assms(1-3), unfolded newest_page_def])


lemma list_is_newest_page_witness:
  "\<exists>e. fst (List table_exec 1 zero_time one_store) = Inr [e] \<and> ID e = ''1f''"
proof -
  have inv: "store_inv table_tbl one_store"
    using table.captured_run [OF one_run table.store_inv_New [OF New_small fs_ok_empty]]
    by (simp add: table_tbl_def captured_def)
  have "db one_store = []" by code_simp
  then obtain es s' where es: "List table_exec 1 zero_time one_store = (Inr es, s')"
    by (simp add: List_def db_list_def query_rows_def Let_def IsZero_def sql_limit_def table_sorted_def
        table_rows_def)
  note P = list_is_newest_page [OF table.sql_engine_axioms inv es]
  have c: "list_candidate table_tbl zero_time one_store e \<longleftrightarrow>
      (\<exists>k l. mem_get k (mem one_store) = Some l \<and> e = snapshot l)" for e
    using \<open>db one_store = []\<close> by (simp add: list_candidate_def IsZero_def table_tbl_def)
  have "map fst (mem one_store) = [''1f'']" by code_simp
  then obtain l where l: "mem one_store = [(''1f'', l)]" by auto
  then have m: "mem_get k (mem one_store) = Some l' \<longleftrightarrow> k = ''1f'' \<and> l' = l" for k l'
    by (auto simp: mem_get_def)
  have "ID (snapshot l) = ''1f''" using store_invD(6) [OF inv, of "''1f''" l] m by (simp add: live_inv_def)
  moreover have "es \<noteq> []" using P m c by fastforce
  moreover have "length es \<le> 1" "\<forall>e \<in> set es. e = snapshot l" using P m c by auto
  ultimately show ?thesis using es by (cases es) auto
qed

end
