(* ===== verification/Store_Feed.thy ===== *)
theory Store_Feed
  imports Store_Bodies
begin

text \<open>
  The event stream as a feed: a subscriber that starts from the set of existing entries and
  applies the events it receives always knows which entries exist.
\<close>

fun apply_event :: "event \<Rightarrow> bytes set \<Rightarrow> bytes set" where
  "apply_event ev A =
     (case ev_Type ev of
        EventCreated \<Rightarrow> insert (ev_ID ev) A
      | EventUpdated \<Rightarrow> insert (ev_ID ev) A
      | EventDelta \<Rightarrow> A
      | EventDeleted \<Rightarrow> A - {ev_ID ev})"

definition entry_ids :: "('db \<Rightarrow> bytes \<Rightarrow> row option) \<Rightarrow> 'db store \<Rightarrow> bytes set" where
  "entry_ids tbl s = {k. in_memory k s} \<union> dom (tbl (db s))"

text \<open>
  The calls after which the feed is complete: any but \<open>Close\<close>, where a \<open>Finalize\<close> or \<open>Clear\<close>
  has to succeed. A sweep is a sequence of \<open>Finalize\<close> calls, which stand for it here.
\<close>

fun reported :: "op \<Rightarrow> bool \<Rightarrow> bool" where
  "reported (OpFinalize env now i fn) ok = ok"
| "reported (OpClear env) ok = ok"
| "reported (OpSweep env now t) ok = False"
| "reported OpClose ok = False"
| "reported _ ok = True"

fun run_ops ::
  "'db engine \<Rightarrow> ('db \<Rightarrow> bytes \<Rightarrow> row option) \<Rightarrow> op list \<Rightarrow> 'db store \<Rightarrow> bool \<times> 'db store" where
  "run_ops exec tbl [] s = (True, s)"
| "run_ops exec tbl (op # ops) s =
     (let (ok, s1) = do_op exec op s; (rest, s2) = run_ops exec tbl ops s1
      in (admissible tbl op s \<and> reported op ok \<and> rest, s2))"

definition feeds :: "('db \<Rightarrow> bytes \<Rightarrow> row option) \<Rightarrow> event list \<Rightarrow> 'db store \<Rightarrow> 'db store \<Rightarrow> bool" where
  "feeds tbl evs s s' \<longleftrightarrow>
     events s' = fold Publish evs (events s) \<and> fold apply_event evs (entry_ids tbl s) = entry_ids tbl s'"

lemma feeds_none:
  "events s' = events s \<Longrightarrow> (\<And>k. in_memory k s' = in_memory k s) \<Longrightarrow> tbl (db s') = tbl (db s) \<Longrightarrow>
   \<exists>evs. feeds tbl evs s s'"
  by (intro exI [of _ "[]"]) (simp add: feeds_def entry_ids_def)

lemma feeds_one:
  "events s' = Publish ev (events s) \<Longrightarrow> apply_event ev (entry_ids tbl s) = entry_ids tbl s' \<Longrightarrow>
   \<exists>evs. feeds tbl evs s s'"
  by (intro exI [of _ "[ev]"]) (simp add: feeds_def)

lemma fold_deleted: "fold apply_event (map deleted vs) A = A - set vs"
  by (induction vs arbitrary: A) auto

lemma in_memory_live: "mem_get i (mem s) = Some l \<Longrightarrow> in_memory i s"
  by (simp add: in_memory_def)

context sql_engine
begin

lemma feeds_Finalize:
  assumes "store_inv tbl s" "\<And>f. fn = Some f \<Longrightarrow> keeps_id f"
    and "Finalize exec env now i fn s = (Inr (), s')"
  shows "\<exists>evs. feeds tbl evs s s'"
  using assms(3)
proof (cases rule: Finalize_cases)
  case (success l d1 vs d2)
  let ?e = "snapshot (finalized now fn l)"
  let ?evs = "\<lparr>ev_Type = EventUpdated, ev_ID = i, ev_Entry = Some ?e, ev_Chunk = []\<rparr> # map deleted vs"
  have "ID ?e = i"
    using store_invD(6) [OF assms(1) success(1)] keeps_id_finalize [OF assms(2)]
    by (simp add: live_inv_def keeps_id_def)
  then obtain row where d1: "tbl d1 = (tbl (db s))(i \<mapsto> row)"
    using db_insert_cases [OF success(2)] by auto
  note R = applyRetention_ok(2,3) [OF success(3)]
  have mem_vs: "k \<noteq> i \<Longrightarrow> in_memory k s \<Longrightarrow> k \<notin> set vs" for k
    using R(1) store_invD(7) [OF assms(1), of k] by (auto simp: d1 in_memory_def)
  have "entry_ids tbl s' = insert i (entry_ids tbl s) - set vs"
    using mem_vs success(1) in_memory_live [OF success(1)]
    by (auto simp: entry_ids_def success(5) R(2) d1 in_memory_def split: if_splits)
  then have "feeds tbl ?evs s s'"
    by (simp add: feeds_def success(5) fold_deleted)
  then show ?thesis by blast
qed simp_all

lemma feeds_Clear:
  assumes "store_inv tbl s" "Clear exec env s = (Inr (), s')"
  shows "\<exists>evs. feeds tbl evs s s'"
proof -
  obtain x d where x: "db_clear exec (db s) = (x, d)" by fastforce
  obtain y fs' where y: "removeAll_blobs (blobs s) env (files s) = (y, fs')" by fastforce
  obtain ids where r: "x = Inr ids" "mem s' = mem s" "db s' = d"
    "events s' = fold Publish (map deleted ids) (events s)"
    using assms(2) by (auto simp: Clear_def x y split: sum.splits)
  have c: "set ids = dom (tbl (db s))" "tbl d = Map.empty" using db_clear_ok(1) [OF x r(1)] by auto
  have "in_memory k s \<Longrightarrow> k \<notin> set ids" for k
    using c(1) store_invD(7) [OF assms(1), of k] by (auto simp: in_memory_def)
  then have "feeds tbl (map deleted ids) s s'"
    using r c by (auto simp: feeds_def fold_deleted entry_ids_def in_memory_def)
  then show ?thesis by blast
qed

lemma feeds_do_op:
  assumes "store_inv tbl s" "admissible tbl op s" "do_op exec op s = (ok, s')" "reported op ok"
  shows "\<exists>evs. feeds tbl evs s s'"
proof (cases op)
  case (OpPut now rnd e)
  show ?thesis
  proof (cases "put_id rnd e")
    case (Inl er)
    with assms(3) OpPut have "s' = s" by (auto simp: Put_eq)
    then show ?thesis by (intro feeds_none) simp_all
  next
    case (Inr i)
    with assms(3) OpPut have s': "s' = publish EventCreated i (Some (snapshot (new_live now i e))) []
        (s\<lparr>mem := mem_set i (new_live now i e) (mem s)\<rparr>)" by (auto simp: Put_eq)
    show ?thesis
      by (rule feeds_one [where ev = "\<lparr>ev_Type = EventCreated, ev_ID = i, ev_Entry = Some (snapshot (new_live now i e)), ev_Chunk = []\<rparr>"])
        (auto simp: s' entry_ids_def in_memory_def split: if_splits)
  qed
next
  case (OpSetRequestBody env i body)
  with assms(3) show ?thesis
    by (intro feeds_none)
      (auto simp: SetRequestBody_def in_memory_def Let_def
        split: option.splits prod.splits sum.splits if_splits)
next
  case (OpAppend env now i c d)
  obtain r where r: "AppendResponse env now i c d s = (r, s')"
    using assms(3) OpAppend by (auto simp: map_prod_def split: prod.splits)
  have ids: "entry_ids tbl s' = entry_ids tbl s"
    using r by (auto simp: AppendResponse_def entry_ids_def in_memory_def Let_def
        split: option.splits prod.splits sum.splits if_splits)
  have "events s' = events s \<or>
      events s' = Publish \<lparr>ev_Type = EventDelta, ev_ID = i, ev_Entry = None, ev_Chunk = c\<rparr> (events s)"
    using r by (auto simp: AppendResponse_def Let_def split: option.splits prod.splits sum.splits if_splits)
  then show ?thesis
  proof
    assume "events s' = events s"
    with ids have "feeds tbl [] s s'" by (simp add: feeds_def)
    then show ?thesis by blast
  qed (use ids in \<open>auto intro: feeds_one\<close>)
next
  case (OpUpdate now i fn)
  obtain r where r: "Update now i fn s = (r, s')"
    using assms(3) OpUpdate by (auto simp: map_prod_def split: prod.splits)
  show ?thesis
  proof (cases "mem_get i (mem s)")
    case None
    with r show ?thesis by (intro feeds_none) (auto simp: Update_def)
  next
    case (Some l)
    let ?l = "live_update now fn l"
    have s': "s' = publish EventUpdated i (Some (snapshot ?l)) [] (s\<lparr>mem := mem_set i ?l (mem s)\<rparr>)"
      using r Some by (auto simp: Update_def Let_def)
    show ?thesis
      by (rule feeds_one [where ev = "\<lparr>ev_Type = EventUpdated, ev_ID = i, ev_Entry = Some (snapshot ?l), ev_Chunk = []\<rparr>"])
        (use Some in \<open>auto simp: s' entry_ids_def in_memory_def split: if_splits\<close>)
  qed
next
  case (OpFinalize env now i fn)
  then obtain r where r: "Finalize exec env now i fn s = (r, s')" "is_ok r"
    using assms(3,4) by (auto simp: map_prod_def split: prod.splits)
  then have f: "Finalize exec env now i fn s = (Inr (), s')" by (auto elim: is_okE)
  have "keeps_id g" if "fn = Some g" for g using assms(2) OpFinalize that by simp
  from feeds_Finalize [OF assms(1) this f] show ?thesis .
next
  case (OpClear env)
  then obtain r where r: "Clear exec env s = (r, s')" "is_ok r"
    using assms(3,4) by (auto simp: map_prod_def split: prod.splits)
  then have "r = Inr ()" by (auto elim: is_okE)
  with r(1) feeds_Clear [OF assms(1)] show ?thesis by simp
next
  case (OpGet i)
  with assms(3) show ?thesis
    by (intro feeds_none) (auto simp: Get_def in_memory_def map_prod_def dest: db_get_cases(1)
        split: option.splits prod.splits)
next
  case (OpList n before)
  with assms(3) show ?thesis
    by (intro feeds_none) (auto simp: List_def Let_def in_memory_def map_prod_def dest: db_list_cases(1)
        split: prod.splits sum.splits)
next
  case (OpBody env i sd)
  obtain r where "Body exec env i sd s = (r, s')"
    using assms(3) OpBody by (auto simp: map_prod_def split: prod.splits)
  then have "snd (Get exec i s) = s'"
    by (auto simp: Body_def Let_def split: prod.splits sum.splits if_splits)
  then show ?thesis
    by (intro feeds_none) (auto simp: Get_def in_memory_def dest: db_get_cases(1)
        split: option.splits prod.splits)
qed (use assms(4) in auto)

lemma feeds_run:
  assumes "store_inv tbl s" "run_ops exec tbl ops s = (True, s')"
  shows "\<exists>evs. feeds tbl evs s s'"
  using assms
proof (induction ops arbitrary: s)
  case Nil
  then show ?case by (intro feeds_none) simp_all
next
  case (Cons op ops)
  obtain ok s1 where o: "do_op exec op s = (ok, s1)" by fastforce
  with Cons.prems(2) have a: "admissible tbl op s" "reported op ok" "run_ops exec tbl ops s1 = (True, s')"
    by (auto simp: Let_def split: prod.splits)
  have "store_inv tbl s1" using store_inv_do_op [OF Cons.prems(1) a(1)] o by simp
  from Cons.IH [OF this a(3)] feeds_do_op [OF Cons.prems(1) a(1) o a(2)]
  obtain evs evs' where "feeds tbl evs s s1" "feeds tbl evs' s1 s'" by blast
  then have "feeds tbl (evs @ evs') s s'" by (simp add: feeds_def)
  then show ?case by blast
qed

end

section \<open>Properties\<close>

text \<open>
  C17. The feed is faithful: over any sequence of calls in which every \<open>Finalize\<close> and \<open>Clear\<close>
  succeeds, a subscriber still connected at the end was connected all along and has
  received, after what it had before, one list of events, the same for all, which applied to
  the ids that existed before gives exactly the ids that exist after: created, finished, purged
  by retention or cleared.
\<close>

theorem event_feed_is_faithful:
  assumes "sql_engine exec tbl" "store_inv tbl s" "run_ops exec tbl ops s = (True, s')"
  shows "\<exists>evs. fold apply_event evs (entry_ids tbl s) = entry_ids tbl s' \<and>
    (\<forall>ch. subscribed ch (events s') \<longrightarrow>
       subscribed ch (events s) \<and> unread ch (events s') = unread ch (events s) @ evs)"
proof -
  obtain evs where "events s' = fold Publish evs (events s)"
    "fold apply_event evs (entry_ids tbl s) = entry_ids tbl s'"
    using sql_engine.feeds_run [OF assms] by (auto simp: feeds_def)
  then show ?thesis using bus.fold_publish_live [OF store_invD(3) [OF assms(2)]] by auto
qed

lemma event_feed_is_faithful_witness:
  "\<exists>evs. fold apply_event evs {} = entry_ids table_tbl (snd (run_ops table_exec table_tbl
     [one_put, one_append, OpFinalize os_fine (Time 9) ''1f'' None] small_store))"
proof -
  let ?ops = "[one_put, one_append, OpFinalize os_fine (Time 9) ''1f'' None]"
  have inv: "store_inv table_tbl small_store"
    using table.store_inv_New [OF New_small fs_ok_empty] by (simp add: table_tbl_def)
  have "fst (do_op table_exec (OpFinalize os_fine (Time 9) ''1f'' None) one_store)" by code_simp
  moreover have "admissible table_tbl one_put small_store"
    by (simp add: one_put_def put_id_def zero_entry_def unused_def small_store_def mem_get_def
        newMemStore_def table_tbl_def)
  moreover have "admissible table_tbl one_append s" "reported one_append ok" "reported one_put ok" for s ok
    by (simp_all add: one_append_def one_put_def)
  ultimately have "fst (run_ops table_exec table_tbl ?ops small_store)"
    by (simp add: one_store_def Let_def case_prod_beta del: do_op.simps)
  then have run: "run_ops table_exec table_tbl ?ops small_store =
      (True, snd (run_ops table_exec table_tbl ?ops small_store))"
    by (metis (full_types) prod.collapse)
  have "entry_ids table_tbl small_store = {}"
    by (simp add: entry_ids_def in_memory_def small_store_def newMemStore_def mem_get_def table_tbl_def)
  with event_feed_is_faithful [OF table.sql_engine_axioms inv run] show ?thesis by auto
qed

end
