(* ===== verification/Threads.thy ===== *)
theory Threads
  imports Prelude
begin

text \<open>
  Goroutines that share a state: a process is the sequence of the atomic sections it goes through,
  one per critical section of a mutex, statement of the engine or call of the operating system.
  A pool of processes runs by any interleaving of their sections.
\<close>

section \<open>Processes\<close>

datatype ('s, 'r) proc = Ret 'r | Act "'s \<Rightarrow> 's \<times> ('s, 'r) proc"

lemma proc_induct [case_names Ret Act, induct type: proc]:
  fixes p :: "('s, 'r) proc"
  assumes "\<And>x. P (Ret x)" "\<And>a. (\<And>s s' p. a s = (s', p) \<Longrightarrow> P p) \<Longrightarrow> P (Act a)"
  shows "P p"
proof (rule proc.induct [of P])
  fix a :: "'s \<Rightarrow> 's \<times> ('s, 'r) proc"
  assume IH: "\<And>x p. x \<in> range a \<Longrightarrow> p \<in> Basic_BNFs.snds x \<Longrightarrow> P p"
  show "P (Act a)"
  proof (rule assms(2))
    fix s s' p
    assume "a s = (s', p)"
    then have "(s', p) \<in> range a" by (metis rangeI)
    then show "P p" by (rule IH) (simp add: snds.simps)
  qed
qed (rule assms(1))

primrec then_do :: "('s, 'a) proc \<Rightarrow> ('a \<Rightarrow> ('s, 'b) proc) \<Rightarrow> ('s, 'b) proc" where
  "then_do (Ret x) f = f x"
| "then_do (Act a) f = Act (map_prod id (\<lambda>p. then_do p f) \<circ> a)"

text \<open>One section, with its result.\<close>

definition atomic :: "('s \<Rightarrow> 'r \<times> 's) \<Rightarrow> ('s, 'r) proc" where
  "atomic f = Act (\<lambda>s. case f s of (x, s') \<Rightarrow> (s', Ret x))"

abbreviation reading :: "('s \<Rightarrow> 'r) \<Rightarrow> ('s, 'r) proc" where
  "reading f \<equiv> atomic (\<lambda>s. (f s, s))"

abbreviation doing :: "('s \<Rightarrow> 's) \<Rightarrow> ('s, unit) proc" where
  "doing f \<equiv> atomic (\<lambda>s. ((), f s))"

primrec for_each :: "('a \<Rightarrow> ('s, unit) proc) \<Rightarrow> 'a list \<Rightarrow> ('s, unit) proc" where
  "for_each f [] = Ret ()"
| "for_each f (x # xs) = then_do (f x) (\<lambda>_. for_each f xs)"

primrec map_each :: "('a \<Rightarrow> ('s, 'b) proc) \<Rightarrow> 'a list \<Rightarrow> ('s, 'b list) proc" where
  "map_each f [] = Ret []"
| "map_each f (x # xs) = then_do (f x) (\<lambda>y. then_do (map_each f xs) (\<lambda>ys. Ret (y # ys)))"

lemma then_do_assoc: "then_do (then_do p f) g = then_do p (\<lambda>x. then_do (f x) g)"
proof (induction p)
  case (Act a)
  have "map_prod id (\<lambda>p. then_do p g) (map_prod id (\<lambda>p. then_do p f) (a s)) =
      map_prod id (\<lambda>p. then_do p (\<lambda>x. then_do (f x) g)) (a s)" for s
    using Act.IH [of s] by (cases "a s") simp
  then show ?case by (simp add: fun_eq_iff)
qed simp

lemma then_do_atomic: "then_do (atomic f) g = Act (\<lambda>s. case f s of (x, s') \<Rightarrow> (s', g x))"
  by (simp add: atomic_def fun_eq_iff split: prod.split)

section \<open>Running alone\<close>

primrec alone :: "('s, 'r) proc \<Rightarrow> 's \<Rightarrow> 'r \<times> 's" where
  "alone (Ret x) = (\<lambda>s. (x, s))"
| "alone (Act a) = (\<lambda>s. (\<lambda>(s', k). k s') ((map_prod id alone \<circ> a) s))"

lemma alone_Act [simp]: "alone (Act a) s = (case a s of (s', p) \<Rightarrow> alone p s')"
  by (simp add: case_prod_beta)

declare alone.simps(2) [simp del]

lemma alone_atomic [simp]: "alone (atomic f) s = f s"
  by (simp add: atomic_def case_prod_beta)

lemma alone_then_do [simp]: "alone (then_do p f) s = (case alone p s of (x, s') \<Rightarrow> alone (f x) s')"
proof (induction p arbitrary: s)
  case (Act a)
  obtain s' p where p: "a s = (s', p)" by fastforce
  with Act.IH [OF p] show ?case by simp
qed simp

lemma alone_for_each:
  "alone (for_each f xs) s = ((), fold (\<lambda>x s. snd (alone (f x) s)) xs s)"
  by (induction xs arbitrary: s) (simp_all add: case_prod_beta)

lemma alone_map_each:
  assumes "\<And>x s. x \<in> set xs \<Longrightarrow> alone (f x) s = (g x s, s)"
  shows "alone (map_each f xs) s = (map (\<lambda>x. g x s) xs, s)"
  using assms by (induction xs) simp_all

section \<open>Running together\<close>

type_synonym ('s, 'r) pool = "('s, 'r) proc list"

inductive pool_step :: "'s \<times> ('s, 'r) pool \<Rightarrow> 's \<times> ('s, 'r) pool \<Rightarrow> bool" where
  "i < length ps \<Longrightarrow> ps ! i = Act a \<Longrightarrow> a s = (s', p) \<Longrightarrow> pool_step (s, ps) (s', ps[i := p])"

inductive_cases pool_stepE: "pool_step (s, ps) (s', ps')"

text \<open>A run is the list of the states it goes through, the last one first.\<close>

inductive pool_run :: "'s \<Rightarrow> ('s, 'r) pool \<Rightarrow> 's list \<Rightarrow> 's \<Rightarrow> ('s, 'r) pool \<Rightarrow> bool" for s0 ps0 where
  start: "pool_run s0 ps0 [] s0 ps0"
| turn: "pool_run s0 ps0 ss s ps \<Longrightarrow> pool_step (s, ps) (s', ps') \<Longrightarrow> pool_run s0 ps0 (s # ss) s' ps'"

lemma pool_run_section:
  assumes "pool_run s0 ps0 ss s ps" "i < length ps" "ps ! i = then_do (atomic f) g" "f s = (x, s')"
  shows "pool_run s0 ps0 (s # ss) s' (ps[i := g x])"
  by (rule pool_run.turn [OF assms(1) pool_step.intros [OF assms(2) assms(3) [unfolded then_do_atomic]]])
    (simp add: assms(4))

text \<open>The run a schedule gives: whose turn it is, one section at a time.\<close>

fun schedule :: "nat list \<Rightarrow> 's list \<Rightarrow> 's \<Rightarrow> ('s, 'r) pool \<Rightarrow> ('s list \<times> 's \<times> ('s, 'r) pool) option" where
  "schedule [] ss s ps = Some (ss, s, ps)"
| "schedule (i # is) ss s ps =
     (if i < length ps
      then case ps ! i of
             Ret _ \<Rightarrow> None
           | Act a \<Rightarrow> (case a s of (s', p) \<Rightarrow> schedule is (s # ss) s' (ps[i := p]))
      else None)"

lemma schedule_section:
  "i < length ps \<Longrightarrow> ps ! i = then_do (atomic f) g \<Longrightarrow> f s = (x, s') \<Longrightarrow>
   schedule (i # is) ss s ps = schedule is (s # ss) s' (ps[i := g x])"
  by (simp add: then_do_atomic)

lemma schedule_run:
  assumes "pool_run s0 ps0 ss s ps" "schedule is ss s ps = Some (ss', s', ps')"
  shows "pool_run s0 ps0 ss' s' ps'"
  using assms
proof (induction "is" arbitrary: ss s ps)
  case (Cons i "is")
  then obtain a s1 p where "i < length ps" "ps ! i = Act a" "a s = (s1, p)"
    "schedule is (s # ss) s1 (ps[i := p]) = Some (ss', s', ps')"
    by (auto split: if_splits proc.splits prod.splits)
  with Cons.IH pool_run.turn [OF Cons.prems(1) pool_step.intros] show ?case by blast
qed simp

declare schedule.simps(2) [simp del]

text \<open>Within a pool a process may also run to its end without interruption.\<close>

lemma pool_run_alone:
  assumes "pool_run s0 ps0 ss s ps" "i < length ps" "alone (ps ! i) s = (x, s')"
  shows "\<exists>ss'. pool_run s0 ps0 ss' s' (ps[i := Ret x])"
proof -
  have "\<exists>ss'. pool_run s0 ps0 ss' s' (ps[i := Ret x])"
    if "pool_run s0 ps0 ss s ps" "i < length ps" "ps ! i = p" "alone p s = (x, s')" for p ss s ps
    using that
  proof (induction p arbitrary: ss s ps)
    case (Ret y)
    then have "ps[i := Ret x] = ps" by (metis alone.simps(1) list_update_id prod.inject)
    with Ret show ?case by auto
  next
    case (Act a)
    obtain s1 p1 where a: "a s = (s1, p1)" by fastforce
    from Act.prems pool_run.turn [OF Act.prems(1) pool_step.intros [OF Act.prems(2,3) a]]
    have "pool_run s0 ps0 (s # ss) s1 (ps[i := p1])" by simp
    from Act.IH [OF a this] Act.prems a show ?case by simp
  qed
  with assms show ?thesis by blast
qed

text \<open>One section of the first process, then the second to its end, then the rest of the first.\<close>

lemma pool_run_between:
  assumes "p = then_do (atomic f) g" "f s = (x, s1)" "alone q s1 = (y, s2)" "alone (g x) s2 = (z, s3)"
  shows "\<exists>ss. pool_run s [p, q] ss s3 [Ret z, Ret y]"
proof -
  have "pool_run s [p, q] [s] s1 [g x, q]"
    using pool_run_section [OF pool_run.start, of 0 "[p, q]" f g s x s1] assms(1,2) by simp
  from pool_run_alone [OF this, of 1 y s2] assms(3)
  obtain ss where "pool_run s [p, q] ss s2 [g x, Ret y]" by auto
  from pool_run_alone [OF this, of 0 z s3] assms(4) show ?thesis by auto
qed

section \<open>What every interleaving keeps\<close>

text \<open>
  A rely-guarantee triple. \<open>V\<close> is the invariant of the shared state, \<open>G\<close> what every section of every
  process guarantees, and \<open>A\<close> what is assumed of the run: whenever a step of it satisfies \<open>A\<close>,
  \<open>keeps V G A Q K p\<close> says that \<open>p\<close>, started with the knowledge \<open>K\<close>, keeps \<open>V\<close> and \<open>G\<close> with each section, and
  returns a result \<open>x\<close> only with the knowledge \<open>Q x\<close>. Knowledge has to survive the steps of others.
\<close>

definition stable :: "('s \<Rightarrow> 's \<Rightarrow> bool) \<Rightarrow> ('s \<Rightarrow> 's \<Rightarrow> bool) \<Rightarrow> ('s \<Rightarrow> bool) \<Rightarrow> bool" where
  "stable G A K \<longleftrightarrow> (\<forall>s s'. K s \<longrightarrow> G s s' \<longrightarrow> A s s' \<longrightarrow> K s')"

lemma stableD: "stable G A K \<Longrightarrow> K s \<Longrightarrow> G s s' \<Longrightarrow> A s s' \<Longrightarrow> K s'"
  by (auto simp: stable_def)

lemma stable_True [simp]: "stable G A (\<lambda>_. True)"
  by (simp add: stable_def)

lemma stable_conj [intro]: "stable G A K \<Longrightarrow> stable G A L \<Longrightarrow> stable G A (\<lambda>s. K s \<and> L s)"
  by (auto simp: stable_def)

lemma stable_imp [intro]: "(P \<Longrightarrow> stable G A K) \<Longrightarrow> stable G A (\<lambda>s. P \<longrightarrow> K s)"
  by (auto simp: stable_def)

lemma stable_const [simp]: "stable G A (\<lambda>_. P)"
  by (simp add: stable_def)

inductive keeps ::
  "('s \<Rightarrow> bool) \<Rightarrow> ('s \<Rightarrow> 's \<Rightarrow> bool) \<Rightarrow> ('s \<Rightarrow> 's \<Rightarrow> bool) \<Rightarrow> ('r \<Rightarrow> 's \<Rightarrow> bool) \<Rightarrow> ('s \<Rightarrow> bool) \<Rightarrow> ('s, 'r) proc \<Rightarrow> bool"
  for V G A Q where
  Ret: "(\<And>s. K s \<Longrightarrow> Q x s) \<Longrightarrow> keeps V G A Q K (Ret x)"
| Act: "(\<And>s s' p. a s = (s', p) \<Longrightarrow> V s \<Longrightarrow> K s \<Longrightarrow> A s s' \<Longrightarrow>
     V s' \<and> G s s' \<and> (\<exists>K'. stable G A K' \<and> K' s' \<and> keeps V G A Q K' p)) \<Longrightarrow> keeps V G A Q K (Act a)"

inductive_cases keeps_RetE: "keeps V G A Q K (Ret x)"
inductive_cases keeps_ActE: "keeps V G A Q K (Act a)"

lemma keeps_weaken:
  assumes "keeps V G A P K p" "\<And>s. L s \<Longrightarrow> K s" "\<And>x s. P x s \<Longrightarrow> Q x s"
  shows "keeps V G A Q L p"
  using assms(1,2)
proof (induction arbitrary: L)
  case (Ret K x)
  then show ?case by (auto intro: keeps.Ret assms(3))
next
  case (Act a K)
  show ?case
  proof (rule keeps.Act)
    fix s s' p
    assume "a s = (s', p)" "V s" "L s" "A s s'"
    with Act.IH [of s s' p] Act.prems
    show "V s' \<and> G s s' \<and> (\<exists>K'. stable G A K' \<and> K' s' \<and> keeps V G A Q K' p)" by blast
  qed
qed

lemma keeps_then_do:
  fixes p :: "('s, 'a) proc" and f :: "'a \<Rightarrow> ('s, 'b) proc"
  assumes "keeps V G A P K p" "\<And>x. keeps V G A Q (P x) (f x)"
  shows "keeps V G A Q K (then_do p f)"
  using assms(1)
proof induction
  case (Ret K x)
  then show ?case using keeps_weaken [OF assms(2) [of x]] by simp
next
  case (Act a K)
  show ?case unfolding then_do.simps
  proof (rule keeps.Act)
    fix s s' and q :: "('s, 'b) proc"
    assume st: "(map_prod id (\<lambda>p. then_do p f) \<circ> a) s = (s', q)" "V s" "K s" "A s s'"
    then obtain p where p: "a s = (s', p)" "q = then_do p f" by (cases "a s") auto
    from Act [OF p(1) st(2,3,4)] p(2)
    show "V s' \<and> G s s' \<and> (\<exists>K'. stable G A K' \<and> K' s' \<and> keeps V G A Q K' q)" by blast
  qed
qed

text \<open>One section: it keeps the knowledge there was and may add to it.\<close>

lemma keeps_atomic:
  assumes "\<And>s x s'. f s = (x, s') \<Longrightarrow> V s \<Longrightarrow> K s \<Longrightarrow> A s s' \<Longrightarrow> V s' \<and> G s s' \<and> P x s'"
    and "stable G A K" "\<And>x. stable G A (P x)"
  shows "keeps V G A (\<lambda>x s. K s \<and> P x s) K (atomic f)"
  unfolding atomic_def
proof (rule keeps.Act)
  fix s s' and p :: "('a, 'b) proc"
  assume a: "(case f s of (x, s') \<Rightarrow> (s', Ret x)) = (s', p)" "V s" "K s" "A s s'"
  then obtain x where x: "f s = (x, s')" "p = Ret x" by (cases "f s") simp
  note F = assms(1) [OF x(1) a(2-4)]
  then have "K s'" using stableD [OF assms(2) a(3)] a(4) by blast
  with F x(2) assms(2,3)
  show "V s' \<and> G s s' \<and> (\<exists>K'. stable G A K' \<and> K' s' \<and> keeps V G A (\<lambda>x s. K s \<and> P x s) K' p)"
    by (intro conjI exI [of _ "\<lambda>s. K s \<and> P x s"]) (auto intro: keeps.Ret)
qed

lemma keeps_section:
  assumes "\<And>s x s'. f s = (x, s') \<Longrightarrow> V s \<Longrightarrow> K s \<Longrightarrow> A s s' \<Longrightarrow> V s' \<and> G s s'" "stable G A K"
  shows "keeps V G A (\<lambda>_. K) K (atomic f)"
  using keeps_atomic [of f V K A G "\<lambda>_ _. True"] assms by simp

lemma keeps_for_each:
  assumes "\<And>x. x \<in> set xs \<Longrightarrow> keeps V G A (\<lambda>_. K) K (f x)"
  shows "keeps V G A (\<lambda>_. K) K (for_each f xs)"
  using assms by (induction xs) (auto intro: keeps.Ret keeps_then_do)

lemma keeps_map_each:
  assumes "\<And>x. x \<in> set xs \<Longrightarrow> keeps V G A (\<lambda>_. K) K (f x)"
  shows "keeps V G A (\<lambda>_. K) K (map_each f xs)"
  using assms
proof (induction xs)
  case (Cons x xs)
  then show ?case by (auto intro!: keeps_then_do [where P = "\<lambda>_. K"] keeps.Ret)
qed (simp add: keeps.Ret)

text \<open>In a run whose steps satisfy \<open>A\<close>, \<open>V\<close> holds throughout and every result is as promised.\<close>

lemma pool_run_keeps:
  assumes "pool_run s0 ps0 ss s ps" "V s0" "successively (\<lambda>s' s. A s s') (s # ss)"
    and "\<And>i. i < length ps0 \<Longrightarrow> keeps V G A (Q i) (\<lambda>_. True) (ps0 ! i)"
  shows "V s \<and> length ps = length ps0 \<and>
    (\<forall>i < length ps. \<exists>K. stable G A K \<and> K s \<and> keeps V G A (Q i) K (ps ! i))"
  using assms(1,3)
proof (induction)
  case start
  with assms(2,4) show ?case by (intro conjI allI impI exI [of _ "\<lambda>_. True"]) simp_all
next
  case (turn ss s ps s' ps')
  have A: "A s s'" and suc: "successively (\<lambda>s' s. A s s') (s # ss)"
    using turn.prems by (simp_all add: successively_Cons)
  note IH = turn.IH [OF suc]
  from turn.hyps(2) obtain i a p where i: "i < length ps" "ps ! i = Act a" "a s = (s', p)" "ps' = ps[i := p]"
    by (rule pool_stepE)
  obtain K where k: "K s" "keeps V G A (Q i) K (Act a)" using IH i by metis
  from k(2) have "V s' \<and> G s s' \<and> (\<exists>K'. stable G A K' \<and> K' s' \<and> keeps V G A (Q i) K' p)"
    by (rule keeps_ActE) (use i(3) IH k(1) A in blast)
  then obtain K' where k': "V s'" "G s s'" "stable G A K'" "K' s'" "keeps V G A (Q i) K' p" by blast
  have "\<exists>K. stable G A K \<and> K s' \<and> keeps V G A (Q j) K (ps' ! j)" if "j < length ps'" for j
  proof (cases "j = i")
    case True
    with k' i show ?thesis by auto
  next
    case False
    have "j < length ps" using that i(4) by simp
    then obtain K where K: "stable G A K" "K s" "keeps V G A (Q j) K (ps ! j)" using IH by metis
    with stableD [OF K(1,2) k'(2) A] False i(4) show ?thesis by (intro exI [of _ K]) auto
  qed
  with IH k'(1) i(4) show ?case by simp
qed

lemma pool_run_result:
  assumes "pool_run s0 ps0 ss s ps" "V s0" "successively (\<lambda>s' s. A s s') (s # ss)"
    and "\<And>i. i < length ps0 \<Longrightarrow> keeps V G A (Q i) (\<lambda>_. True) (ps0 ! i)"
    and "i < length ps" "ps ! i = Ret x"
  shows "V s \<and> Q i x s"
  using pool_run_keeps [OF assms(1-4)] assms(5,6) by (metis keeps_RetE)

end
