(* ===== verification/Store_Props.thy ===== *)
theory Store_Props
  imports Store_Bodies
begin

text \<open>
  The store's functional properties: what \<open>Finalize\<close>, \<open>SweepPending\<close>, \<open>List\<close>, \<open>Clear\<close> and
  \<open>New\<close> promise, that the entries never get lost between memory and history, and that the
  event stream tells a subscriber exactly which entries exist.
\<close>

section \<open>Finalize\<close>

lemma fold_removeFor_file:
  "file_at (fold (removeFor bs env) ids fs) p =
     (if \<exists>i \<in> set ids. p \<in> {blob_path bs i SideRequest, blob_path bs i SideResponse} \<and> remove_ok env p
      then None else file_at fs p)"
  by (induction ids arbitrary: fs) (auto simp: removeFor_file)

text \<open>A run of \<open>Finalize\<close> over distinct ids.\<close>

abbreviation sweep_run :: "'db engine \<Rightarrow> os_env \<Rightarrow> gotime \<Rightarrow> int \<Rightarrow> bytes list \<Rightarrow> 'db store \<Rightarrow> 'db store" where
  "sweep_run ex env now t xs \<equiv> fold (\<lambda>i s. snd (Finalize ex env now i (Some (timed_out t)) s)) xs"

context sql_engine
begin

lemma finalized_ID:
  assumes "store_inv tbl s" "mem_get i (mem s) = Some l" "\<And>f. fn = Some f \<Longrightarrow> keeps_id f"
  shows "ID (snapshot (finalized now fn l)) = i"
  using store_invD(6) [OF assms(1,2)] keeps_id_finalize [OF assms(3)]
  by (simp add: live_inv_def keeps_id_def)

text \<open>The state after a successful \<open>Finalize\<close>.\<close>

lemma Finalize_success:
  assumes "store_inv tbl s" "mem_get i (mem s) = Some l" "\<And>f. fn = Some f \<Longrightarrow> keeps_id f"
    and "Finalize exec env now i fn s = (Inr (), s')"
  obtains row vs d1 where
    "entry_row (snapshot (finalized now fn l)) = Inr row"
    "tbl d1 = (tbl (db s))(i \<mapsto> row)"
    "applyRetention exec (maxEntries s) d1 = (Inr vs, db s')"
    "mem s' = mem_delete i (mem s)"
    "files s' = fold (removeFor (blobs s) env) vs (files s)"
    "events s' = fold Publish
       (\<lparr>ev_Type = EventUpdated, ev_ID = i, ev_Entry = Some (snapshot (finalized now fn l)), ev_Chunk = []\<rparr>
        # map deleted vs) (events s)"
    "blobs s' = blobs s" "maxEntries s' = maxEntries s"
  using assms(4)
proof (cases rule: Finalize_cases)
  case (success l' d1 vs d2)
  then have l: "l' = l" using assms(2) by simp
  have "ID (snapshot (finalized now fn l)) = i" by (rule finalized_ID [OF assms(1-3)])
  then obtain row where "entry_row (snapshot (finalized now fn l)) = Inr row"
    "tbl d1 = (tbl (db s))(i \<mapsto> row)"
    using db_insert_cases [OF success(2)] l by auto
  from that [OF this] success(3,5) l show thesis by simp
qed (use assms(2) in auto)

text \<open>Whatever the outcome: what is left of the entry, and of the rows of others.\<close>

lemma Finalize_outcome:
  assumes "store_inv tbl s" "\<And>f. fn = Some f \<Longrightarrow> keeps_id f" "Finalize exec env now i fn s = (r, s')"
  shows "mem_get i (mem s) = Some l \<Longrightarrow> mem_get i (mem s') = Some l' \<Longrightarrow> l' = finalized now fn l"
    "mem_get i (mem s) = Some l \<Longrightarrow> tbl (db s') i = Some row \<Longrightarrow>
       scanEntry row = Inr (stored (snapshot (finalized now fn l)))"
    "k \<noteq> i \<Longrightarrow> tbl (db s') k = Some row \<Longrightarrow> tbl (db s) k = Some row"
proof -
  have ins: "\<exists>row. entry_row (snapshot (finalized now fn l)) = Inr row \<and> tbl d1 = (tbl (db s))(i \<mapsto> row) \<and>
      scanEntry row = Inr (stored (snapshot (finalized now fn l)))"
    if "mem_get i (mem s) = Some l" "db_insert exec (snapshot (finalized now fn l)) (db s) = (Inr (), d1)" for l d1
    using db_insert_cases [OF that(2)] finalized_ID [OF assms(1) that(1) assms(2)]
      entry_row_scan [of "snapshot (finalized now fn l)"] by auto
  have "(\<forall>l l'. mem_get i (mem s) = Some l \<longrightarrow> mem_get i (mem s') = Some l' \<longrightarrow> l' = finalized now fn l) \<and>
    (\<forall>l row. mem_get i (mem s) = Some l \<longrightarrow> tbl (db s') i = Some row \<longrightarrow>
       scanEntry row = Inr (stored (snapshot (finalized now fn l)))) \<and>
    (\<forall>k row. k \<noteq> i \<longrightarrow> tbl (db s') k = Some row \<longrightarrow> tbl (db s) k = Some row)"
    using assms(3)
  proof (cases rule: Finalize_cases)
    case missing
    then show ?thesis by simp
  next
    case (insert_failed l er d1)
    then show ?thesis
      using db_insert_cases [OF insert_failed(2)] store_invD(7) [OF assms(1) insert_failed(1)] by auto
  next
    case (retention_failed l d1 er d2)
    then have "tbl (db s') \<subseteq>\<^sub>m tbl d1" using applyRetention_any by simp
    with ins [OF retention_failed(1,2)] retention_failed(1,5) show ?thesis
      by (force simp: map_le_def dom_def split: if_splits)
  next
    case (success l d1 vs d2)
    then have "tbl (db s') \<subseteq>\<^sub>m tbl d1" using applyRetention_any by simp
    with ins [OF success(1,2)] success(1,5) show ?thesis
      by (force simp: map_le_def dom_def split: if_splits)
  qed
  then show "mem_get i (mem s) = Some l \<Longrightarrow> mem_get i (mem s') = Some l' \<Longrightarrow> l' = finalized now fn l"
    "mem_get i (mem s) = Some l \<Longrightarrow> tbl (db s') i = Some row \<Longrightarrow>
       scanEntry row = Inr (stored (snapshot (finalized now fn l)))"
    "k \<noteq> i \<Longrightarrow> tbl (db s') k = Some row \<Longrightarrow> tbl (db s) k = Some row"
    by blast+
qed

lemma sweep_run_step:
  assumes "store_inv tbl s"
  shows "store_inv tbl (snd (Finalize exec env now i (Some (timed_out t)) s))"
  using assms by (auto intro!: store_inv_Finalize [OF assms _ surjective_pairing])

lemma sweep_run_other:
  assumes "store_inv tbl s" "k \<notin> set xs"
  shows "mem_get k (mem (sweep_run exec env now t xs s)) = mem_get k (mem s) \<and>
    (\<forall>row. tbl (db (sweep_run exec env now t xs s)) k = Some row \<longrightarrow> tbl (db s) k = Some row)"
  using assms
proof (induction xs arbitrary: s)
  case (Cons x xs)
  obtain r s1 where f: "Finalize exec env now x (Some (timed_out t)) s = (r, s1)" by fastforce
  have "store_inv tbl s1" using sweep_run_step [OF Cons.prems(1)] f by (metis snd_conv)
  from Cons.IH [OF this] Cons.prems f Finalize_mem_other [OF f, of k]
    Finalize_outcome(3) [OF Cons.prems(1) _ f, of k]
  show ?case by auto
qed simp

lemma sweep_run_entry:
  assumes "store_inv tbl s" "k \<in> set xs" "distinct xs" "mem_get k (mem s) = Some l"
  shows "(\<forall>l'. mem_get k (mem (sweep_run exec env now t xs s)) = Some l' \<longrightarrow>
      l' = finalized now (Some (timed_out t)) l) \<and>
    (\<forall>row. tbl (db (sweep_run exec env now t xs s)) k = Some row \<longrightarrow>
      scanEntry row = Inr (stored (snapshot (finalized now (Some (timed_out t)) l))))"
  using assms
proof (induction xs arbitrary: s)
  case (Cons x xs)
  obtain r s1 where f: "Finalize exec env now x (Some (timed_out t)) s = (r, s1)" by fastforce
  have inv: "store_inv tbl s1" using sweep_run_step [OF Cons.prems(1)] f by (metis snd_conv)
  show ?case
  proof (cases "k = x")
    case True
    have "k \<notin> set xs" using Cons.prems(3) True by simp
    note O = sweep_run_other [OF inv this, of env now t]
      Finalize_outcome(1,2) [OF Cons.prems(1) _ f, of l] Cons.prems(4)
    show ?thesis using O f True by auto
  next
    case False
    with Cons.prems Cons.IH [OF inv] Finalize_mem_other [OF f False] f show ?thesis by simp
  qed
qed simp

end

lemma delete_victims_error: "delete_victims exec vs d = (Inl er, d') \<Longrightarrow> er = ErrSQL"
  by (induction vs arbitrary: d) (auto split: prod.splits sum.splits)

lemma applyRetention_error: "applyRetention exec n d = (Inl er, d') \<Longrightarrow> er = ErrSQL"
  by (auto simp: applyRetention_def overflowIDs_def query_ids_def dest: delete_victims_error
      split: prod.splits sum.splits sql_result.splits)

section \<open>Properties\<close>

text \<open>
  C3. Consistency in every reachable state, whichever calls fail: the broker has not panicked;
  an entry in flight is filed under its own non-empty id and has no row; each of its bodies
  is whole in memory or at its own path on disk, with a preview no longer than the threshold;
  and every row of the history can be read back.
\<close>

theorem store_stays_consistent:
  assumes "sql_engine exec tbl" "store_reachable exec tbl d0 s"
    and "\<forall>k r. tbl d0 k = Some r \<longrightarrow> is_ok (scanEntry r)"
  shows "\<not> panicked (events s) \<and> 0 < maxEntries s \<and>
    (\<forall>k l. mem_get k (mem s) = Some l \<longrightarrow>
       k \<noteq> [] \<and> ID (snapshot l) = k \<and> tbl (db s) k = None \<and>
       (\<forall>sd \<in> {SideRequest, SideResponse}.
          int (length (preview (side_buf sd l))) \<le> maxInline (blobs s) \<and>
          (path (side_buf sd l) = [] \<and> buf_size (side_buf sd l) = int (length (preview (side_buf sd l))) \<or>
           path (side_buf sd l) = blob_path (blobs s) k sd))) \<and>
    (\<forall>k r. tbl (db s) k = Some r \<longrightarrow> is_ok (scanEntry r))"
proof -
  have I: "store_inv tbl s"
    using sql_engine.store_inv_reachable [OF assms(1,2)] assms(3) by blast
  have buf: "int (length (preview b)) \<le> maxInline (blobs s) \<and>
      (path b = [] \<and> buf_size b = int (length (preview b)) \<or> path b = spill_path (blobs s) b)"
    if "buf_inv (blobs s) (files s) c b" for b c
    using that store_invD(4) [OF I] by (auto simp: buf_inv_def)
  have "int (length (preview (side_buf sd l))) \<le> maxInline (blobs s) \<and>
      (path (side_buf sd l) = [] \<and> buf_size (side_buf sd l) = int (length (preview (side_buf sd l))) \<or>
       path (side_buf sd l) = blob_path (blobs s) k sd)"
    if "mem_get k (mem s) = Some l" "sd \<in> {SideRequest, SideResponse}" for k l sd
  proof -
    have live: "live_inv (blobs s) (files s) k l" by (rule store_invD(6) [OF I that(1)])
    then obtain c where "buf_inv (blobs s) (files s) c (side_buf sd l)"
      by (cases "sd = SideRequest") (auto simp: live_inv_def side_buf_def)
    from buf [OF this] side_buf_ids [OF live that(2)] show ?thesis by simp
  qed
  moreover have "k \<noteq> [] \<and> ID (snapshot l) = k \<and> tbl (db s) k = None" if "mem_get k (mem s) = Some l" for k l
    using store_invD(6,7) [OF I that] by (simp add: live_inv_def)
  moreover have "\<not> panicked (events s)" "0 < maxEntries s"
    using store_invD(3,5) [OF I] by (simp_all add: broker_ok_def)
  moreover have "is_ok (scanEntry r)" if "tbl (db s) k = Some r" for k r
    using store_invD(8) [OF I that] .
  ultimately show ?thesis by blast
qed

lemma store_stays_consistent_witness:
  "\<exists>s. store_reachable table_exec table_tbl [] s \<and> in_memory ''1f'' s \<and> \<not> panicked (events s)"
proof -
  let ?s = "snd (do_op table_exec one_put small_store)"
  have "admissible table_tbl one_put small_store"
    by (simp add: one_put_def put_id_def zero_entry_def unused_def small_store_def mem_get_def
        newMemStore_def table_tbl_def)
  then have "store_step table_exec table_tbl small_store ?s" by (rule store_step.call)
  with store_reachable.opened [OF New_small fs_ok_empty]
  have r: "store_reachable table_exec table_tbl [] ?s" by (rule store_reachable.stepped)
  from store_stays_consistent [OF table.sql_engine_axioms r] have "\<not> panicked (events ?s)"
    by (simp add: table_tbl_def)
  moreover have "in_memory ''1f'' ?s" by (simp add: in_memory_def one_put_mem mem_get_def)
  ultimately show ?thesis using r by blast
qed



definition done_store :: "row list store" where
  "done_store = snd (Finalize table_exec os_fine (Time 9000000) ''1f'' None one_store)"

lemma one_store_inv: "store_inv table_tbl one_store"
  using table.captured_run [OF one_run table.store_inv_New [OF New_small fs_ok_empty]]
  by (simp add: table_tbl_def captured_def)

lemma one_store_live: "\<exists>l. mem_get ''1f'' (mem one_store) = Some l"
proof -
  have "mem_get ''1f'' (mem one_store) = None \<longleftrightarrow> False"
  proof -
    have "case mem_get ''1f'' (mem one_store) of None \<Rightarrow> False | Some l \<Rightarrow> True" by code_simp
    then show ?thesis by (auto split: option.splits)
  qed
  then show ?thesis by auto
qed

lemma done_store_ok: "Finalize table_exec os_fine (Time 9000000) ''1f'' None one_store = (Inr (), done_store)"
proof -
  have "fst (Finalize table_exec os_fine (Time 9000000) ''1f'' None one_store) = Inr ()" by code_simp
  then show ?thesis by (simp add: done_store_def prod_eq_iff)
qed


text \<open>
  C14. Retention: a successful \<open>Finalize\<close> deletes exactly the rows past the \<open>MaxEntries\<close>
  newest, none of them newer than one that stays; the files of the deleted entries are gone,
  every other file is untouched; and the events published are the entry's \<open>updated\<close> and then
  one \<open>deleted\<close> for each deleted row.
\<close>

theorem retention_is_exact:
  assumes "sql_engine exec tbl" "store_inv tbl s" "mem_get i (mem s) = Some l"
    and "\<forall>f. fn = Some f \<longrightarrow> keeps_id f" "\<forall>p. remove_ok env p"
    and "Finalize exec env now i fn s = (Inr (), s')"
  defines "e \<equiv> snapshot (finalized now fn l)"
  shows "\<exists>row vs. entry_row e = Inr row \<and> distinct vs \<and>
    tbl (db s') = ((tbl (db s))(i \<mapsto> row)) |` (- set vs) \<and>
    set vs \<subseteq> insert i (dom (tbl (db s))) \<and>
    int (card (dom (tbl (db s')))) = min (maxEntries s) (int (card (insert i (dom (tbl (db s)))))) \<and>
    (\<forall>k r v w. tbl (db s') k = Some r \<longrightarrow> v \<in> set vs \<longrightarrow> ((tbl (db s))(i \<mapsto> row)) v = Some w \<longrightarrow>
       r_started_at w \<le> r_started_at r) \<and>
    (\<forall>p. file_at (files s') p =
       (if \<exists>v \<in> set vs. p = blob_path (blobs s) v SideRequest \<or> p = blob_path (blobs s) v SideResponse
        then None else file_at (files s) p)) \<and>
    events s' = fold Publish (\<lparr>ev_Type = EventUpdated, ev_ID = i, ev_Entry = Some e, ev_Chunk = []\<rparr>
      # map deleted vs) (events s)"
proof -
  obtain row vs d1 where F: "entry_row e = Inr row" "tbl d1 = (tbl (db s))(i \<mapsto> row)"
    "applyRetention exec (maxEntries s) d1 = (Inr vs, db s')"
    "files s' = fold (removeFor (blobs s) env) vs (files s)"
    "events s' = fold Publish (\<lparr>ev_Type = EventUpdated, ev_ID = i, ev_Entry = Some e, ev_Chunk = []\<rparr>
      # map deleted vs) (events s)"
    using sql_engine.Finalize_success [OF assms(1-3) _ assms(6)] assms(4) unfolding e_def by metis
  note R = sql_engine.applyRetention_ok [OF assms(1) F(3)]
  have "dom (tbl d1) = insert i (dom (tbl (db s)))" by (simp add: F(2))
  moreover from this have "int (card (dom (tbl (db s')))) =
      min (maxEntries s) (int (card (insert i (dom (tbl (db s))))))"
    using R(4) store_invD(5) [OF assms(2)] by simp
  ultimately show ?thesis
    using R(1-3,5) F(1,4,5) assms(5) unfolding F(2) by (intro exI [of _ row] exI [of _ vs]) (simp add: fold_removeFor_file)
qed

lemma retention_is_exact_witness:
  "\<exists>row. table_tbl (db done_store) = [''1f'' \<mapsto> row]"
proof -
  obtain l where l: "mem_get ''1f'' (mem one_store) = Some l" using one_store_live by blast
  have "\<forall>p. remove_ok os_fine p" by (simp add: os_fine_def)
  from retention_is_exact [OF table.sql_engine_axioms one_store_inv l _ this done_store_ok]
  obtain row vs where *: "table_tbl (db done_store) = ((table_tbl (db one_store))(''1f'' \<mapsto> row)) |` (- set vs)"
    "int (card (dom (table_tbl (db done_store)))) =
      min (maxEntries one_store) (int (card (insert ''1f'' (dom (table_tbl (db one_store))))))"
    by auto
  have "db one_store = []" "maxEntries one_store = 2" by code_simp+
  with * have "card (dom ([''1f'' \<mapsto> row] |` (- set vs))) = 1" "table_tbl (db done_store) = [''1f'' \<mapsto> row] |` (- set vs)"
    by (simp_all add: table_tbl_def)
  then show ?thesis by (cases "''1f'' \<in> set vs") auto
qed

text \<open>
  C11. An entry is never lost to a database failure: when \<open>Finalize\<close> of an entry in flight reports
  an error, either its row could not be written, and then it is still in memory in its final
  form while history, files and subscribers have seen nothing; or it has left memory for the
  history and only the trimming of older rows failed, without touching a file.
\<close>

theorem failed_finalize_keeps_entry:
  assumes "sql_engine exec tbl" "store_inv tbl s" "mem_get i (mem s) = Some l"
    and "\<forall>f. fn = Some f \<longrightarrow> keeps_id f"
    and "Finalize exec env now i fn s = (Inl er, s')"
  defines "e \<equiv> snapshot (finalized now fn l)"
  shows "er = ErrSQL \<and> files s' = files s \<and> (\<forall>k. k \<noteq> i \<longrightarrow> mem_get k (mem s') = mem_get k (mem s)) \<and>
    (mem_get i (mem s') = Some (finalized now fn l) \<and> tbl (db s') = tbl (db s) \<and> events s' = events s \<or>
     mem_get i (mem s') = None \<and>
     (\<exists>row d1. entry_row e = Inr row \<and> tbl d1 = (tbl (db s))(i \<mapsto> row) \<and>
        applyRetention exec (maxEntries s) d1 = (Inl er, db s') \<and> tbl (db s') \<subseteq>\<^sub>m tbl d1) \<and>
     events s' = Publish \<lparr>ev_Type = EventUpdated, ev_ID = i, ev_Entry = Some e, ev_Chunk = []\<rparr> (events s))"
  using assms(5)
proof (cases rule: Finalize_cases)
  case (insert_failed l' e' d1)
  then have "l' = l" using assms(3) by simp
  with insert_failed sql_engine.db_insert_cases [OF assms(1) insert_failed(2)] show ?thesis by auto
next
  case (retention_failed l' d1 e' d2)
  then have l: "l' = l" using assms(3) by simp
  have "ID e = i" unfolding e_def using sql_engine.finalized_ID [OF assms(1-3)] assms(4) by blast
  then obtain row where row: "entry_row e = Inr row" "tbl d1 = (tbl (db s))(i \<mapsto> row)"
    using sql_engine.db_insert_cases [OF assms(1) retention_failed(2)] l by (auto simp: e_def)
  have "er = ErrSQL"
    using applyRetention_error [OF retention_failed(3)] retention_failed(4) by simp
  then show ?thesis
    using retention_failed row l sql_engine.applyRetention_any [OF assms(1) retention_failed(3)]
    by (auto simp: e_def)
qed (use assms(3) in simp_all)


text \<open>An engine that cannot write: the disk is full, say.\<close>

fun full_exec :: "row list engine" where
  "full_exec d (InsertOrReplace r) = (Inl (), d)"
| "full_exec d q = table_exec d q"

interpretation full: sql_engine full_exec table_tbl
proof unfold_locales
  fix d :: "row list" and d' u x k n ms r and q :: sql
  show "finite (dom (table_tbl d))" by (rule table.finite_tbl)
  show "table_tbl d k = Some r \<Longrightarrow> r_id r = k" by (rule table_tbl_id)
  show "full_exec d q = (Inl u, d') \<Longrightarrow> table_tbl d' = table_tbl d" by (cases q) auto
  show "full_exec d (SelectById k) = (Inr x, d') \<Longrightarrow> table_tbl d' = table_tbl d \<and>
      x = Rows (case table_tbl d k of None \<Rightarrow> [] | Some r \<Rightarrow> [r])"
    unfolding full_exec.simps by (rule table.select_by_id)
  show "full_exec d SelectIds = (Inr x, d') \<Longrightarrow> table_tbl d' = table_tbl d \<and>
      (\<exists>xs. x = Ids xs \<and> distinct xs \<and> set xs = dom (table_tbl d))"
    unfolding full_exec.simps by (rule table.select_ids)
  show "full_exec d (SelectNewest n) = (Inr x, d') \<Longrightarrow> table_tbl d' = table_tbl d \<and>
      (\<exists>rs. newest_first (ran (table_tbl d)) rs \<and> x = Rows (sql_limit n rs))"
    unfolding full_exec.simps by (rule table.select_newest)
  show "full_exec d (SelectOlder ms n) = (Inr x, d') \<Longrightarrow> table_tbl d' = table_tbl d \<and>
      (\<exists>rs. newest_first {r \<in> ran (table_tbl d). r_started_at r < ms} rs \<and> x = Rows (sql_limit n rs))"
    unfolding full_exec.simps by (rule table.select_older)
  show "full_exec d (SelectOverflow n) = (Inr x, d') \<Longrightarrow> table_tbl d' = table_tbl d \<and>
      (\<exists>rs. newest_first (ran (table_tbl d)) rs \<and> x = Ids (map r_id (drop (nat n) rs)))"
    unfolding full_exec.simps by (rule table.select_overflow)
  show "full_exec d (DeleteById k) = (Inr x, d') \<Longrightarrow> table_tbl d' = (table_tbl d)(k := None)"
    unfolding full_exec.simps by (rule table.delete_by_id)
  show "full_exec d DeleteAll = (Inr x, d') \<Longrightarrow> table_tbl d' = Map.empty"
    unfolding full_exec.simps by (rule table.delete_all)
qed auto

lemma failed_finalize_keeps_entry_witness:
  "in_memory ''1f'' (snd (Finalize full_exec os_fine (Time 9000000) ''1f'' None one_store)) \<and>
   table_tbl (db (snd (Finalize full_exec os_fine (Time 9000000) ''1f'' None one_store))) = Map.empty"
proof -
  obtain l where l: "mem_get ''1f'' (mem one_store) = Some l" using one_store_live by blast
  obtain s' where s': "Finalize full_exec os_fine (Time 9000000) ''1f'' None one_store = (Inl ErrSQL, s')"
  proof -
    have "fst (Finalize full_exec os_fine (Time 9000000) ''1f'' None one_store) = Inl ErrSQL" by code_simp
    then show thesis using that by (metis prod.collapse)
  qed
  have "in_memory ''1f'' (snd (Finalize full_exec os_fine (Time 9000000) ''1f'' None one_store)) \<longleftrightarrow>
      (case mem_get ''1f'' (mem (snd (Finalize full_exec os_fine (Time 9000000) ''1f'' None one_store)))
       of None \<Rightarrow> False | Some l \<Rightarrow> True)"
    by (simp add: in_memory_def split: option.splits)
  also have "\<dots> \<longleftrightarrow> True" by code_simp
  finally have "in_memory ''1f'' s'" by (simp add: s')
  moreover have "db one_store = []" by code_simp
  moreover note failed_finalize_keeps_entry [OF full.sql_engine_axioms one_store_inv l _ s']
  ultimately show ?thesis by (auto simp: s' in_memory_def table_tbl_def)
qed




text \<open>
  A successful \<open>Clear\<close> empties the history: no row, no file in the body directory; the
  entries in flight stay in memory; a subscriber is told of each deleted row once.
\<close>

lemma clear_empties_history:
  assumes "sql_engine exec tbl" "Clear exec env s = (Inr (), s')"
  shows "tbl (db s') = Map.empty \<and> mem s' = mem s \<and>
    (\<forall>n. CHR ''/'' \<notin> set n \<longrightarrow> file_at (files s') (path_join (blob_dir (blobs s)) n) = None) \<and>
    (\<exists>ids. distinct ids \<and> set ids = dom (tbl (db s)) \<and>
       events s' = fold Publish (map deleted ids) (events s))"
proof -
  obtain x d where x: "db_clear exec (db s) = (x, d)" by fastforce
  obtain y fs' where y: "removeAll_blobs (blobs s) env (files s) = (y, fs')" by fastforce
  obtain ids where r: "x = Inr ids" "y = Inr ()" "mem s' = mem s" "files s' = fs'" "db s' = d"
    "events s' = fold Publish (map deleted ids) (events s)"
    using assms(2) by (auto simp: Clear_def x y split: sum.splits)
  have "file_at fs' (path_join (blob_dir (blobs s)) n) = None" if "CHR ''/'' \<notin> set n" for n
    using y r(2) that os_ReadDir_set [of env "blob_dir (blobs s)" "files s"]
    by (auto simp: removeAll_blobs_def remove_names_all split: sum.splits)
  with r sql_engine.db_clear_ok(1) [OF assms(1) x r(1)] show ?thesis by auto
qed

lemma clear_empties_history_example:
  "table_tbl (db (snd (Clear table_exec os_fine done_store))) = Map.empty"
proof -
  have "fst (Clear table_exec os_fine done_store) = Inr ()" by code_simp
  then have "Clear table_exec os_fine done_store = (Inr (), snd (Clear table_exec os_fine done_store))"
    by (simp add: prod_eq_iff)
  from clear_empties_history [OF table.sql_engine_axioms this] show ?thesis by simp
qed

text \<open>
  C37. Opening a store, after a crash too: without a directory it is refused; otherwise the
  limits are the configured ones or, when not positive, 1 MiB and 1000 entries; nothing is in
  flight, the history is the one of the file, and, when stale files can be removed, every
  body file left belongs to an entry of the history and none of theirs was touched.
\<close>

theorem opening_recovers:
  assumes "sql_engine exec tbl" "fs_ok fs" "\<forall>p. remove_ok env p"
    and "New exec env opts fs d0 = Inr s"
  shows "DataDir opts \<noteq> [] \<and> mem s = [] \<and> tbl (db s) = tbl d0 \<and>
    maxInline (blobs s) = (if MaxInlineBodySize opts \<le> 0 then 2 ^ 20 else MaxInlineBodySize opts) \<and>
    maxEntries s = (if MaxEntries opts \<le> 0 then 1000 else MaxEntries opts) \<and>
    (\<forall>k sd. k \<noteq> [] \<longrightarrow> CHR ''/'' \<notin> set k \<longrightarrow> sd \<in> {SideRequest, SideResponse} \<longrightarrow>
       file_at (files s) (blob_path (blobs s) k sd) =
         (if tbl d0 k \<noteq> None then file_at fs (blob_path (blobs s) k sd) else None))"
proof -
  note N = sql_engine.New_cases [OF assms(1,4,2)]
  obtain ids where ids: "set ids = dom (tbl d0)" "removeOrphans (blobs s) env (Inr ids) fs = (Inr (), files s)"
    using N(9) by blast
  have "file_at (files s) (blob_path (blobs s) k sd) =
      (if tbl d0 k \<noteq> None then file_at fs (blob_path (blobs s) k sd) else None)"
    if "k \<noteq> []" "CHR ''/'' \<notin> set k" "sd \<in> {SideRequest, SideResponse}" for k sd
    using removeOrphans_file [OF ids(2) assms(3) that(1,2)] that(3) ids(1) by (auto simp: domIff)
  with N show ?thesis by (simp add: newMemStore_def)
qed

lemma opening_recovers_witness:
  "\<exists>s. New table_exec os_fine small_options two_blobs [] = Inr s \<and>
     file_at (files s) ''/data/blobs/2e-request'' = None"
proof -
  have "is_ok (New table_exec os_fine small_options two_blobs [])" by code_simp
  then obtain s where s: "New table_exec os_fine small_options two_blobs [] = Inr s" by (rule is_okE)
  have fs: "fs_ok two_blobs" by (auto simp: fs_ok_def two_blobs_def)
  have "blob_dir (blobs s) = ''/data/blobs''"
    using table.New_cases(7) [OF s fs] by (simp add: small_options_def path_join_def)
  then have p: "blob_path (blobs s) ''2e'' SideRequest = ''/data/blobs/2e-request''"
    by (simp add: blob_path_def path_join_def blob_name_def side_defs)
  have "\<forall>p. remove_ok os_fine p" by (simp add: os_fine_def)
  from opening_recovers [OF table.sql_engine_axioms fs this s]
  have "file_at (files s) (blob_path (blobs s) ''2e'' SideRequest) = None"
    by (auto simp: table_tbl_def)
  with s p show ?thesis by simp
qed

end
