(* ===== verification/Store_Threads.thy ===== *)
theory Store_Threads
  imports Threads Store_Props
begin

text \<open>
  The store's operations as goroutines run them (\<open>internal/store/store.go\<close>): the sections between which
  another goroutine may run are one access to the memory's map under its mutex, one to a live entry
  or a body buffer under theirs, one statement of the engine, one call of the operating system on the
  directory, and one publication. A live entry is reached through a pointer, which stays good
  after its entry has left the map: the heap maps addresses to live entries.
\<close>

record 'db shared =
  sh_map :: "(bytes \<times> nat) list"
  sh_heap :: "nat \<Rightarrow> liveEntry"
  sh_next :: nat
  sh_db :: 'db
  sh_blobs :: blobStore
  sh_files :: fs
  sh_events :: broker
  sh_cap :: int

text \<open>The store of the other theories that a shared state stands for.\<close>

definition seen :: "'db shared \<Rightarrow> 'db store" where
  "seen s = \<lparr>mem = map (\<lambda>(k, a). (k, sh_heap s a)) (sh_map s), db = sh_db s, blobs = sh_blobs s,
     files = sh_files s, events = sh_events s, maxEntries = sh_cap s\<rparr>"

section \<open>The sections\<close>

definition sh_get :: "bytes \<Rightarrow> 'db shared \<Rightarrow> nat option" where
  "sh_get k s = map_of (sh_map s) k"

definition sh_put :: "gotime \<Rightarrow> entry \<Rightarrow> 'db shared \<Rightarrow> nat \<times> 'db shared" where
  "sh_put now e s =
     (let a = sh_next s;
          live = \<lparr>l_entry = e, req = buffer (ID e) SideRequest, resp = buffer (ID e) SideResponse, lastSeen = now\<rparr>
      in (a, s\<lparr>sh_map := AList.update (ID e) a (sh_map s), sh_heap := (sh_heap s)(a := live),
               sh_next := Suc a\<rparr>))"

definition sh_delete :: "bytes \<Rightarrow> 'db shared \<Rightarrow> 'db shared" where
  "sh_delete k s = s\<lparr>sh_map := AList.delete k (sh_map s)\<rparr>"

definition at_live :: "nat \<Rightarrow> (liveEntry \<Rightarrow> liveEntry) \<Rightarrow> 'db shared \<Rightarrow> 'db shared" where
  "at_live a f s = s\<lparr>sh_heap := (sh_heap s)(a := f (sh_heap s a))\<rparr>"

definition sh_write ::
  "side \<Rightarrow> os_env \<Rightarrow> nat \<Rightarrow> bytes \<Rightarrow> 'db shared \<Rightarrow> (go_error + nat) \<times> 'db shared" where
  "sh_write sd env a p s =
     (let l = sh_heap s a;
          (r, b, fs) = buf_Write (sh_blobs s) env p (if sd = SideRequest then req l else resp l) (sh_files s)
      in (r, (at_live a (if sd = SideRequest then req_update (\<lambda>_. b) else resp_update (\<lambda>_. b)) s)\<lparr>sh_files := fs\<rparr>))"

definition sh_exec :: "('db \<Rightarrow> 'a \<times> 'db) \<Rightarrow> 'db shared \<Rightarrow> 'a \<times> 'db shared" where
  "sh_exec q s = (case q (sh_db s) of (x, d) \<Rightarrow> (x, s\<lparr>sh_db := d\<rparr>))"

definition sh_publish :: "event_type \<Rightarrow> bytes \<Rightarrow> entry option \<Rightarrow> bytes \<Rightarrow> 'db shared \<Rightarrow> 'db shared" where
  "sh_publish ty i e c s =
     s\<lparr>sh_events := Publish \<lparr>ev_Type = ty, ev_ID = i, ev_Entry = e, ev_Chunk = c\<rparr> (sh_events s)\<rparr>"

definition sh_remove ::
  "os_env \<Rightarrow> (blobStore \<Rightarrow> bytes) \<Rightarrow> 'db shared \<Rightarrow> (go_error + unit) \<times> 'db shared" where
  "sh_remove env p s =
     (case os_Remove env (p (sh_blobs s)) (sh_files s) of (r, fs) \<Rightarrow> (r, s\<lparr>sh_files := fs\<rparr>))"

section \<open>The operations\<close>

type_synonym ('db, 'r) task = "('db shared, 'r) proc"

text \<open>\<open>liveEntry.snapshot\<close>: the entry, then the state of each buffer.\<close>

definition snapshot_task :: "nat \<Rightarrow> ('db, entry) task" where
  "snapshot_task a =
     then_do (reading (\<lambda>s. Clone (l_entry (sh_heap s a)))) (\<lambda>e.
     then_do (reading (\<lambda>s. buf_state (req (sh_heap s a)))) (\<lambda>(rb, rp, rs, rsp).
     then_do (reading (\<lambda>s. buf_state (resp (sh_heap s a)))) (\<lambda>(pb, pp, ps, psp).
     Ret (e\<lparr>RequestBody := rb, RequestBodyPath := rp, RequestBodySize := rs, RequestSpilled := rsp,
            ResponseBody := pb, ResponseBodyPath := pp, ResponseBodySize := ps, ResponseSpilled := psp\<rparr>))))"

definition Put_task :: "gotime \<Rightarrow> bytes option \<Rightarrow> entry \<Rightarrow> ('db, go_error + bytes) task" where
  "Put_task now rnd e =
     (case put_id rnd e of
        Inl er \<Rightarrow> Ret (Inl er)
      | Inr i \<Rightarrow>
        then_do (atomic (sh_put now (with_defaults now i e))) (\<lambda>a.
        then_do (snapshot_task a) (\<lambda>sn.
        then_do (doing (sh_publish EventCreated i (Some sn) [])) (\<lambda>_. Ret (Inr i)))))"

definition SetRequestBody_task :: "os_env \<Rightarrow> bytes \<Rightarrow> bytes \<Rightarrow> ('db, go_error + unit) task" where
  "SetRequestBody_task env i body =
     then_do (reading (sh_get i)) (\<lambda>live. case live of
        None \<Rightarrow> Ret (Inl ErrNotFound)
      | Some a \<Rightarrow> then_do (atomic (sh_write SideRequest env a body)) (\<lambda>r. Ret (map_sum id (\<lambda>_. ()) r)))"

definition append_task :: "os_env \<Rightarrow> gotime \<Rightarrow> bytes \<Rightarrow> bytes \<Rightarrow> bool \<Rightarrow> nat \<Rightarrow> ('db, go_error + unit) task" where
  "append_task env now i chunk emitDelta a =
     then_do (atomic (sh_write SideResponse env a chunk)) (\<lambda>r. case r of
        Inl er \<Rightarrow> Ret (Inl er)
      | Inr _ \<Rightarrow>
        then_do (doing (at_live a (touch now))) (\<lambda>_.
          if emitDelta \<and> length chunk > 0
          then then_do (doing (sh_publish EventDelta i None chunk)) (\<lambda>_. Ret (Inr ()))
          else Ret (Inr ())))"

definition AppendResponse_task ::
  "os_env \<Rightarrow> gotime \<Rightarrow> bytes \<Rightarrow> bytes \<Rightarrow> bool \<Rightarrow> ('db, go_error + unit) task" where
  "AppendResponse_task env now i chunk emitDelta =
     then_do (reading (sh_get i)) (\<lambda>live. case live of
        None \<Rightarrow> Ret (Inl ErrNotFound)
      | Some a \<Rightarrow> append_task env now i chunk emitDelta a)"

definition Update_task :: "gotime \<Rightarrow> bytes \<Rightarrow> (entry \<Rightarrow> entry) \<Rightarrow> ('db, go_error + unit) task" where
  "Update_task now i fn =
     then_do (reading (sh_get i)) (\<lambda>live. case live of
        None \<Rightarrow> Ret (Inl ErrNotFound)
      | Some a \<Rightarrow>
        then_do (doing (at_live a (live_update now fn))) (\<lambda>_.
        then_do (snapshot_task a) (\<lambda>e.
        then_do (doing (sh_publish EventUpdated i (Some e) [])) (\<lambda>_. Ret (Inr ())))))"

text \<open>\<open>sqlDB.applyRetention\<close>: the query, then one statement per row.\<close>

fun delete_task :: "'db engine \<Rightarrow> bytes list \<Rightarrow> ('db, go_error + unit) task" where
  "delete_task exec [] = Ret (Inr ())"
| "delete_task exec (i # is) =
     then_do (atomic (sh_exec (\<lambda>d. exec d (DeleteById i)))) (\<lambda>r. case r of
        Inl _ \<Rightarrow> Ret (Inl ErrSQL)
      | Inr _ \<Rightarrow> delete_task exec is)"

definition retention_task :: "'db engine \<Rightarrow> ('db, go_error + bytes list) task" where
  "retention_task exec =
     then_do (atomic (\<lambda>s. sh_exec (overflowIDs exec (sh_cap s)) s)) (\<lambda>r. case r of
        Inl er \<Rightarrow> Ret (Inl er)
      | Inr victims \<Rightarrow>
        then_do (delete_task exec victims) (\<lambda>r. case r of
           Inl er \<Rightarrow> Ret (Inl er)
         | Inr _ \<Rightarrow> Ret (Inr victims)))"

definition purge_task :: "os_env \<Rightarrow> bytes \<Rightarrow> ('db, unit) task" where
  "purge_task env i =
     then_do (for_each (\<lambda>sd. then_do (atomic (sh_remove env (\<lambda>bs. blob_path bs i sd))) (\<lambda>_. Ret ()))
       [SideRequest, SideResponse]) (\<lambda>_.
     doing (sh_publish EventDeleted i None []))"

text \<open>\<open>Finalize\<close>: closing the live entry, then recording its snapshot.\<close>

definition close_task :: "gotime \<Rightarrow> (entry \<Rightarrow> entry) option \<Rightarrow> nat \<Rightarrow> ('db, entry) task" where
  "close_task now fn a =
     then_do (doing (at_live a (live_update now (finalize_entry now fn)))) (\<lambda>_.
     then_do (doing (at_live a (req_update buf_Close))) (\<lambda>_.
     then_do (doing (at_live a (resp_update buf_Close))) (\<lambda>_.
     snapshot_task a)))"

definition record_task :: "'db engine \<Rightarrow> os_env \<Rightarrow> bytes \<Rightarrow> entry \<Rightarrow> ('db, go_error + unit) task" where
  "record_task exec env i e =
     then_do (atomic (sh_exec (db_insert exec e))) (\<lambda>r. case r of
        Inl er \<Rightarrow> Ret (Inl er)
      | Inr _ \<Rightarrow>
        then_do (doing (sh_delete i)) (\<lambda>_.
        then_do (doing (sh_publish EventUpdated i (Some e) [])) (\<lambda>_.
        then_do (retention_task exec) (\<lambda>r. case r of
           Inl er \<Rightarrow> Ret (Inl er)
         | Inr purged \<Rightarrow> then_do (for_each (purge_task env) purged) (\<lambda>_. Ret (Inr ()))))))"

definition Finalize_task ::
  "'db engine \<Rightarrow> os_env \<Rightarrow> gotime \<Rightarrow> bytes \<Rightarrow> (entry \<Rightarrow> entry) option \<Rightarrow> ('db, go_error + unit) task" where
  "Finalize_task exec env now i fn =
     then_do (reading (sh_get i)) (\<lambda>live. case live of
        None \<Rightarrow> Ret (Inl ErrNotFound)
      | Some a \<Rightarrow> then_do (close_task now fn a) (record_task exec env i))"

definition Get_task :: "'db engine \<Rightarrow> bytes \<Rightarrow> ('db, go_error + entry) task" where
  "Get_task exec i =
     then_do (reading (sh_get i)) (\<lambda>live. case live of
        Some a \<Rightarrow> then_do (snapshot_task a) (\<lambda>e. Ret (Inr e))
      | None \<Rightarrow> atomic (sh_exec (db_get exec i)))"

text \<open>\<open>memStore.list\<close>: the pointers under the lock, then a snapshot of each.\<close>

definition mem_list_task :: "gotime \<Rightarrow> ('db, entry list) task" where
  "mem_list_task before =
     then_do (reading (\<lambda>s. map snd (sh_map s))) (\<lambda>live.
     then_do (map_each snapshot_task live) (\<lambda>es.
     Ret (filter (\<lambda>e. \<not> (\<not> IsZero before \<and> \<not> Before (StartedAt e) before)) es)))"

definition List_task :: "'db engine \<Rightarrow> int \<Rightarrow> gotime \<Rightarrow> ('db, go_error + entry list) task" where
  "List_task exec limit0 before =
     (let limit = (if limit0 \<le> 0 then 100 else limit0) in
      then_do (atomic (sh_exec (db_list exec limit before))) (\<lambda>r. case r of
         Inl er \<Rightarrow> Ret (Inl er)
       | Inr rows \<Rightarrow>
         then_do (mem_list_task before) (\<lambda>pending.
           let merged = sort_newest (pending @ rows)
           in Ret (Inr (if int (length merged) > limit then take (nat limit) merged else merged)))))"

definition Body_task ::
  "'db engine \<Rightarrow> os_env \<Rightarrow> bytes \<Rightarrow> side \<Rightarrow> ('db, go_error + bytes \<times> int) task" where
  "Body_task exec env i sd =
     then_do (Get_task exec i) (\<lambda>r. case r of
        Inl er \<Rightarrow> Ret (Inl er)
      | Inr e \<Rightarrow>
        (let (pth, inline, sz) =
           (if sd = SideRequest then (RequestBodyPath e, RequestBody e, RequestBodySize e)
            else (ResponseBodyPath e, ResponseBody e, ResponseBodySize e))
         in if pth \<noteq> [] then
              then_do (reading (\<lambda>s. os_Open env pth (sh_files s))) (\<lambda>r. Ret (map_sum id (\<lambda>c. (c, sz)) r))
            else Ret (Inr (inline, sz))))"

fun remove_task :: "os_env \<Rightarrow> bytes list \<Rightarrow> ('db, go_error + unit) task" where
  "remove_task env [] = Ret (Inr ())"
| "remove_task env (n # ns) =
     then_do (atomic (sh_remove env (\<lambda>bs. path_join (blob_dir bs) n))) (\<lambda>r. case r of
        Inl er \<Rightarrow> Ret (Inl er)
      | Inr _ \<Rightarrow> remove_task env ns)"

definition Clear_task :: "'db engine \<Rightarrow> os_env \<Rightarrow> ('db, go_error + unit) task" where
  "Clear_task exec env =
     then_do (atomic (sh_exec (knownIDs exec))) (\<lambda>r. case r of
        Inl er \<Rightarrow> Ret (Inl er)
      | Inr ids \<Rightarrow>
        then_do (atomic (sh_exec (\<lambda>d. exec d DeleteAll))) (\<lambda>r. case r of
           Inl _ \<Rightarrow> Ret (Inl ErrSQL)
         | Inr _ \<Rightarrow>
           then_do (reading (\<lambda>s. os_ReadDir env (blob_dir (sh_blobs s)) (sh_files s))) (\<lambda>r. case r of
              Inl er \<Rightarrow> Ret (Inl er)
            | Inr ns \<Rightarrow>
              then_do (remove_task env ns) (\<lambda>r. case r of
                 Inl er \<Rightarrow> Ret (Inl er)
               | Inr _ \<Rightarrow>
                 then_do (for_each (\<lambda>i. doing (sh_publish EventDeleted i None [])) ids) (\<lambda>_. Ret (Inr ()))))))"

text \<open>
  \<open>memStore.staleIDs\<close>: the map's entries, then the time of each under its own lock. (The map's lock is
  held throughout, so that these runs include those of the program.)
\<close>

definition stale_task :: "gotime \<Rightarrow> int \<Rightarrow> ('db, bytes list) task" where
  "stale_task now timeout =
     (let cutoff = Add now (- timeout) in
      then_do (reading sh_map) (\<lambda>m.
      then_do (map_each (\<lambda>(i, a). reading (\<lambda>s. (i, Before (lastSeen (sh_heap s a)) cutoff))) m) (\<lambda>seen_before.
      Ret (map fst (filter snd seen_before)))))"

definition SweepPending_task ::
  "'db engine \<Rightarrow> os_env \<Rightarrow> gotime \<Rightarrow> int \<Rightarrow> ('db, nat) task" where
  "SweepPending_task exec env now timeout =
     then_do (stale_task now timeout) (\<lambda>stale.
     then_do (for_each (\<lambda>i. then_do (Finalize_task exec env now i (Some (timed_out timeout))) (\<lambda>_. Ret ()))
       stale) (\<lambda>_. Ret (length stale)))"

end
