(* ===== verification/Store_Alone.thy ===== *)
theory Store_Alone
  imports Store_Threads
begin

text \<open>
  A task that is not interrupted is the operation of theory \<open>Store\<close>: both models of an operation are the
  same when it runs alone, so what is proved of the atomic operations holds of the tasks then.
\<close>

definition sh_ok :: "'db shared \<Rightarrow> bool" where
  "sh_ok s \<longleftrightarrow> distinct (map fst (sh_map s)) \<and> distinct (map snd (sh_map s)) \<and>
     (\<forall>(k, a) \<in> set (sh_map s). a < sh_next s)"

lemma seen_simps [simp]:
  "db (seen s) = sh_db s" "blobs (seen s) = sh_blobs s" "files (seen s) = sh_files s"
  "events (seen s) = sh_events s" "maxEntries (seen s) = sh_cap s"
  by (simp_all add: seen_def)

lemma mem_seen [simp]: "mem_get k (mem (seen s)) = map_option (sh_heap s) (sh_get k s)"
  by (simp add: seen_def mem_get_def sh_get_def map_of_map)

lemma sh_get_in: "sh_ok s \<Longrightarrow> sh_get i s = Some a \<longleftrightarrow> (i, a) \<in> set (sh_map s)"
  by (simp add: sh_ok_def sh_get_def)

lemma heap_update:
  assumes "distinct (map fst m)" "distinct (map snd m)" "(k, a) \<in> set m"
  shows "map (\<lambda>(k, b). (k, (h(a := v)) b)) m = AList.update k v (map (\<lambda>(k, b). (k, h b)) m)"
  using assms
proof (induction m)
  case (Cons x m)
  obtain j b where x: "x = (j, b)" by (cases x)
  show ?case
  proof (cases "j = k")
    case True
    with Cons.prems x have "b = a" "a \<notin> set (map snd m)" by (auto simp: image_iff)
    then have "map (\<lambda>(k, b). (k, (h(a := v)) b)) m = map (\<lambda>(k, b). (k, h b)) m"
      by (intro map_cong) (auto simp: image_iff)
    with True x \<open>b = a\<close> show ?thesis by simp
  next
    case False
    with Cons.prems x have "(k, a) \<in> set m" "b \<noteq> a" by (auto simp: image_iff)
    with Cons.IH Cons.prems False x show ?thesis by simp
  qed
qed simp

lemma seen_at_live:
  assumes "sh_ok s" "sh_get i s = Some a"
  shows "seen (at_live a f s) = (seen s)\<lparr>mem := mem_set i (f (sh_heap s a)) (mem (seen s))\<rparr>"
  using heap_update [of "sh_map s" i a "sh_heap s"] assms sh_get_in [OF assms(1)]
  by (simp add: seen_def at_live_def mem_set_def sh_ok_def)

lemma at_live_simps [simp]:
  "sh_map (at_live a f s) = sh_map s" "sh_heap (at_live a f s) a = f (sh_heap s a)"
  "sh_next (at_live a f s) = sh_next s" "sh_db (at_live a f s) = sh_db s" "sh_blobs (at_live a f s) = sh_blobs s"
  "sh_files (at_live a f s) = sh_files s" "sh_events (at_live a f s) = sh_events s" "sh_cap (at_live a f s) = sh_cap s"
  "sh_get i (at_live a f s) = sh_get i s"
  by (simp_all add: at_live_def sh_get_def)

lemma sh_ok_at_live [simp]: "sh_ok (at_live a f s) = sh_ok s"
  by (simp add: sh_ok_def)

lemma snd_update: "(j, b) \<in> set (AList.update k v m) \<Longrightarrow> b = v \<or> b \<in> set (map snd m)"
proof (induction m)
  case (Cons x m)
  then show ?case by (cases x) (auto split: if_splits intro: rev_image_eqI)
qed simp

lemma distinct_snd_update:
  "distinct (map snd m) \<Longrightarrow> v \<notin> set (map snd m) \<Longrightarrow> distinct (map snd (AList.update k v m))"
proof (induction m)
  case (Cons x m)
  obtain j b where x: "x = (j, b)" by (cases x)
  have "b \<notin> set (map snd (AList.update k v m))"
    using Cons.prems snd_update [of _ b k v m] by (auto simp: x)
  with Cons x show ?case by simp
qed simp

lemma sh_ok_put:
  assumes "sh_ok s"
  shows "sh_ok (snd (sh_put now e s))"
proof -
  have "sh_next s \<notin> set (map snd (sh_map s))" using assms by (auto simp: sh_ok_def)
  with assms have "distinct (map snd (AList.update (ID e) (sh_next s) (sh_map s)))"
    by (intro distinct_snd_update) (simp_all add: sh_ok_def)
  moreover have "b < Suc (sh_next s)" if "(j, b) \<in> set (AList.update (ID e) (sh_next s) (sh_map s))" for j b
    using snd_update [OF that] assms by (auto simp: sh_ok_def)
  ultimately show ?thesis using assms by (auto simp: sh_ok_def sh_put_def Let_def distinct_update)
qed

lemma heap_other: "a \<notin> set (map snd m) \<Longrightarrow> map (\<lambda>(k, b). (k, (h(a := v)) b)) m = map (\<lambda>(k, b). (k, h b)) m"
  by (intro map_cong) (auto simp: image_iff)

lemma heap_new:
  "a \<notin> set (map snd m) \<Longrightarrow>
   map (\<lambda>(k, b). (k, (h(a := v)) b)) (AList.update k a m) = AList.update k v (map (\<lambda>(k, b). (k, h b)) m)"
proof (induction m)
  case (Cons x m)
  then show ?case using heap_other [of a m h v] by (cases x) (auto simp del: fun_upd_apply simp: fun_upd_other fun_upd_same)
qed simp

lemma seen_put:
  assumes "sh_ok s" "sh_put now e s = (a, s')"
  shows "mem_put now e (mem (seen s)) = (sh_heap s' a, mem (seen s'))" "seen s' = (seen s)\<lparr>mem := mem (seen s')\<rparr>"
proof -
  let ?l = "\<lparr>l_entry = e, req = buffer (ID e) SideRequest, resp = buffer (ID e) SideResponse, lastSeen = now\<rparr>"
  have s': "a = sh_next s" "s' = s\<lparr>sh_map := AList.update (ID e) a (sh_map s), sh_heap := (sh_heap s)(a := ?l),
      sh_next := Suc a\<rparr>"
    using assms(2) by (auto simp: sh_put_def Let_def)
  have "a \<notin> set (map snd (sh_map s))" using assms(1) s'(1) by (auto simp: sh_ok_def)
  then have "mem (seen s') = AList.update (ID e) ?l (mem (seen s))"
    using heap_new [of a "sh_map s" "sh_heap s" ?l "ID e"] by (simp add: s'(2) seen_def del: fun_upd_apply)
  then show "mem_put now e (mem (seen s)) = (sh_heap s' a, mem (seen s'))" by (simp add: mem_put_def s'(2) Let_def)
  show "seen s' = (seen s)\<lparr>mem := mem (seen s')\<rparr>" by (simp add: s'(2) seen_def)
qed

lemma sh_get_frame [simp]:
  "sh_get i (s\<lparr>sh_files := fs\<rparr>) = sh_get i s" "sh_get i (s\<lparr>sh_db := d\<rparr>) = sh_get i s"
  "sh_get i (sh_publish ty k e c s) = sh_get i s"
  by (simp_all add: sh_get_def sh_publish_def)

lemma mem_set_twice [simp]: "mem_set i l (mem_set i l' m) = mem_set i l m"
  by (simp add: mem_set_def)

lemma alone_snapshot [simp]: "alone (snapshot_task a) s = (snapshot (sh_heap s a), s)"
  by (simp add: snapshot_task_def snapshot_def Let_def split: prod.split)

lemma seen_publish [simp]: "seen (sh_publish ty i e c s) = publish ty i e c (seen s)"
  by (simp add: seen_def sh_publish_def publish_def)

lemma seen_frame [simp]:
  "seen (s\<lparr>sh_files := fs\<rparr>) = (seen s)\<lparr>files := fs\<rparr>" "seen (s\<lparr>sh_db := d\<rparr>) = (seen s)\<lparr>db := d\<rparr>"
  "sh_ok (s\<lparr>sh_files := fs\<rparr>) = sh_ok s" "sh_ok (s\<lparr>sh_db := d\<rparr>) = sh_ok s" "sh_ok (sh_publish ty i e c s) = sh_ok s"
  by (simp_all add: seen_def sh_ok_def sh_publish_def)

lemma section_frames [simp]:
  "sh_db (sh_publish ty i e c s) = sh_db s" "sh_cap (sh_publish ty i e c s) = sh_cap s"
  "sh_blobs (sh_publish ty i e c s) = sh_blobs s" "sh_files (sh_publish ty i e c s) = sh_files s"
  "sh_heap (sh_publish ty i e c s) = sh_heap s" "sh_map (sh_publish ty i e c s) = sh_map s"
  "sh_db (sh_delete k s) = sh_db s" "sh_cap (sh_delete k s) = sh_cap s" "sh_blobs (sh_delete k s) = sh_blobs s"
  "sh_files (sh_delete k s) = sh_files s" "sh_heap (sh_delete k s) = sh_heap s"
  by (simp_all add: sh_publish_def sh_delete_def)

lemma seen_delete [simp]: "seen (sh_delete k s) = (seen s)\<lparr>mem := mem_delete k (mem (seen s))\<rparr>"
  by (simp add: seen_def sh_delete_def mem_delete_def AList.delete_eq filter_map comp_def split_def)

lemma sh_ok_delete [simp]: "sh_ok s \<Longrightarrow> sh_ok (sh_delete k s)"
  by (auto simp: sh_ok_def sh_delete_def AList.delete_eq intro: distinct_map_filter)

section \<open>The operations\<close>

lemma Put_alone:
  assumes "sh_ok s"
  shows "map_prod id seen (alone (Put_task now rnd e) s) = Put now rnd e (seen s)"
proof (cases "put_id rnd e")
  case (Inr i)
  obtain a s' where p: "sh_put now (with_defaults now i e) s = (a, s')" by fastforce
  note S = seen_put [OF assms p]
  show ?thesis by (simp add: Put_task_def Put_def Inr p S(1)) (subst S(2), simp)
qed (simp add: Put_task_def Put_def)

lemma SetRequestBody_alone:
  assumes "sh_ok s"
  shows "map_prod id seen (alone (SetRequestBody_task env i body) s) = SetRequestBody env i body (seen s)"
proof (cases "sh_get i s")
  case (Some a)
  obtain r b fs where w: "buf_Write (sh_blobs s) env body (req (sh_heap s a)) (sh_files s) = (r, b, fs)"
    by (rule prod_cases3)
  show ?thesis
    by (cases r) (simp_all add: SetRequestBody_task_def SetRequestBody_def sh_write_def Some w
      seen_at_live [where i = i] assms Let_def)
qed (simp add: SetRequestBody_task_def SetRequestBody_def)

lemma AppendResponse_alone:
  assumes "sh_ok s"
  shows "map_prod id seen (alone (AppendResponse_task env now i chunk d) s) = AppendResponse env now i chunk d (seen s)"
proof (cases "sh_get i s")
  case (Some a)
  obtain r b fs where w: "buf_Write (sh_blobs s) env chunk (resp (sh_heap s a)) (sh_files s) = (r, b, fs)"
    by (rule prod_cases3)
  have "sh_heap (at_live a (resp_update (\<lambda>_. b)) s\<lparr>sh_files := fs\<rparr>) a = (sh_heap s a)\<lparr>resp := b\<rparr>"
    by (simp add: at_live_def)
  then show ?thesis
    by (cases r) (simp_all add: AppendResponse_task_def append_task_def AppendResponse_def sh_write_def Some w
      seen_at_live [where i = i] assms Let_def)
qed (simp add: AppendResponse_task_def append_task_def AppendResponse_def)

lemma Update_alone:
  assumes "sh_ok s"
  shows "map_prod id seen (alone (Update_task now i fn) s) = Update now i fn (seen s)"
  using assms
  by (cases "sh_get i s") (simp_all add: Update_task_def Update_def Let_def seen_at_live [where i = i])

lemma Get_alone: "map_prod id seen (alone (Get_task exec i) s) = Get exec i (seen s)"
  by (auto simp: Get_task_def Get_def sh_exec_def split: option.split prod.split)

lemma delete_alone: "alone (delete_task exec is) s = apsnd (\<lambda>d. s\<lparr>sh_db := d\<rparr>) (delete_victims exec is (sh_db s))"
  by (induction "is" arbitrary: s) (auto simp: sh_exec_def split: prod.split sum.split)

lemma retention_alone:
  "alone (retention_task exec) s = apsnd (\<lambda>d. s\<lparr>sh_db := d\<rparr>) (applyRetention exec (sh_cap s) (sh_db s))"
  by (auto simp: retention_task_def applyRetention_def sh_exec_def delete_alone split: prod.split sum.split)

lemma purge_alone: "seen (snd (alone (purge_task env i) s)) = purge env i (seen s)"
  by (auto simp: purge_task_def purge_def removeFor_def sh_remove_def split: prod.split)

lemma purge_all_alone:
  "seen (snd (alone (for_each (purge_task env) is) s)) = fold (purge env) is (seen s)"
  by (induction "is" arbitrary: s) (auto simp: case_prod_beta purge_alone)

lemma close_bodies_sections: "close_bodies l = resp_update buf_Close (req_update buf_Close l)"
  by (simp add: close_bodies_def)

lemma Finalize_alone:
  assumes "sh_ok s"
  shows "map_prod id seen (alone (Finalize_task exec env now i fn) s) = Finalize exec env now i fn (seen s)"
proof (cases "sh_get i s")
  case (Some a)
  let ?l = "resp_update buf_Close (req_update buf_Close (live_update now (finalize_entry now fn) (sh_heap s a)))"
  let ?s = "at_live a (resp_update buf_Close) (at_live a (req_update buf_Close)
    (at_live a (live_update now (finalize_entry now fn)) s))"
  have S: "seen ?s = (seen s)\<lparr>mem := mem_set i ?l (mem (seen s))\<rparr>"
    using assms Some by (simp add: seen_at_live [where i = i])
  obtain x d1 where x: "db_insert exec (snapshot ?l) (sh_db s) = (x, d1)" by fastforce
  note defs = Finalize_task_def close_task_def record_task_def Finalize_def Some sh_exec_def close_bodies_sections Let_def S
  show ?thesis
  proof (cases x)
    case (Inl er)
    with x show ?thesis by (simp add: defs)
  next
    case ok: (Inr u)
    obtain y d2 where y: "applyRetention exec (sh_cap s) d1 = (y, d2)" by fastforce
    show ?thesis
    proof (cases y)
      case (Inl er)
      with x y ok show ?thesis
        by (simp add: defs retention_alone)
    next
      case (Inr vs)
      with x y ok show ?thesis
        by (simp add: defs retention_alone case_prod_beta purge_all_alone)
    qed
  qed
qed (simp add: Finalize_task_def Finalize_def)

lemma mem_list_alone: "alone (mem_list_task before) s = (mem_list before (mem (seen s)), s)"
  using alone_map_each [of "map snd (sh_map s)" snapshot_task "\<lambda>a s. snapshot (sh_heap s a)" s]
  by (simp add: mem_list_task_def mem_list_def seen_def comp_def split_def)

lemma List_alone: "map_prod id seen (alone (List_task exec n before) s) = List exec n before (seen s)"
  by (auto simp: List_task_def List_def Let_def sh_exec_def mem_list_alone split: prod.split sum.split)

lemma Body_alone: "map_prod id seen (alone (Body_task exec env i sd) s) = Body exec env i sd (seen s)"
proof -
  obtain r s1 where g: "alone (Get_task exec i) s = (r, s1)" by fastforce
  then have "Get exec i (seen s) = (r, seen s1)" using Get_alone [of exec i s] by simp
  with g show ?thesis
    by (auto simp: Body_task_def Body_def Let_def split: sum.split)
qed

lemma remove_alone:
  "alone (remove_task env ns) s = apsnd (\<lambda>fs. s\<lparr>sh_files := fs\<rparr>) (remove_names (sh_blobs s) env ns (sh_files s))"
  by (induction ns arbitrary: s) (auto simp: sh_remove_def split: prod.split sum.split)

lemma publish_all_alone:
  "seen (snd (alone (for_each (\<lambda>i. doing (sh_publish ty i e c)) is) s)) = fold (\<lambda>i. publish ty i e c) is (seen s)"
  by (induction "is" arbitrary: s) simp_all

lemma Clear_alone: "map_prod id seen (alone (Clear_task exec env) s) = Clear exec env (seen s)"
proof -
  obtain x d where x: "knownIDs exec (sh_db s) = (x, d)" by fastforce
  obtain y d' where y: "exec d DeleteAll = (y, d')" by fastforce
  show ?thesis
    by (cases x; cases y) (auto simp: Clear_task_def Clear_def db_clear_def sh_exec_def x y removeAll_blobs_def
      remove_alone case_prod_beta publish_all_alone split: sum.split)
qed

lemma purge_frame:
  "sh_map (snd (alone (purge_task env i) s)) = sh_map s" "sh_next (snd (alone (purge_task env i) s)) = sh_next s"
  by (auto simp: purge_task_def sh_remove_def sh_publish_def split: prod.split)

lemma purge_all_frame:
  "sh_map (snd (alone (for_each (purge_task env) is) s)) = sh_map s"
  "sh_next (snd (alone (for_each (purge_task env) is) s)) = sh_next s"
  by (induction "is" arbitrary: s) (auto simp: case_prod_beta purge_frame)

lemma Finalize_sh_ok:
  assumes "sh_ok s"
  shows "sh_ok (snd (alone (Finalize_task exec env now i fn) s))"
proof -
  have "sh_ok (snd (alone (for_each (purge_task env) vs) t)) = sh_ok t" for vs and t :: "'a shared"
    by (simp add: sh_ok_def purge_all_frame)
  then show ?thesis using assms
    by (auto simp: Finalize_task_def close_task_def record_task_def sh_exec_def retention_alone case_prod_beta split: option.split sum.split)
qed

lemma stale_alone: "alone (stale_task now t) s = (staleIDs now t (mem (seen s)), s)"
proof -
  have "alone (map_each (\<lambda>(i, a). reading (\<lambda>s. (i, Before (lastSeen (sh_heap s a)) c))) m) s =
      (map (\<lambda>(i, a). (i, Before (lastSeen (sh_heap s a)) c)) m, s)" for c and m :: "(bytes \<times> nat) list" and s :: "'a shared"
    by (subst alone_map_each [of m _ "\<lambda>(i, a) s. (i, Before (lastSeen (sh_heap s a)) c)"]) (auto simp: split_def)
  then show ?thesis
    by (simp add: stale_task_def staleIDs_def seen_def Let_def filter_map comp_def split_def)
qed

lemma SweepPending_alone:
  assumes "sh_ok s"
  shows "map_prod id seen (alone (SweepPending_task exec env now t) s) = SweepPending exec env now t (seen s)"
proof -
  let ?f = "\<lambda>i. then_do (Finalize_task exec env now i (Some (timed_out t))) (\<lambda>_. Ret ())"
  have "seen (snd (alone (for_each ?f is) s)) = sweep_run exec env now t is (seen s)" for "is"
    using assms
  proof (induction "is" arbitrary: s)
    case (Cons i "is")
    obtain r s1 where f: "alone (Finalize_task exec env now i (Some (timed_out t))) s = (r, s1)" by fastforce
    have "sh_ok s1" using Finalize_sh_ok [OF Cons.prems] f by (metis snd_conv)
    moreover have "Finalize exec env now i (Some (timed_out t)) (seen s) = (r, seen s1)"
      using Finalize_alone [OF Cons.prems, of exec env now i "Some (timed_out t)"] f by simp
    ultimately show ?case using Cons.IH f by simp
  qed simp
  then show ?thesis by (simp add: SweepPending_task_def SweepPending_def Let_def case_prod_beta stale_alone)
qed


text \<open>A shared state with one entry in flight, and one without any.\<close>

definition small_shared :: "row list shared" where
  "small_shared = \<lparr>sh_map = [], sh_heap = (\<lambda>_. new_live zero_time [] zero_entry), sh_next = 0, sh_db = [],
     sh_blobs = small_blobs, sh_files = empty_fs, sh_events = NewBroker, sh_cap = 2\<rparr>"

lemma small_shared: "sh_ok small_shared" "seen small_shared = small_store"
  by (simp_all add: small_shared_def sh_ok_def seen_def small_store_def newMemStore_def)


end
