(* ===== verification/Store_Sink.thy ===== *)
theory Store_Sink
  imports Store_Bodies
begin

text \<open>
  The store as the sink of a response: while an entry is in flight and the system calls do not
  fail, \<open>AppendResponse\<close> succeeds, appends and publishes, and \<open>Update\<close> leaves the bytes alone.
\<close>

text \<open>No call that a write to a body makes fails.\<close>

definition writes_ok :: "os_env \<Rightarrow> bool" where
  "writes_ok env \<longleftrightarrow> create_ok env \<and> head_short env = None \<and> tail_short env = None"

text \<open>
  What an exchange relies on: its entry is in flight, the request body is \<open>b\<close> where \<open>q = Some b\<close>,
  and the response so far is \<open>c\<close>.
\<close>

definition exchange_history :: "bytes \<Rightarrow> bytes option \<Rightarrow> bytes \<Rightarrow> history" where
  "exchange_history i q c =
     (\<lambda>k sd. if k \<noteq> i then None else if sd = SideResponse then Some c
       else if sd = SideRequest then q else None)"

definition resp_holds ::
  "('db \<Rightarrow> bytes \<Rightarrow> row option) \<Rightarrow> bytes \<Rightarrow> bytes option \<Rightarrow> bytes \<Rightarrow> 'db store \<Rightarrow> bool" where
  "resp_holds tbl i q c s \<longleftrightarrow>
     store_inv tbl s \<and> in_memory i s \<and> captured tbl (exchange_history i q c) s"

lemma exchange_history_append:
  "history_append i SideResponse p True (exchange_history i q c) = exchange_history i q (c @ p)"
  "history_append i SideRequest p True (exchange_history i (Some b) c) = exchange_history i (Some (b @ p)) c"
  by (auto simp: exchange_history_def history_append_def fun_eq_iff)

lemma resp_holds_side: "resp_holds tbl i q c s \<Longrightarrow> side_holds tbl s i SideResponse c"
  by (auto simp: resp_holds_def exchange_history_def captured_def)

lemma resp_holds_request: "resp_holds tbl i (Some b) c s \<Longrightarrow> side_holds tbl s i SideRequest b"
  by (auto simp: resp_holds_def exchange_history_def captured_def)

lemma AppendResponse_holds:
  assumes "resp_holds tbl i q c s" "writes_ok env" "AppendResponse env now i p d s = (r, s')"
  shows "r = Inr ()" "resp_holds tbl i q (c @ p) s'"
    "events s' = (if d \<and> p \<noteq> [] then Publish \<lparr>ev_Type = EventDelta, ev_ID = i, ev_Entry = None, ev_Chunk = p\<rparr> (events s)
      else events s)"
proof -
  have I: "store_inv tbl s" and C: "captured tbl (exchange_history i q c) s"
    using assms(1) by (simp_all add: resp_holds_def)
  obtain l where l: "mem_get i (mem s) = Some l" using assms(1) by (auto simp: resp_holds_def in_memory_def)
  have e: "err (resp l) = None"
    using resp_holds_side [OF assms(1)] l by (simp add: side_holds_def side_buf_def buf_holds_def spill_ok_def)
  obtain b fs' where w: "buf_Write (blobs s) env p (resp l) (files s) = (Inr (length p), b, fs')"
    using buf_Write_total [OF _ _ _ e] assms(2) unfolding writes_ok_def by blast
  let ?l = "touch now (with_buf SideResponse b l)"
  let ?s = "s\<lparr>mem := mem_set i ?l (mem s), files := fs'\<rparr>"
  have s': "s' = (if d \<and> p \<noteq> [] then publish EventDelta i None p ?s else ?s)" and r: "r = Inr ()"
    using assms(3) by (auto simp: AppendResponse_def l w with_buf_def Let_def split: if_splits)
  have "captured tbl (history_append i SideResponse p True (exchange_history i q c)) ?s"
    using captured_write [OF I C l _ _ disjI2 [OF refl],
        of SideResponse env p "Inr (length p)" b fs' now] w
    by (simp add: side_buf_def)
  then have "captured tbl (exchange_history i q (c @ p)) s'" by (simp add: s' exchange_history_append)
  moreover have "store_inv tbl s'" using store_inv_AppendResponse [OF I assms(3)] .
  moreover have "in_memory i s'" by (simp add: s' in_memory_def)
  ultimately show "resp_holds tbl i q (c @ p) s'" by (simp add: resp_holds_def)
  show "r = Inr ()" by (rule r)
  show "events s' = (if d \<and> p \<noteq> [] then Publish \<lparr>ev_Type = EventDelta, ev_ID = i, ev_Entry = None, ev_Chunk = p\<rparr> (events s)
      else events s)"
    by (simp add: s')
qed

lemma Update_holds:
  assumes "resp_holds tbl i q c s" "keeps_id fn" "Update now j fn s = (r, s')"
  shows "resp_holds tbl i q c s'"
proof -
  have I: "store_inv tbl s" and C: "captured tbl (exchange_history i q c) s"
    using assms(1) by (simp_all add: resp_holds_def)
  have "in_memory i s'"
    using assms(1,3) by (auto simp: Update_def resp_holds_def in_memory_def Let_def split: option.splits)
  moreover have "captured tbl (exchange_history i q c) s'"
    using assms(3) by (intro captured_kept [OF I C])
      (auto simp: Update_def live_update_def Let_def split: option.splits if_splits)
  moreover have "store_inv tbl s'" by (rule store_inv_Update [OF I assms(2,3)])
  ultimately show ?thesis by (simp add: resp_holds_def)
qed

text \<open>The entry itself, without its bodies.\<close>

definition entry_of :: "bytes \<Rightarrow> 'db store \<Rightarrow> entry option" where
  "entry_of i s = map_option l_entry (mem_get i (mem s))"

lemma entry_of_AppendResponse: "entry_of k (snd (AppendResponse env now i p d s)) = entry_of k s"
  by (auto simp: entry_of_def AppendResponse_def touch_def Let_def split: option.splits prod.splits sum.splits)

lemma entry_of_SetRequestBody: "entry_of k (snd (SetRequestBody env i p s)) = entry_of k s"
  by (auto simp: entry_of_def SetRequestBody_def Let_def split: option.splits prod.splits sum.splits)

lemma entry_of_Update:
  "entry_of k (snd (Update now i fn s)) = (if k = i then map_option fn (entry_of i s) else entry_of k s)"
  by (auto simp: entry_of_def Update_def live_update_def Let_def split: option.splits)

lemmas entry_of_calls = entry_of_AppendResponse entry_of_SetRequestBody entry_of_Update

interpretation resp_sink: response_sink
  "\<lambda>(env, now) p d s. snd (AppendResponse env now i p d s)"
  "\<lambda>(env, now) fn s. snd (Update now i fn s)"
  "\<lambda>(env, now). writes_ok env" keeps_id "resp_holds tbl i q" for i q tbl
proof unfold_locales
  show "resp_holds tbl i q (c @ p) ((\<lambda>(env, now) p d s. snd (AppendResponse env now i p d s)) e p d s)"
    if "case e of (env, now) \<Rightarrow> writes_ok env" "resp_holds tbl i q c s"
    for e p d c and s :: "'a store"
    using that AppendResponse_holds(2) [OF _ _ surjective_pairing] by (cases e) auto
  show "resp_holds tbl i q c ((\<lambda>(env, now) fn s. snd (Update now i fn s)) e u s)"
    if "keeps_id u" "resp_holds tbl i q c s" for e u c and s :: "'a store"
    using that Update_holds [OF _ _ surjective_pairing] by (cases e) auto
qed

end
