(* ===== verification/Store_Record.thy ===== *)
theory Store_Record
  imports Store_Sink Store_Props
begin

text \<open>
  The end of an exchange over a store whose database answers: the entry leaves the memory and
  the history has it, head and bodies.
\<close>

text \<open>No statement fails.\<close>

definition answers :: "'db engine \<Rightarrow> bool" where
  "answers exec \<longleftrightarrow> (\<forall>d q. is_ok (fst (exec d q)))"

lemma answersE:
  assumes "answers exec"
  obtains x d' where "exec d q = (Inr x, d')"
  using assms unfolding answers_def by (metis is_okE prod.collapse)

lemma table_answers: "answers table_exec"
proof -
  have "is_ok (fst (table_exec d q))" for d q by (cases q) simp_all
  then show ?thesis by (simp add: answers_def)
qed

lemma SetRequestBody_holds:
  assumes "resp_holds tbl i (Some b) c s" "writes_ok env" "SetRequestBody env i p s = (r, s')"
  shows "r = Inr ()" "resp_holds tbl i (Some (b @ p)) c s'"
proof -
  have I: "store_inv tbl s" and C: "captured tbl (exchange_history i (Some b) c) s"
    using assms(1) by (simp_all add: resp_holds_def)
  obtain l where l: "mem_get i (mem s) = Some l" using assms(1) by (auto simp: resp_holds_def in_memory_def)
  have e: "err (req l) = None"
    using resp_holds_request [OF assms(1)] l by (simp add: side_holds_def side_buf_def buf_holds_def spill_ok_def)
  obtain b' fs' where w: "buf_Write (blobs s) env p (req l) (files s) = (Inr (length p), b', fs')"
    using buf_Write_total [OF _ _ _ e] assms(2) unfolding writes_ok_def by blast
  have s': "s' = s\<lparr>mem := mem_set i (with_buf SideRequest b' l) (mem s), files := fs'\<rparr>" and r: "r = Inr ()"
    using assms(3) by (auto simp: SetRequestBody_def l w with_buf_def Let_def)
  have "captured tbl (history_append i SideRequest p True (exchange_history i (Some b) c)) s'"
    unfolding s' using captured_write [where env = env, OF I C l _ _ disjI1 [OF refl],
        of SideRequest p "Inr (length p)" b' fs'] w by (simp add: side_buf_def)
  then have "captured tbl (exchange_history i (Some (b @ p)) c) s'" by (simp add: exchange_history_append)
  moreover have "store_inv tbl s'" using store_inv_SetRequestBody [OF I assms(3)] .
  moreover have "in_memory i s'" by (simp add: s' in_memory_def)
  ultimately show "resp_holds tbl i (Some (b @ p)) c s'" by (simp add: resp_holds_def)
  show "r = Inr ()" by (rule r)
qed

lemma Put_holds:
  assumes "store_inv tbl s" "put_id rnd e = Inr i" "unused tbl i s" "Put now rnd e s = (r, s')"
  shows "r = Inr i" "resp_holds tbl i (Some []) [] s'" "entry_of i s' = Some (with_defaults now i e)"
proof -
  have "captured tbl (\<lambda>_ _. None) s" by (simp add: captured_def)
  from captured_Put [OF assms(1) this assms(2-4)]
  have "captured tbl (exchange_history i (Some []) []) s'"
    by (auto simp: captured_def exchange_history_def split: if_splits)
  moreover have "store_inv tbl s'" using assms by (intro store_inv_Put [OF assms(1) _ assms(4)]) simp
  moreover show "r = Inr i" "entry_of i s' = Some (with_defaults now i e)"
    using assms(2,4) by (auto simp: Put_eq entry_of_def)
  ultimately show "resp_holds tbl i (Some []) [] s'"
    by (auto simp: resp_holds_def in_memory_def entry_of_def)
qed

text \<open>What the calls of an exchange before its end leave alone: the database and the cap.\<close>

definition history_of :: "'db store \<Rightarrow> 'db \<times> int" where
  "history_of s = (db s, maxEntries s)"

lemma history_of_calls:
  "history_of (snd (Put now rnd e s)) = history_of s"
  "history_of (snd (SetRequestBody env i p s)) = history_of s"
  "history_of (snd (AppendResponse env now i p d s)) = history_of s"
  "history_of (snd (Update now i fn s)) = history_of s"
  by (auto simp: history_of_def Put_def SetRequestBody_def AppendResponse_def Update_def publish_def Let_def
      split: option.splits prod.splits sum.splits)

section \<open>Finalizing\<close>

context sql_engine
begin

lemma db_insert_answers:
  assumes "answers exec"
  shows "fst (db_insert exec e d) = Inr ()"
proof -
  obtain row where "entry_row e = Inr row" using entry_row_scan by blast
  moreover obtain x d' where "exec d (InsertOrReplace row) = (Inr x, d')" by (rule answersE [OF assms])
  ultimately show ?thesis by (simp add: db_insert_def)
qed

lemma delete_victims_answers: "answers exec \<Longrightarrow> fst (delete_victims exec vs d) = Inr ()"
proof (induction vs arbitrary: d)
  case (Cons v vs)
  obtain x d' where "exec d (DeleteById v) = (Inr x, d')" by (rule answersE [OF Cons.prems])
  with Cons show ?case by simp
qed simp

lemma applyRetention_answers: "answers exec \<Longrightarrow> is_ok (fst (applyRetention exec n d))"
proof -
  assume a: "answers exec"
  obtain x d' where x: "exec d (SelectOverflow n) = (Inr x, d')" by (rule answersE [OF a])
  from select_overflow [OF x] obtain ids where "x = Ids ids" by blast
  then have "query_ids exec (SelectOverflow n) d = (Inr ids, d')" by (simp add: query_ids_def x)
  then show ?thesis
    using delete_victims_answers [OF a, of ids d']
    by (auto simp: applyRetention_def overflowIDs_def split: prod.splits sum.splits)
qed

lemma Finalize_answers:
  assumes "answers exec" "mem_get i (mem s) = Some l" "Finalize exec env now i fn s = (r, s')"
  shows "r = Inr ()"
  using assms(3)
proof (cases rule: Finalize_cases)
  case (insert_failed l' er d1)
  with db_insert_answers [OF assms(1)] show ?thesis by (metis fst_conv sum.distinct(1))
next
  case (retention_failed l' d1 er d2)
  with applyRetention_answers [OF assms(1), of "maxEntries s" d1] show ?thesis by simp
qed (use assms(2) in auto)

lemma Body_answers:
  assumes "answers exec" "store_inv tbl s" "side_holds tbl s k sd c" "sd \<in> {SideRequest, SideResponse}"
    and "open_ok env" "in_memory k s \<or> tbl (db s) k \<noteq> None"
  shows "fst (Body exec env k sd s) = Inr (c, int (length c))"
proof -
  have "fst (Body exec env k sd s) \<noteq> Inl ErrSQL"
  proof (cases "mem_get k (mem s)")
    case (Some l)
    from Body_captured [OF assms(2-5)] Some show ?thesis by (auto simp: in_memory_def)
  next
    case None
    obtain x d' where x: "exec (db s) (SelectById k) = (Inr x, d')" by (rule answersE [OF assms(1)])
    have "db_get exec k (db s) = ((case tbl (db s) k of None \<Rightarrow> Inl ErrNotFound | Some r \<Rightarrow> scanEntry r), d')"
      using select_by_id [OF x] by (auto simp: db_get_def x split: option.splits)
    moreover have "scanEntry r \<noteq> Inl er" if "tbl (db s) k = Some r" for r er
      using store_invD(8) [OF assms(2) that] by auto
    ultimately show ?thesis using None
      by (auto simp: Body_def Get_def os_Open_def split: option.splits prod.splits sum.splits if_splits)
  qed
  with Body_captured [OF assms(2-5)] assms(6) show ?thesis by auto
qed

end

text \<open>An entry without what says where its bodies are.\<close>

definition head :: "entry \<Rightarrow> entry" where
  "head e = e\<lparr>RequestBody := [], RequestBodyPath := [], RequestBodySize := 0, RequestSpilled := False,
     ResponseBody := [], ResponseBodyPath := [], ResponseBodySize := 0, ResponseSpilled := False\<rparr>"

lemma head_stored_snapshot: "head (stored (snapshot l)) = head (stored (l_entry l))"
  by (simp add: head_def stored_def snapshot_def buf_state_def Let_def)

text \<open>The entry \<open>i\<close> is finished as \<open>e\<close>, with the bodies \<open>b\<close> and \<open>c\<close>, unless retention took it.\<close>

definition recorded ::
  "('db \<Rightarrow> bytes \<Rightarrow> row option) \<Rightarrow> bytes \<Rightarrow> entry \<Rightarrow> bytes \<Rightarrow> bytes \<Rightarrow> 'db store \<Rightarrow> bool" where
  "recorded tbl i e b c s \<longleftrightarrow> store_inv tbl s \<and> mem_get i (mem s) = None \<and>
     side_holds tbl s i SideRequest b \<and> side_holds tbl s i SideResponse c \<and>
     (\<forall>row. tbl (db s) i = Some row \<longrightarrow> (\<exists>d. scanEntry row = Inr d \<and> head d = head (stored e)))"

lemma Finalize_recorded:
  assumes "sql_engine exec tbl" "answers exec" "resp_holds tbl i (Some b) c s" "entry_of i s = Some e"
    and "keeps_id f" "Finalize exec env now i (Some f) s = (r, s')"
  shows "recorded tbl i (finalize_entry now (Some f) e) b c s'"
    "int (card (dom (tbl (db s)))) < maxEntries s \<Longrightarrow> tbl (db s') i \<noteq> None"
proof -
  have I: "store_inv tbl s" and C: "captured tbl (exchange_history i (Some b) c) s"
    using assms(3) by (simp_all add: resp_holds_def)
  obtain l where l: "mem_get i (mem s) = Some l" "l_entry l = e"
    using assms(4) by (auto simp: entry_of_def)
  have r: "r = Inr ()" using sql_engine.Finalize_answers [OF assms(1,2) l(1) assms(6)] .
  have k: "\<And>g. Some f = Some g \<Longrightarrow> keeps_id g" using assms(5) by simp
  obtain row vs d1 where F: "entry_row (snapshot (finalized now (Some f) l)) = Inr row"
    "tbl d1 = (tbl (db s))(i \<mapsto> row)" "applyRetention exec (maxEntries s) d1 = (Inr vs, db s')"
    "mem s' = mem_delete i (mem s)"
    using sql_engine.Finalize_success [OF assms(1) I l(1) k assms(6) [unfolded r]] by metis
  have inv: "store_inv tbl s'" by (rule sql_engine.store_inv_Finalize [OF assms(1) I k assms(6)])
  have gone: "mem_get i (mem s') = None" using F(4) by simp
  have "captured tbl (voided [i] s' (exchange_history i (Some b) c)) s'"
    by (rule sql_engine.captured_Finalize [OF assms(1) I C k assms(6)])
  then have cap: "captured tbl (exchange_history i (Some b) c) s'"
    using gone by (simp add: voided_def in_memory_def captured_def)
  have "scanEntry row = Inr (stored (snapshot (finalized now (Some f) l)))"
    using entry_row_scan [of "snapshot (finalized now (Some f) l)"] F(1) by auto
  moreover have "tbl (db s') i = Some row' \<Longrightarrow> row' = row" for row'
    using sql_engine.applyRetention_any [OF assms(1) F(3)] F(2) by (auto simp: map_le_def dom_def)
  ultimately have "\<exists>d. scanEntry row' = Inr d \<and> head d = head (stored (finalize_entry now (Some f) e))"
    if "tbl (db s') i = Some row'" for row'
    using that l(2) by (auto simp: head_stored_snapshot)
  with inv gone cap show "recorded tbl i (finalize_entry now (Some f) e) b c s'"
    by (auto simp: recorded_def captured_def exchange_history_def)
  show "tbl (db s') i \<noteq> None" if small: "int (card (dom (tbl (db s)))) < maxEntries s"
  proof -
    have "finite (dom (tbl (db s)))" by (rule sql_engine.finite_tbl [OF assms(1)])
    then have "int (card (dom (tbl d1))) \<le> maxEntries s"
      using small by (simp add: F(2) card_insert_if)
    with sql_engine.applyRetention_ok [OF assms(1) F(3)] F(2)
    have "card (dom (tbl (db s'))) = card (dom (tbl d1))" "dom (tbl (db s')) \<subseteq> dom (tbl d1)"
      by (auto simp: restrict_map_def split: if_splits)
    then have "dom (tbl (db s')) = dom (tbl d1)"
      using sql_engine.finite_tbl [OF assms(1)] card_subset_eq by metis
    with F(2) show ?thesis by auto
  qed
qed

end
