(* ===== verification/Store_Races.thy ===== *)
theory Store_Races
  imports Store_Alone Store_Record
begin

text \<open>
  What concurrent callers of the store may rely on, and what they may not. A pool is any number of
  goroutines, each inside one operation; the sections of their tasks interleave in any order.
\<close>

datatype reply =
    Stored "go_error + bytes"
  | Did "go_error + unit"
  | Got "go_error + entry"
  | Listed "go_error + entry list"
  | Opened "go_error + bytes \<times> int"
  | Swept nat

definition Close_task :: "('db, unit) task" where
  "Close_task = doing (\<lambda>s. s\<lparr>sh_events := Close_broker (sh_events s)\<rparr>)"

fun op_task :: "'db engine \<Rightarrow> op \<Rightarrow> ('db, reply) task" where
  "op_task exec (OpPut now rnd e) = then_do (Put_task now rnd e) (\<lambda>r. Ret (Stored r))"
| "op_task exec (OpSetRequestBody env i body) = then_do (SetRequestBody_task env i body) (\<lambda>r. Ret (Did r))"
| "op_task exec (OpAppend env now i c d) = then_do (AppendResponse_task env now i c d) (\<lambda>r. Ret (Did r))"
| "op_task exec (OpUpdate now i fn) = then_do (Update_task now i fn) (\<lambda>r. Ret (Did r))"
| "op_task exec (OpFinalize env now i fn) = then_do (Finalize_task exec env now i fn) (\<lambda>r. Ret (Did r))"
| "op_task exec (OpSweep env now t) = then_do (SweepPending_task exec env now t) (\<lambda>n. Ret (Swept n))"
| "op_task exec (OpGet i) = then_do (Get_task exec i) (\<lambda>r. Ret (Got r))"
| "op_task exec (OpList n before) = then_do (List_task exec n before) (\<lambda>r. Ret (Listed r))"
| "op_task exec (OpBody env i sd) = then_do (Body_task exec env i sd) (\<lambda>r. Ret (Opened r))"
| "op_task exec (OpClear env) = then_do (Clear_task exec env) (\<lambda>r. Ret (Did r))"
| "op_task exec OpClose = then_do Close_task (\<lambda>_. Ret (Did (Inr ())))"

text \<open>What the callers guarantee: their functions do not change an entry's id.\<close>

fun keeps_ids :: "op \<Rightarrow> bool" where
  "keeps_ids (OpUpdate now i fn) = keeps_id fn"
| "keeps_ids (OpFinalize env now i fn) = (\<forall>f. fn = Some f \<longrightarrow> keeps_id f)"
| "keeps_ids _ = True"

section \<open>An entry stays visible\<close>

definition row_of :: "('db \<Rightarrow> bytes \<Rightarrow> row option) \<Rightarrow> bytes \<Rightarrow> 'db shared \<Rightarrow> bool" where
  "row_of tbl k s \<longleftrightarrow> tbl (sh_db s) k \<noteq> None"

definition visible :: "('db \<Rightarrow> bytes \<Rightarrow> row option) \<Rightarrow> bytes \<Rightarrow> 'db shared \<Rightarrow> bool" where
  "visible tbl k s \<longleftrightarrow> sh_get k s \<noteq> None \<or> row_of tbl k s"

text \<open>The entry at an address, which never changes its id once it is allocated.\<close>

definition owner :: "nat \<Rightarrow> bytes \<Rightarrow> 'db shared \<Rightarrow> bool" where
  "owner a i s \<longleftrightarrow> a < sh_next s \<and> ID (l_entry (sh_heap s a)) = i"

definition filed :: "'db shared \<Rightarrow> bool" where
  "filed s \<longleftrightarrow> (\<forall>i a. sh_get i s = Some a \<longrightarrow> owner a i s)"

text \<open>
  The invariant, the guarantee (addresses keep their owners) and the assumption on a run (the row of
  \<open>k\<close>, once it is there, is not deleted).
\<close>

abbreviation inv_of :: "('db \<Rightarrow> bytes \<Rightarrow> row option) \<Rightarrow> bytes \<Rightarrow> 'db shared \<Rightarrow> bool" where
  "inv_of tbl k s \<equiv> filed s \<and> visible tbl k s"

definition owners_kept :: "'db shared \<Rightarrow> 'db shared \<Rightarrow> bool" where
  "owners_kept s s' \<longleftrightarrow> (\<forall>a i. owner a i s \<longrightarrow> owner a i s')"

definition row_kept :: "('db \<Rightarrow> bytes \<Rightarrow> row option) \<Rightarrow> bytes \<Rightarrow> 'db shared \<Rightarrow> 'db shared \<Rightarrow> bool" where
  "row_kept tbl k s s' \<longleftrightarrow> (row_of tbl k s \<longrightarrow> row_of tbl k s')"

abbreviation sound ::
  "('db \<Rightarrow> bytes \<Rightarrow> row option) \<Rightarrow> bytes \<Rightarrow> ('r \<Rightarrow> 'db shared \<Rightarrow> bool) \<Rightarrow> ('db shared \<Rightarrow> bool) \<Rightarrow> ('db, 'r) task \<Rightarrow> bool" where
  "sound tbl k Q K p \<equiv> keeps (inv_of tbl k) owners_kept (row_kept tbl k) Q K p"

lemma stable_owner [simp, intro]: "stable owners_kept A (owner a i)"
  by (auto simp: stable_def owners_kept_def)

lemma stable_row [simp, intro]: "stable G (row_kept tbl k) (row_of tbl k)"
  by (auto simp: stable_def row_kept_def)

lemmas stable_rules = stable_conj stable_imp stable_const stable_True stable_owner stable_row

text \<open>A section that leaves the map alone, keeps ids and adds no address.\<close>

lemma sound_section:
  assumes "\<And>s x s'. f s = (x, s') \<Longrightarrow> sh_map s' = sh_map s \<and> sh_next s' = sh_next s \<and>
      (\<forall>a. ID (l_entry (sh_heap s' a)) = ID (l_entry (sh_heap s a)))"
    and "stable owners_kept (row_kept tbl k) K"
  shows "sound tbl k (\<lambda>_. K) K (atomic f)"
proof (rule keeps_section)
  fix s x s'
  assume "f s = (x, s')" "inv_of tbl k s" "row_kept tbl k s s'"
  with assms(1) [of s x s'] show "inv_of tbl k s' \<and> owners_kept s s'"
    by (auto simp: filed_def owner_def visible_def row_kept_def owners_kept_def sh_get_def)
qed (rule assms(2))

definition same_id :: "(liveEntry \<Rightarrow> liveEntry) \<Rightarrow> bool" where
  "same_id f \<longleftrightarrow> (\<forall>l. ID (l_entry (f l)) = ID (l_entry l))"

lemma same_id_simps [simp]:
  "same_id (req_update g)" "same_id (resp_update g)" "same_id (touch now)"
  "keeps_id fn \<Longrightarrow> same_id (live_update now fn)"
  by (simp_all add: same_id_def touch_def live_update_def keeps_id_def)

lemma sound_reading: "stable owners_kept (row_kept tbl k) K \<Longrightarrow> sound tbl k (\<lambda>_. K) K (reading f)"
  by (rule sound_section) auto

lemma sound_exec: "stable owners_kept (row_kept tbl k) K \<Longrightarrow> sound tbl k (\<lambda>_. K) K (atomic (sh_exec q))"
  by (rule sound_section) (auto simp: sh_exec_def split: prod.splits)

lemma sound_retained:
  "stable owners_kept (row_kept tbl k) K \<Longrightarrow> sound tbl k (\<lambda>_. K) K (atomic (\<lambda>s. sh_exec (q s) s))"
  by (rule sound_section) (auto simp: sh_exec_def split: prod.splits)

lemma sound_publish: "stable owners_kept (row_kept tbl k) K \<Longrightarrow> sound tbl k (\<lambda>_. K) K (doing (sh_publish ty i e c))"
  by (rule sound_section) (auto simp: sh_publish_def)

lemma sound_remove: "stable owners_kept (row_kept tbl k) K \<Longrightarrow> sound tbl k (\<lambda>_. K) K (atomic (sh_remove env q))"
  by (rule sound_section) (auto simp: sh_remove_def split: prod.splits)

lemma sound_at_live:
  "same_id f \<Longrightarrow> stable owners_kept (row_kept tbl k) K \<Longrightarrow> sound tbl k (\<lambda>_. K) K (doing (at_live a f))"
  by (rule sound_section) (auto simp: at_live_def same_id_def)

lemma sound_write: "stable owners_kept (row_kept tbl k) K \<Longrightarrow> sound tbl k (\<lambda>_. K) K (atomic (sh_write sd env a p))"
  by (rule sound_section) (auto simp: sh_write_def at_live_def Let_def split: prod.splits)

lemma put_kept:
  assumes inv: "inv_of tbl k s" and p: "sh_put now e s = (a, s')"
  shows "inv_of tbl k s' \<and> owners_kept s s'"
proof -
  have own: "owner b i s'" if "owner b i s" for b i
    using that p by (auto simp: sh_put_def Let_def owner_def)
  have "owner b i s'" if "sh_get i s' = Some b" for i b
  proof (cases "i = ID e")
    case True
    with that p show ?thesis by (auto simp: sh_put_def Let_def owner_def sh_get_def update_conv')
  next
    case False
    with that p have "sh_get i s = Some b" by (auto simp: sh_put_def Let_def sh_get_def update_conv')
    with inv show ?thesis by (intro own) (simp add: filed_def)
  qed
  moreover have "visible tbl k s'"
    using inv p by (auto simp: visible_def sh_put_def Let_def sh_get_def update_conv' row_of_def)
  ultimately show "inv_of tbl k s' \<and> owners_kept s s'" using own by (simp add: filed_def owners_kept_def)
qed

text \<open>Reading the map gives the owner of the address, or, for \<open>k\<close>, that its row is there.\<close>

definition looked_up :: "('db \<Rightarrow> bytes \<Rightarrow> row option) \<Rightarrow> bytes \<Rightarrow> bytes \<Rightarrow> nat option \<Rightarrow> 'db shared \<Rightarrow> bool" where
  "looked_up tbl k i live s \<longleftrightarrow> (\<forall>a. live = Some a \<longrightarrow> owner a i s) \<and> (live = None \<longrightarrow> i = k \<longrightarrow> row_of tbl k s)"

lemma stable_looked_up [simp]: "stable owners_kept (row_kept tbl k) (looked_up tbl k i live)"
  by (auto simp: stable_def looked_up_def owners_kept_def row_kept_def)

lemma sound_get:
  assumes "stable owners_kept (row_kept tbl k) K"
  shows "sound tbl k (\<lambda>live s. K s \<and> looked_up tbl k i live s) K (reading (sh_get i))"
proof (rule keeps_atomic [OF _ assms])
  fix s live s'
  assume "(sh_get i s, s) = (live, s')" "inv_of tbl k s"
  then show "inv_of tbl k s' \<and> owners_kept s s' \<and> looked_up tbl k i live s'"
    by (auto simp: looked_up_def filed_def visible_def owners_kept_def)
qed simp

lemma sound_snapshot:
  "sound tbl k (\<lambda>e s. owner a i s \<and> ID e = i) (owner a i) (snapshot_task a)"
proof -
  have "sound tbl k (\<lambda>e s. owner a i s \<and> ID e = i) (owner a i) (reading (\<lambda>s. Clone (l_entry (sh_heap s a))))"
  proof (rule keeps_atomic)
    show "stable owners_kept (row_kept tbl k) (\<lambda>_. ID x = i)" for x by simp
    show "stable owners_kept (row_kept tbl k) (owner a i)" by simp
  qed (auto simp: owner_def owners_kept_def Clone_def)
  then show ?thesis unfolding snapshot_task_def
  proof (rule keeps_then_do)
    fix e
    let ?K = "\<lambda>s. owner a i s \<and> ID e = i"
    have st: "stable owners_kept (row_kept tbl k) ?K" by (intro stable_conj) simp_all
    show "sound tbl k (\<lambda>e s. owner a i s \<and> ID e = i) ?K
      (then_do (reading (\<lambda>s. buf_state (req (sh_heap s a)))) (\<lambda>(rb, rp, rs, rsp).
       then_do (reading (\<lambda>s. buf_state (resp (sh_heap s a)))) (\<lambda>(pb, pp, ps, psp).
       Ret (e\<lparr>RequestBody := rb, RequestBodyPath := rp, RequestBodySize := rs, RequestSpilled := rsp,
              ResponseBody := pb, ResponseBodyPath := pp, ResponseBodySize := ps, ResponseSpilled := psp\<rparr>))))"
      by (rule keeps_then_do [OF sound_reading [OF st]], clarsimp,
          rule keeps_then_do [OF sound_reading [OF st]]) (auto intro: keeps.Ret)
  qed
qed

context sql_engine
begin

lemma sound_insert:
  "stable owners_kept (row_kept tbl k) K \<Longrightarrow>
   sound tbl k (\<lambda>r s. K s \<and> (r = Inr () \<longrightarrow> ID e = k \<longrightarrow> row_of tbl k s)) K (atomic (sh_exec (db_insert exec e)))"
proof (rule keeps_atomic)
  fix s r s'
  assume x: "sh_exec (db_insert exec e) s = (r, s')" and inv: "inv_of tbl k s" "row_kept tbl k s s'"
  obtain d where d: "db_insert exec e (sh_db s) = (r, d)" "s' = s\<lparr>sh_db := d\<rparr>"
    using x by (auto simp: sh_exec_def split: prod.splits)
  have "inv_of tbl k s' \<and> owners_kept s s'"
    using inv by (auto simp: d filed_def owner_def visible_def row_kept_def owners_kept_def sh_get_def)
  moreover have "r = Inr () \<longrightarrow> ID e = k \<longrightarrow> row_of tbl k s'"
    using db_insert_cases [OF d(1)] by (auto simp: d(2) row_of_def)
  ultimately show "inv_of tbl k s' \<and> owners_kept s s' \<and> (r = Inr () \<longrightarrow> ID e = k \<longrightarrow> row_of tbl k s')"
    by blast
qed (auto intro!: stable_imp)

lemma sound_delete:
  assumes "stable owners_kept (row_kept tbl k) K" "\<And>s. K s \<Longrightarrow> i = k \<Longrightarrow> row_of tbl k s"
  shows "sound tbl k (\<lambda>_. K) K (doing (sh_delete i))"
proof (rule keeps_section [OF _ assms(1)])
  fix s x s'
  assume "((), sh_delete i s) = (x, s')" "inv_of tbl k s" "K s"
  then show "inv_of tbl k s' \<and> owners_kept s s'"
    using assms(2) [of s]
    by (auto simp: sh_delete_def filed_def owner_def visible_def owners_kept_def sh_get_def row_of_def
        delete_conv' split: if_splits)
qed

lemma sound_db_get:
  assumes "stable owners_kept (row_kept tbl k) K" "\<And>s. K s \<Longrightarrow> i = k \<Longrightarrow> row_of tbl k s"
  shows "sound tbl k (\<lambda>r s. K s \<and> (i = k \<longrightarrow> r \<noteq> Inl ErrNotFound)) K (atomic (sh_exec (db_get exec i)))"
proof (rule keeps_atomic [OF _ assms(1)])
  fix s r s'
  assume x: "sh_exec (db_get exec i) s = (r, s')" and inv: "inv_of tbl k s" "row_kept tbl k s s'" and K: "K s"
  obtain d where d: "db_get exec i (sh_db s) = (r, d)" "s' = s\<lparr>sh_db := d\<rparr>"
    using x by (auto simp: sh_exec_def split: prod.splits)
  have "inv_of tbl k s' \<and> owners_kept s s'"
    using inv by (auto simp: d filed_def owner_def visible_def row_kept_def owners_kept_def sh_get_def)
  moreover have "r \<noteq> Inl ErrNotFound" if "i = k"
    using db_get_cases(2) [OF d(1)] assms(2) [OF K that] that
    by (auto simp: row_of_def scanEntry_def unmarshalHeader_def split: option.splits sum.splits if_splits)
  ultimately show "inv_of tbl k s' \<and> owners_kept s s' \<and> (i = k \<longrightarrow> r \<noteq> Inl ErrNotFound)"
    by blast
qed simp

text \<open>The tasks. Whatever they return, only \<open>Get\<close> makes a promise.\<close>

abbreviation fine :: "bytes \<Rightarrow> ('db shared \<Rightarrow> bool) \<Rightarrow> ('db, 'r) task \<Rightarrow> bool" where
  "fine k K p \<equiv> sound tbl k (\<lambda>_ _. True) K p"

lemma fine_Ret: "fine k K (Ret x)"
  by (rule keeps.Ret) simp

lemma fine_then: "sound tbl k P K p \<Longrightarrow> (\<And>x. fine k (P x) (f x)) \<Longrightarrow> fine k K (then_do p f)"
  by (rule keeps_then_do)

lemma fine_for_each:
  "(\<And>x. x \<in> set xs \<Longrightarrow> fine k (\<lambda>_. True) (f x)) \<Longrightarrow> fine k (\<lambda>_. True) (for_each f xs)"
  by (rule keeps_for_each)

lemma fine_publish: "fine k (\<lambda>_. True) (doing (sh_publish ty i e c))"
  by (rule sound_publish) simp

lemma fine_weaken: "fine k (\<lambda>_. True) p \<Longrightarrow> fine k K p"
  by (rule keeps_weaken) simp_all

lemma fine_next: "fine k (\<lambda>_. True) p \<Longrightarrow> (\<And>x. fine k (\<lambda>_. True) (f x)) \<Longrightarrow> fine k K (then_do p f)"
  by (rule fine_weaken, rule fine_then)

lemma fine_sum:
  "(\<And>e. fine k K (f e)) \<Longrightarrow> (\<And>y. fine k K (g y)) \<Longrightarrow> fine k K (case x of Inl e \<Rightarrow> f e | Inr y \<Rightarrow> g y)"
  by (cases x) simp_all

lemma fine_if: "(b \<Longrightarrow> fine k K p) \<Longrightarrow> (\<not> b \<Longrightarrow> fine k K q) \<Longrightarrow> fine k K (if b then p else q)"
  by simp

lemmas fine_exec = sound_exec [OF stable_True]
lemmas fine_retained = sound_retained [OF stable_True]
lemmas fine_branches = fine_sum fine_if fine_Ret

lemma fine_delete_victims: "fine k (\<lambda>_. True) (delete_task exec is)"
  by (induction "is") (auto intro!: fine_branches fine_next [OF fine_exec])

lemma fine_retention: "fine k (\<lambda>_. True) (retention_task exec)"
  unfolding retention_task_def
  by (intro fine_next [OF fine_retained] fine_next [OF fine_delete_victims] fine_branches)

lemma fine_purge: "fine k (\<lambda>_. True) (purge_task env i)"
  unfolding purge_task_def
  by (intro fine_next [OF fine_for_each] fine_publish fine_next [OF sound_remove] fine_Ret stable_True)

lemma sound_close:
  assumes "\<And>f. fn = Some f \<Longrightarrow> keeps_id f"
  shows "sound tbl k (\<lambda>e s. owner a i s \<and> ID e = i) (owner a i) (close_task now fn a)"
proof -
  have f: "same_id (live_update now (finalize_entry now fn))"
    using assms by (auto simp: same_id_def live_update_def finalize_entry_def keeps_id_def Let_def split: option.split)
  show ?thesis unfolding close_task_def
    by (intro keeps_then_do [OF sound_at_live] sound_snapshot f same_id_simps stable_owner)
qed

lemma fine_record:
  "fine k (\<lambda>s. ID e = i) (record_task exec env i e)"
proof -
  have "fine k (\<lambda>s. ID e = i \<and> (r = Inr () \<longrightarrow> ID e = k \<longrightarrow> row_of tbl k s)) (case r of
           Inl er \<Rightarrow> Ret (Inl er)
         | Inr _ \<Rightarrow>
           then_do (doing (sh_delete i)) (\<lambda>_.
           then_do (doing (sh_publish EventUpdated i (Some e) [])) (\<lambda>_.
           then_do (retention_task exec) (\<lambda>r. case r of
              Inl er \<Rightarrow> Ret (Inl er)
            | Inr purged \<Rightarrow> then_do (for_each (purge_task env) purged) (\<lambda>_. Ret (Inr ()))))))" for r
  proof (cases r)
    case (Inr u)
    have st: "stable owners_kept (row_kept tbl k) (\<lambda>s. ID e = i \<and> (r = Inr () \<longrightarrow> ID e = k \<longrightarrow> row_of tbl k s))"
      by (intro stable_rules)
    show ?thesis unfolding Inr sum.case
      by (rule fine_then [OF sound_delete [OF st [unfolded Inr]]], simp,
          intro fine_next [OF fine_publish] fine_next [OF fine_retention]
            fine_next [OF fine_for_each] fine_purge fine_branches)
  qed (simp add: fine_Ret)
  from fine_then [OF sound_insert [OF stable_const] this] show ?thesis unfolding record_task_def .
qed

lemma sound_looked_up:
  assumes "\<And>a. sound tbl k Q (owner a i) (f a)"
    and "sound tbl k Q (\<lambda>s. i = k \<longrightarrow> row_of tbl k s) p"
  shows "sound tbl k Q (\<lambda>_. True)
    (then_do (reading (sh_get i)) (\<lambda>live. case live of None \<Rightarrow> p | Some a \<Rightarrow> f a))"
proof (rule keeps_then_do [OF sound_get [OF stable_True]])
  fix live
  show "sound tbl k Q (\<lambda>s. True \<and> looked_up tbl k i live s) (case live of None \<Rightarrow> p | Some a \<Rightarrow> f a)"
    using keeps_weaken [OF assms(1)] keeps_weaken [OF assms(2)]
    by (cases live) (simp_all add: looked_up_def)
qed

text \<open>\<open>put\<close> gives the address of an entry with the id it was filed under.\<close>

lemma sound_put_owner:
  "sound tbl k (\<lambda>a s. True \<and> owner a (ID e) s) (\<lambda>_. True) (atomic (sh_put now e))"
proof (rule keeps_atomic)
  fix s a s'
  assume p: "sh_put now e s = (a, s')" and inv: "inv_of tbl k s"
  have "inv_of tbl k s' \<and> owners_kept s s'" using inv p by (rule put_kept)
  moreover have "owner a (ID e) s'" using p by (auto simp: sh_put_def Let_def owner_def)
  ultimately show "inv_of tbl k s' \<and> owners_kept s s' \<and> owner a (ID e) s'" by blast
qed simp_all

lemma fine_Put: "fine k (\<lambda>_. True) (Put_task now rnd e)"
proof -
  have "fine k (\<lambda>s. True \<and> owner a (ID f) s) (then_do (snapshot_task a) (\<lambda>sn.
        then_do (doing (sh_publish EventCreated i (Some sn) [])) (\<lambda>_. Ret (Inr i))))" for a f i
    by (rule keeps_weaken [where K = "owner a (ID f)" and P = "\<lambda>_ _. True"],
        intro fine_then [OF sound_snapshot] fine_next [OF fine_publish] fine_Ret) simp_all
  then show ?thesis unfolding Put_task_def
    by (intro fine_sum fine_Ret fine_then [OF sound_put_owner])
qed

lemma fine_SetRequestBody: "fine k (\<lambda>_. True) (SetRequestBody_task env i body)"
  unfolding SetRequestBody_task_def
  by (intro sound_looked_up fine_then [OF sound_write] fine_Ret stable_owner)

lemma fine_AppendResponse: "fine k (\<lambda>_. True) (AppendResponse_task env now i chunk d)"
  unfolding AppendResponse_task_def append_task_def
  by (intro sound_looked_up fine_then [OF sound_write] fine_then [OF sound_at_live]
      fine_next [OF fine_publish] fine_branches stable_owner same_id_simps)

lemma fine_Update: "keeps_id fn \<Longrightarrow> fine k (\<lambda>_. True) (Update_task now i fn)"
  unfolding Update_task_def
  by (intro sound_looked_up fine_then [OF sound_at_live] fine_then [OF sound_snapshot] same_id_simps
      fine_next [OF fine_publish] fine_Ret stable_owner)

lemma fine_Finalize:
  assumes "\<And>f. fn = Some f \<Longrightarrow> keeps_id f"
  shows "fine k (\<lambda>_. True) (Finalize_task exec env now i fn)"
  unfolding Finalize_task_def
  by (intro sound_looked_up fine_then [OF sound_close] keeps_weaken [OF fine_record] fine_Ret)
    (use assms in auto)

lemma fine_stale: "fine k (\<lambda>_. True) (stale_task now t)"
proof -
  have "fine k (\<lambda>_. True) (map_each (\<lambda>(i, a). reading (\<lambda>s. (i, Before (lastSeen (sh_heap s a)) c))) m)" for c and m :: "(bytes \<times> nat) list"
    by (rule keeps_map_each) (auto intro!: sound_reading)
  then show ?thesis unfolding stale_task_def Let_def
    by (intro fine_next [OF sound_reading] fine_next fine_Ret stable_True)
qed

lemma fine_SweepPending: "fine k (\<lambda>_. True) (SweepPending_task exec env now t)"
  unfolding SweepPending_task_def
proof (intro fine_next [OF fine_stale] fine_next [OF fine_for_each] fine_next [OF fine_Finalize] fine_Ret)
  show "keeps_id f" if "Some (timed_out t) = Some f" for f using that by auto
qed

lemma sound_Get:
  "sound tbl k (\<lambda>r _. i = k \<longrightarrow> r \<noteq> Inl ErrNotFound) (\<lambda>_. True) (Get_task exec i)"
proof -
  let ?Q = "\<lambda>(r :: go_error + entry) (_ :: 'db shared). i = k \<longrightarrow> r \<noteq> Inl ErrNotFound"
  let ?K = "\<lambda>s. i = k \<longrightarrow> row_of tbl k s"
  have "sound tbl k ?Q (owner a i) (then_do (snapshot_task a) (\<lambda>e. Ret (Inr e)))" for a
    by (rule keeps_then_do [OF sound_snapshot], rule keeps.Ret) simp
  moreover have "stable owners_kept (row_kept tbl k) ?K" by (intro stable_rules)
  then have "sound tbl k ?Q ?K (atomic (sh_exec (db_get exec i)))"
    by (rule keeps_weaken [OF sound_db_get]) simp_all
  ultimately show ?thesis unfolding Get_task_def by (rule sound_looked_up)
qed

lemma fine_Get: "fine k (\<lambda>_. True) (Get_task exec i)"
  by (rule keeps_weaken [OF sound_Get]) simp_all

lemma fine_snapshot: "fine k (\<lambda>_. True) (snapshot_task a)"
  unfolding snapshot_task_def by (auto intro!: fine_next [OF sound_reading] fine_Ret)

lemma fine_List: "fine k (\<lambda>_. True) (List_task exec n before)"
proof -
  have "fine k (\<lambda>_. True) (map_each snapshot_task as)" for "as"
    by (rule keeps_map_each) (rule fine_snapshot)
  then have "fine k (\<lambda>_. True) (mem_list_task before)"
    unfolding mem_list_task_def by (intro fine_next [OF sound_reading] fine_next fine_Ret stable_True)
  then show ?thesis unfolding List_task_def Let_def
    by (intro fine_next [OF fine_exec] fine_next fine_branches)
qed

lemma fine_Body: "fine k (\<lambda>_. True) (Body_task exec env i sd)"
  unfolding Body_task_def Let_def
  by (intro fine_next [OF fine_Get] fine_sum)
    (auto intro!: fine_branches fine_next [OF sound_reading] split: prod.split)

lemma fine_remove: "fine k (\<lambda>_. True) (remove_task env ns)"
  by (induction ns) (auto intro!: fine_branches fine_next [OF sound_remove])

lemma fine_Clear: "fine k (\<lambda>_. True) (Clear_task exec env)"
  unfolding Clear_task_def
  by (intro fine_next [OF fine_exec] fine_next [OF sound_reading] fine_next [OF fine_remove]
      fine_next [OF fine_for_each] fine_publish fine_branches stable_True)

lemma fine_Close: "fine k (\<lambda>_. True) Close_task"
  unfolding Close_task_def by (rule sound_section) auto

text \<open>What the callers guarantee of their functions, and what a result promises.\<close>

lemma fine_op: "keeps_ids op \<Longrightarrow> fine k (\<lambda>_. True) (op_task exec op)"
  by (cases op) (auto intro!: fine_Ret fine_next [OF fine_Put] fine_next [OF fine_SetRequestBody]
      fine_next [OF fine_AppendResponse] fine_next [OF fine_Update] fine_next [OF fine_Finalize]
      fine_next [OF fine_SweepPending] fine_next [OF fine_Get] fine_next [OF fine_List]
      fine_next [OF fine_Body] fine_next [OF fine_Clear] fine_next [OF fine_Close])

lemma sound_op:
  assumes "keeps_ids op"
  shows "sound tbl k (\<lambda>r _. op = OpGet k \<longrightarrow> r \<noteq> Got (Inl ErrNotFound)) (\<lambda>_. True) (op_task exec op)"
proof (cases "op = OpGet k")
  case True
  then show ?thesis by (auto intro!: keeps_then_do [OF sound_Get] keeps.Ret)
qed (rule keeps_weaken [OF fine_op [OF assms]], simp_all)

lemma pool_visible:
  assumes "pool_run s0 (map (op_task exec) ops) ss s ps" "filed s0" "visible tbl k s0"
    and "list_all keeps_ids ops" "successively (\<lambda>s' s. row_kept tbl k s s') (s # ss)"
  shows "visible tbl k s \<and> (\<forall>j < length ops. ops ! j = OpGet k \<longrightarrow> ps ! j \<noteq> Ret (Got (Inl ErrNotFound)))"
proof -
  let ?Q = "\<lambda>j r (_ :: 'db shared). ops ! j = OpGet k \<longrightarrow> r \<noteq> Got (Inl ErrNotFound)"
  have op: "sound tbl k (?Q j) (\<lambda>_. True) (map (op_task exec) ops ! j)"
    if "j < length (map (op_task exec) ops)" for j
    using that sound_op [of "ops ! j"] assms(4) by (simp add: list_all_length)
  from pool_run_keeps [OF assms(1) _ _ op] assms(2,3,5)
  have V: "inv_of tbl k s" "length ps = length ops"
    and Q: "\<And>j. j < length ps \<Longrightarrow> \<exists>K. stable owners_kept (row_kept tbl k) K \<and> K s \<and> sound tbl k (?Q j) K (ps ! j)"
    by (simp_all add: successively_Cons)
  have "ps ! j \<noteq> Ret (Got (Inl ErrNotFound))" if j: "j < length ops" "ops ! j = OpGet k" for j
  proof
    assume r: "ps ! j = Ret (Got (Inl ErrNotFound))"
    obtain K where "K s" "sound tbl k (?Q j) K (ps ! j)" using Q [of j] j V(2) by auto
    then show False using j(2) by (auto simp: r elim: keeps_RetE)
  qed
  with V show ?thesis by blast
qed

end

end
