(* ===== verification/Store_Race_Props.thy ===== *)
theory Store_Race_Props
  imports Store_Races Store_List
begin

text \<open>
  The properties of the store's interleavings: what a reader may rely on, and the orders in which
  concurrent callers lose something or see it twice.
\<close>

section \<open>A finished entry is never missed by its id\<close>

text \<open>
  C4. An entry that exists is never missed by its id. Let any number of goroutines, each inside any
  operation of the store, run interleaved section by section from a state in which the entry \<open>k\<close> is in
  flight or in the history, whichever statements and system calls fail. As long as the run does not
  delete its row, the entry is in memory or in the history at every moment, also while a \<open>Finalize\<close>
  moves it from one to the other; and no \<open>Get\<close> of it, which looks in the two places one after the other,
  reports that it does not exist. (\<open>filed\<close>: the memory's map leads to an entry with the id it is
  filed under.)
\<close>

theorem get_never_misses:
  assumes "sql_engine exec tbl" "filed s0" "visible tbl k s0" "list_all keeps_ids ops"
    and "pool_run s0 (map (op_task exec) ops) ss s ps"
    and "successively (\<lambda>s' s. row_kept tbl k s s') (s # ss)"
  shows "visible tbl k s \<and> (\<forall>j < length ops. ops ! j = OpGet k \<longrightarrow> ps ! j \<noteq> Ret (Got (Inl ErrNotFound)))"
  by (rule sql_engine.pool_visible [OF assms(1,5,2,3,4,6)])

text \<open>An exchange in flight, its entry at address 0.\<close>

definition flying :: "row list shared" where
  "flying = snd (sh_put (Time 5) (zero_entry\<lparr>ID := ''1f''\<rparr>) small_shared)"

lemma flying:
  "sh_map flying = [(''1f'', 0)]" "sh_next flying = 1" "sh_db flying = []"
  "ID (l_entry (sh_heap flying 0)) = ''1f''"
  by (simp_all add: flying_def sh_put_def small_shared_def Let_def)

definition row_for :: "entry \<Rightarrow> row" where
  "row_for e = (case entry_row e of Inr r \<Rightarrow> r)"

lemma exec_insert: "sh_db s = [] \<Longrightarrow> sh_exec (db_insert table_exec e) s = (Inr (), s\<lparr>sh_db := [row_for e]\<rparr>)"
  using entry_row_scan [of e] by (auto simp: sh_exec_def db_insert_def row_for_def)

lemma row_for_id: "r_id (row_for e) = ID e"
  using entry_row_scan [of e] by (auto simp: row_for_def)

lemma exec_get: "r_id (hd (sh_db s)) = k \<Longrightarrow> tl (sh_db s) = [] \<Longrightarrow> sh_db s \<noteq> [] \<Longrightarrow> sh_exec (db_get table_exec k) s = (scanEntry (hd (sh_db s)), s)"
  by (cases "sh_db s") (auto simp: sh_exec_def db_get_def table_rows_def)

lemma closed_id:
  "ID (l_entry (live_update now (finalize_entry now None) l)) = ID (l_entry l)"
  by (simp add: live_update_def finalize_entry_def Let_def)

lemma finishing_run:
  "\<exists>ss s p r. schedule (replicate 9 0 @ [1, 1]) [] flying
      (map (op_task table_exec) [OpFinalize os_fine (Time 7) ''1f'' None, OpGet ''1f'']) =
      Some (ss, s, [p, Ret (Got r)]) \<and>
    successively (\<lambda>s' s. row_kept table_tbl ''1f'' s s') (s # ss)"
  by (simp add: Finalize_task_def close_task_def record_task_def snapshot_task_def Get_task_def then_do_assoc
      schedule_section sh_get_def flying eval_nat_numeral case_prod_beta exec_insert exec_get row_for_id
      closed_id at_live_def sh_delete_def)
    (simp add: row_kept_def row_of_def flying table_tbl_def row_for_id closed_id)

lemma get_never_misses_witness:
  "\<exists>ss s p r. pool_run flying (map (op_task table_exec) [OpFinalize os_fine (Time 7) ''1f'' None, OpGet ''1f''])
      ss s [p, Ret (Got r)] \<and> r \<noteq> Inl ErrNotFound \<and> visible table_tbl ''1f'' s"
proof -
  let ?ops = "[OpFinalize os_fine (Time 7) ''1f'' None, OpGet ''1f'']"
  obtain ss s p r where
    run: "schedule (replicate 9 0 @ [1, 1]) [] flying (map (op_task table_exec) ?ops) = Some (ss, s, [p, Ret (Got r)])"
    and rows: "successively (\<lambda>s' s. row_kept table_tbl ''1f'' s s') (s # ss)"
    using finishing_run by blast
  note R = schedule_run [OF pool_run.start run]
  have "filed flying" "visible table_tbl ''1f'' flying"
    by (auto simp: filed_def owner_def visible_def sh_get_def flying split: if_splits)
  from get_never_misses [OF table.sql_engine_axioms this _ R rows]
  have "visible table_tbl ''1f'' s" "[p, Ret (Got r)] ! 1 \<noteq> Ret (Got (Inl ErrNotFound))"
    by (auto simp: All_less_Suc)
  with R show ?thesis by auto
qed

section \<open>The list while an entry is being finished\<close>

lemma List_sections:
  assumes "0 < limit"
  shows "op_task exec (OpList limit before) =
    then_do (atomic (sh_exec (db_list exec limit before))) (\<lambda>r. case r of
       Inl er \<Rightarrow> Ret (Listed (Inl er))
     | Inr rows \<Rightarrow> then_do (mem_list_task before) (\<lambda>pending.
         Ret (Listed (Inr (take (nat limit) (sort_newest (pending @ rows)))))))"
proof -
  have "(if limit < int (length es) then take (nat limit) es else es) = take (nat limit) es" for es :: "entry list"
    by simp
  with assms show ?thesis
    by (auto simp: List_task_def Let_def then_do_assoc fun_eq_iff intro!: arg_cong [where f = "then_do _"]
        split: sum.split)
qed

lemma listed_rows:
  assumes "sql_engine exec tbl" "db_list exec limit before d = (Inr es, d')" "e \<in> set es"
  shows "tbl d (ID e) \<noteq> None"
proof -
  obtain rs where rs: "newest_first {row \<in> ran (tbl d). IsZero before \<or> r_started_at row < UnixMilli before} rs"
    "map scanEntry (sql_limit limit rs) = map Inr es"
    using sql_engine.db_list_cases(2) [OF assms(1,2) refl] by blast
  have "Inr e \<in> set (map scanEntry (sql_limit limit rs))" using assms(3) rs(2) by simp
  then obtain r where r: "r \<in> set rs" "scanEntry r = Inr e"
    by (auto simp: sql_limit_def dest: in_set_takeD split: if_splits)
  then have "r \<in> ran (tbl d)" "r_id r = ID e" using rs(1) scan_fields [OF r(2)] by (auto simp: newest_first_def)
  then show ?thesis using sql_engine.ran_id [OF assms(1)] by (metis option.distinct(1))
qed

lemma list_misses:
  assumes "sql_engine exec tbl" "sh_ok s" "store_inv tbl (seen s)" "\<forall>f. fn = Some f \<longrightarrow> keeps_id f"
    and "0 < limit" "db_list exec limit before (sh_db s) = (Inr rows, d)"
    and "Finalize exec env now i fn ((seen s)\<lparr>db := d\<rparr>) = (Inr (), t)" "tbl (db t) i = Some row"
  shows "visible tbl i s \<and> (\<exists>ss s' es.
    pool_run s (map (op_task exec) [OpList limit before, OpFinalize env now i fn]) ss s'
      [Ret (Listed (Inr es)), Ret (Did (Inr ()))] \<and> i \<notin> ID ` set es \<and> visible tbl i s')"
proof -
  let ?s = "s\<lparr>sh_db := d\<rparr>"
  have S: "seen ?s = (seen s)\<lparr>db := d\<rparr>" "sh_ok ?s" using assms(2) by (simp_all add: seen_def sh_ok_def)
  have I: "store_inv tbl (seen ?s)" unfolding S(1)
    by (rule store_inv_db_eq [OF assms(3)]) (simp add: sql_engine.db_list_cases(1) [OF assms(1,6)])
  have kp: "\<And>f. fn = Some f \<Longrightarrow> keeps_id f" using assms(4) by blast
  have fin: "Finalize exec env now i fn (seen ?s) = (Inr (), t)" unfolding S(1) by (rule assms(7))
  obtain l where l: "mem_get i (mem (seen s)) = Some l" "mem_get i (mem (seen ?s)) = Some l"
    using fin by (cases "mem_get i (mem (seen s))") (auto simp: Finalize_def S(1))
  obtain s2 where f: "alone (Finalize_task exec env now i fn) ?s = (Inr (), s2)" "seen s2 = t"
    using Finalize_alone [OF S(2), of exec env now i fn] fin by (cases "alone (Finalize_task exec env now i fn) ?s") auto
  let ?es = "take (nat limit) (sort_newest (mem_list before (mem t) @ rows))"
  have run: "\<exists>ss. pool_run s (map (op_task exec) [OpList limit before, OpFinalize env now i fn]) ss s2
      [Ret (Listed (Inr ?es)), Ret (Did (Inr ()))]"
    unfolding list.map
    by (rule pool_run_between [OF List_sections [OF assms(5)], where x = "Inr rows" and ?s1.0 = ?s and ?s2.0 = s2])
      (simp_all add: sh_exec_def assms(6) f mem_list_alone)
  have "i \<notin> ID ` set rows"
    using listed_rows [OF assms(1,6)] store_invD(7) [OF assms(3) l(1)] by fastforce
  moreover have "i \<notin> ID ` set (mem_list before (mem t))"
  proof -
    have "mem t = mem_delete i (mem (seen ?s))" by (rule sql_engine.Finalize_success [OF assms(1) I l(2) kp fin])
    moreover have "store_inv tbl t" by (rule sql_engine.store_inv_Finalize [OF assms(1) I kp fin])
    ultimately have "mem_get i (mem t) = None" "store_inv tbl t" using I by (simp_all add: store_inv_def)
    then show ?thesis using mem_list_ids(2) by (fastforce simp: in_memory_def)
  qed
  ultimately have "i \<notin> ID ` set ?es" by (auto simp: sort_newest_def dest!: in_set_takeD)
  moreover have "visible tbl i s2" "visible tbl i s" using f(2) assms(8) l(1) by (auto simp: visible_def row_of_def)
  ultimately show ?thesis using run by blast
qed

text \<open>The first process of a pool stays where it is while the other runs up to a point.\<close>

lemma pool_run_prefix:
  assumes "pool_run s0 ps0 ss s ps" "i < length ps" "ps ! i = then_do p g" "alone p s = (x, s')"
  shows "\<exists>ss'. pool_run s0 ps0 ss' s' (ps[i := g x])"
  using assms
proof (induction p arbitrary: ss s ps)
  case (Ret y)
  then have "ps[i := g x] = ps" by (metis alone.simps(1) list_update_id prod.inject then_do.simps(1))
  with Ret show ?case by auto
next
  case (Act a)
  obtain s1 p1 where a: "a s = (s1, p1)" by fastforce
  have "ps ! i = Act (map_prod id (\<lambda>p. then_do p g) \<circ> a)" using Act.prems(3) by simp
  from pool_run.turn [OF Act.prems(1) pool_step.intros [OF Act.prems(2) this]] a
  have "pool_run s0 ps0 (s # ss) s1 (ps[i := then_do p1 g])" by simp
  from Act.IH [OF a this] Act.prems a show ?case by simp
qed

lemma Finalize_sections:
  "op_task exec (OpFinalize env now i fn) = then_do (reading (sh_get i)) (\<lambda>live. case live of
     None \<Rightarrow> Ret (Did (Inl ErrNotFound))
   | Some a \<Rightarrow> then_do (close_task now fn a) (\<lambda>e. then_do (record_task exec env i e) (\<lambda>r. Ret (Did r))))"
  by (auto simp: Finalize_task_def then_do_assoc fun_eq_iff intro!: arg_cong [where f = "then_do _"] split: option.split)

definition recorded_rest ::
  "'db engine \<Rightarrow> os_env \<Rightarrow> bytes \<Rightarrow> entry \<Rightarrow> go_error + unit \<Rightarrow> ('db, reply) task" where
  "recorded_rest exec env i e r = (case r of
        Inl er \<Rightarrow> Ret (Did (Inl er))
      | Inr _ \<Rightarrow>
        then_do (doing (sh_delete i)) (\<lambda>_.
        then_do (doing (sh_publish EventUpdated i (Some e) [])) (\<lambda>_.
        then_do (retention_task exec) (\<lambda>r. case r of
           Inl er \<Rightarrow> Ret (Did (Inl er))
         | Inr purged \<Rightarrow> then_do (for_each (purge_task env) purged) (\<lambda>_. Ret (Did (Inr ())))))))"

lemma record_sections:
  "then_do (record_task exec env i e) (\<lambda>r. Ret (Did r)) =
     then_do (atomic (sh_exec (db_insert exec e))) (recorded_rest exec env i e)"
  by (auto simp: record_task_def recorded_rest_def then_do_assoc fun_eq_iff intro!: arg_cong [where f = "then_do _"]
      split: sum.split)

lemma all_rows:
  assumes "sql_engine exec tbl" "db_list exec limit before d = (Inr rows, d')" "IsZero before"
    and "tbl d k \<noteq> None" "int (length rows) < limit"
  shows "k \<in> ID ` set rows"
proof -
  obtain r where r: "tbl d k = Some r" using assms(4) by auto
  obtain rs where rs: "newest_first {row \<in> ran (tbl d). IsZero before \<or> r_started_at row < UnixMilli before} rs"
    "map scanEntry (sql_limit limit rs) = map Inr rows"
    using sql_engine.db_list_cases(2) [OF assms(1,2) refl] by blast
  have "length (sql_limit limit rs) = length rows" using rs(2) by (metis length_map)
  then have "sql_limit limit rs = rs" using assms(5) by (auto simp: sql_limit_def min_def split: if_splits)
  moreover have "r \<in> set rs" using rs(1) r assms(3) by (auto simp: newest_first_def intro: ranI)
  ultimately have "scanEntry r \<in> Inr ` set rows" using rs(2) by (metis image_eqI list.set_map)
  then obtain e where e: "e \<in> set rows" "scanEntry r = Inr e" by auto
  with sql_engine.primary_key [OF assms(1) r] scan_fields [OF e(2)] show ?thesis by (metis imageI)
qed

lemma list_repeats:
  assumes "sql_engine exec tbl" "sh_ok s" "store_inv tbl (seen s)" "sh_get i s = Some a" "\<forall>f. fn = Some f \<longrightarrow> keeps_id f"
    and "db_insert exec (snapshot (finalized now fn (sh_heap s a))) (sh_db s) = (Inr (), d)"
    and "0 < limit" "IsZero before" "db_list exec limit before d = (Inr rows, d')" "int (length rows + length (sh_map s)) \<le> limit"
  shows "\<exists>ss s' es r. pool_run s (map (op_task exec) [OpList limit before, OpFinalize env now i fn]) ss s'
    [Ret (Listed (Inr es)), Ret (Did r)] \<and> \<not> distinct (map ID es)"
proof -
  let ?L = "op_task exec (OpList limit before)"
  let ?ps = "[?L, op_task exec (OpFinalize env now i fn)]"
  let ?e = "snapshot (finalized now fn (sh_heap s a))"
  obtain s1 where c: "alone (close_task now fn a) s = (?e, s1)" "sh_db s1 = sh_db s" "sh_map s1 = sh_map s"
    "sh_heap s1 = (sh_heap s)(a := finalized now fn (sh_heap s a))"
    by (simp add: close_task_def close_bodies_sections at_live_def)
  let ?G = "\<lambda>live. case live of
     None \<Rightarrow> Ret (Did (Inl ErrNotFound))
   | Some a \<Rightarrow> then_do (close_task now fn a) (\<lambda>e. then_do (record_task exec env i e) (\<lambda>r. Ret (Did r)))"
  have "pool_run s ?ps [s] s (?ps[1 := ?G (Some a)])"
    by (rule pool_run_section [OF pool_run.start, where f = "\<lambda>s. (sh_get i s, s)" and g = ?G])
      (simp_all add: Finalize_sections assms(4) del: op_task.simps)
  then have "pool_run s ?ps [s] s [?L, ?G (Some a)]" by simp
  from pool_run_prefix [OF this, of 1 "close_task now fn a", OF _ _ c(1)]
  obtain ss where R2: "pool_run s ?ps ss s1 [?L, then_do (record_task exec env i ?e) (\<lambda>r. Ret (Did r))]" by auto
  let ?s2 = "s1\<lparr>sh_db := d\<rparr>"
  from pool_run_section [OF R2, of 1, unfolded record_sections, where f = "sh_exec (db_insert exec ?e)"]
  have R3: "pool_run s ?ps (s1 # ss) ?s2 [?L, recorded_rest exec env i ?e (Inr ())]"
    using assms(6) c(2) by (simp add: sh_exec_def)
  let ?zs = "mem_list before (mem (seen ?s2)) @ rows"
  let ?es = "take (nat limit) (sort_newest ?zs)"
  let ?s3 = "?s2\<lparr>sh_db := d'\<rparr>"
  have "alone ?L ?s2 = (Listed (Inr ?es), ?s3)"
    unfolding List_sections [OF assms(7)] by (simp add: sh_exec_def assms(9) mem_list_alone seen_def)
  from pool_run_alone [OF R3, of 0, unfolded nth_Cons_0, OF _ this]
  obtain ss' where R4: "pool_run s ?ps ss' ?s3 [Ret (Listed (Inr ?es)), recorded_rest exec env i ?e (Inr ())]" by auto
  obtain r s4 where "alone (recorded_rest exec env i ?e (Inr ())) ?s3 = (Did r, s4)"
  proof -
    have "\<exists>r s4. alone (recorded_rest exec env i ?e (Inr ())) ?s3 = (Did r, s4)"
      by (auto simp: recorded_rest_def case_prod_beta split: sum.split)
    with that show thesis by blast
  qed
  with pool_run_alone [OF R4, of 1]
  obtain ss'' where R5: "pool_run s ?ps ss'' s4 [Ret (Listed (Inr ?es)), Ret (Did r)]" by auto
  have id: "ID ?e = i"
    using sql_engine.finalized_ID [OF assms(1,3), of i "sh_heap s a" fn now] assms(4,5) by simp
  have ia: "(i, a) \<in> set (sh_map s)" using assms(2,4) by (simp add: sh_get_in)
  have "?e \<in> set (mem_list before (mem (seen ?s2)))"
    using assms(8) c(3,4) by (auto simp: mem_list_def seen_def image_image intro!: image_eqI [OF _ ia])
  with id have "i \<in> ID ` set (mem_list before (mem (seen ?s2)))" by blast
  moreover have "i \<in> ID ` set rows"
  proof (rule all_rows [OF assms(1,9,8)])
    show "tbl d i \<noteq> None" using sql_engine.db_insert_cases [OF assms(1,6)] id by auto
    show "int (length rows) < limit" using assms(10) ia by (cases "sh_map s") auto
  qed
  ultimately have "\<not> distinct (map ID ?zs)" by auto
  moreover have "length ?zs \<le> nat limit" using assms(10) c(3) by (simp add: mem_list_def seen_def assms(8))
  then have "?es = sort_newest ?zs" by (simp add: sort_newest_def)
  moreover have "mset (map ID (sort_newest ?zs)) = mset (map ID ?zs)" by (simp add: sort_newest_def)
  ultimately have "\<not> distinct (map ID ?es)" by (metis mset_eq_imp_distinct_iff)
  with R5 show ?thesis by (auto simp del: op_task.simps)
qed

text \<open>Every store is what some shared state stands for.\<close>

definition share :: "'db store \<Rightarrow> 'db shared" where
  "share s = \<lparr>sh_map = zip (map fst (mem s)) [0..<length (mem s)], sh_heap = (\<lambda>a. snd (mem s ! a)),
     sh_next = length (mem s), sh_db = db s, sh_blobs = blobs s, sh_files = files s, sh_events = events s,
     sh_cap = maxEntries s\<rparr>"

lemma seen_share: "seen (share s) = s"
  by (rule store.equality) (auto simp: seen_def share_def intro!: nth_equalityI)

lemma share_ok: "mem_ok (mem s) \<Longrightarrow> sh_ok (share s)"
  by (auto simp: sh_ok_def share_def mem_ok_def dest: set_zip_rightD)

lemma share_get: "mem_get i (mem s) = Some l \<Longrightarrow> \<exists>a. sh_get i (share s) = Some a \<and> sh_heap (share s) a = l"
proof -
  assume "mem_get i (mem s) = Some l"
  then have "map_option (sh_heap (share s)) (sh_get i (share s)) = Some l"
    using mem_seen [of i "share s"] by (simp add: seen_share)
  then show ?thesis by (auto split: option.splits)
qed

lemma done_store_row: "\<exists>row. table_tbl (db done_store) ''1f'' = Some row"
proof -
  have "case table_tbl (db done_store) ''1f'' of None \<Rightarrow> False | Some r \<Rightarrow> True" by code_simp
  then show ?thesis by (auto split: option.splits)
qed

text \<open>
  C13. A list is no snapshot of the store. \<open>List\<close> reads the history first and the memory second, and
  \<open>Finalize\<close> writes the row first and drops the memory copy second. An entry that is finalized between the
  two reads is on neither, although it is visible before and after; one whose row is written before the first read and
  whose copy is dropped after the second is on both, and the page has it twice. From every state in
  which the calls succeed, for a page long enough, there are such runs.
\<close>

theorem list_is_not_a_snapshot:
  assumes "sql_engine exec tbl" "sh_ok s" "store_inv tbl (seen s)" "\<forall>f. fn = Some f \<longrightarrow> keeps_id f"
    and "0 < limit" "IsZero before" "sh_get i s = Some a"
    and "db_list exec limit before (sh_db s) = (Inr rows, d)"
    and "Finalize exec env now i fn ((seen s)\<lparr>db := d\<rparr>) = (Inr (), t)" "tbl (db t) i = Some row"
    and "db_insert exec (snapshot (finalized now fn (sh_heap s a))) (sh_db s) = (Inr (), d1)"
    and "db_list exec limit before d1 = (Inr rows1, d2)" "int (length rows1 + length (sh_map s)) \<le> limit"
  shows "(visible tbl i s \<and> (\<exists>ss s' es.
      pool_run s (map (op_task exec) [OpList limit before, OpFinalize env now i fn]) ss s'
        [Ret (Listed (Inr es)), Ret (Did (Inr ()))] \<and> i \<notin> ID ` set es \<and> visible tbl i s')) \<and>
    (\<exists>ss s' es r. pool_run s (map (op_task exec) [OpList limit before, OpFinalize env now i fn]) ss s'
      [Ret (Listed (Inr es)), Ret (Did r)] \<and> \<not> distinct (map ID es))"
  using list_misses [OF assms(1-5,8-10)] list_repeats [OF assms(1-3,7,4,11,5,6,12,13)] by blast

lemma one_row:
  "table_exec [] (InsertOrReplace r) = (Inr Done, [r])"
  "scanEntry r = Inr e \<Longrightarrow> db_list table_exec 100 zero_time [r] = (Inr [e], [r])"
  by (simp_all add: db_list_def query_rows_def table_sorted_def table_rows_def sql_limit_def IsZero_def)

lemma list_is_not_a_snapshot_witness:
  "(\<exists>ss s' es. pool_run (share one_store)
      (map (op_task table_exec) [OpList 100 zero_time, OpFinalize os_fine (Time 9000000) ''1f'' None]) ss s'
      [Ret (Listed (Inr es)), Ret (Did (Inr ()))] \<and> ''1f'' \<notin> ID ` set es) \<and>
   (\<exists>ss s' es r. pool_run (share one_store)
      (map (op_task table_exec) [OpList 100 zero_time, OpFinalize os_fine (Time 9000000) ''1f'' None]) ss s'
      [Ret (Listed (Inr es)), Ret (Did r)] \<and> \<not> distinct (map ID es))"
proof -
  obtain row where row: "table_tbl (db done_store) ''1f'' = Some row" using done_store_row by blast
  have ok: "sh_ok (share one_store)" using one_store_inv by (intro share_ok) (simp add: store_inv_def)
  have empty: "db one_store = []" "length (mem one_store) = 1" by code_simp+
  have rows: "db_list table_exec 100 zero_time (sh_db (share one_store)) = (Inr [], db one_store)"
    by (simp add: share_def) code_simp
  have fin: "Finalize table_exec os_fine (Time 9000000) ''1f'' None
      ((seen (share one_store))\<lparr>db := db one_store\<rparr>) = (Inr (), done_store)"
    using done_store_ok by (simp add: seen_share)
  obtain l where "mem_get ''1f'' (mem one_store) = Some l" using one_store_live by blast
  then obtain a where a: "sh_get ''1f'' (share one_store) = Some a" using share_get by blast
  let ?e = "snapshot (finalized (Time 9000000) None (sh_heap (share one_store) a))"
  have ins: "db_insert table_exec ?e (sh_db (share one_store)) = (Inr (), [row_for ?e])"
    using exec_insert [of "share one_store" ?e] by (simp add: share_def empty sh_exec_def split: prod.splits)
  obtain e where "scanEntry (row_for ?e) = Inr e" using entry_row_scan [of ?e] by (auto simp: row_for_def)
  then have two: "db_list table_exec 100 zero_time [row_for ?e] = (Inr [e], [row_for ?e])" by (rule one_row(2))
  have small: "int (length [e] + length (sh_map (share one_store))) \<le> 100" by (simp add: share_def empty)
  have "IsZero zero_time" by (simp add: IsZero_def)
  from list_is_not_a_snapshot [OF table.sql_engine_axioms ok _ _ _ this a rows fin row ins two small] one_store_inv
  show ?thesis by (simp add: seen_share del: op_task.simps) blast
qed

section \<open>A chunk that arrives while its entry is being finished\<close>

lemma closed_write:
  assumes "writes_ok env" "fd b = None" "err b = None" "p \<noteq> []" "maxInline bs < buf_size b + int (length p)"
    and "buf_Write bs env p b fs = (r, b', fs')"
  shows "r = Inr (length p) \<and> file_at fs' (spill_path bs b) = Some (preview b @ p)"
  using assms
  by (auto simp: writes_ok_def buf_Write_def open_spill_def write_spilled_def os_Create_def os_Write_def
      file_at_def Let_def update_conv' split: option.splits)

lemma purge_heap: "sh_heap (snd (alone (for_each (purge_task env) is) s)) = sh_heap s"
  by (induction "is" arbitrary: s) (auto simp: case_prod_beta purge_task_def sh_remove_def sh_publish_def
      split: prod.split)

lemma Finalize_heap:
  assumes "sh_get i s = Some a" "alone (Finalize_task exec env now i fn) s = (r, s')"
  shows "sh_heap s' a = finalized now fn (sh_heap s a)"
proof -
  have "sh_heap (snd (alone (record_task exec env i e) s)) = sh_heap s" for e and s :: "'a shared"
    by (auto simp: record_task_def sh_exec_def retention_alone purge_heap case_prod_beta sh_delete_def
        sh_publish_def split: sum.split)
  moreover have "sh_heap (snd (alone (close_task now fn a) s)) a = finalized now fn (sh_heap s a)"
    by (simp add: close_task_def close_bodies_sections)
  moreover have "s' = snd (alone (record_task exec env i (fst (alone (close_task now fn a) s)))
      (snd (alone (close_task now fn a) s)))"
    using assms by (simp add: Finalize_task_def case_prod_beta del: alone_Act)
  ultimately show ?thesis by simp
qed

lemma AppendResponse_sections:
  "op_task exec (OpAppend env now i p d) = then_do (reading (sh_get i)) (\<lambda>live. then_do (case live of
     None \<Rightarrow> Ret (Inl ErrNotFound) | Some a \<Rightarrow> append_task env now i p d a) (\<lambda>r. Ret (Did r)))"
  by (simp add: AppendResponse_task_def then_do_assoc)

lemma append_alone:
  assumes "sh_write SideResponse env a p s = (Inr n, s1)"
  shows "\<exists>s'. alone (append_task env now i p d a) s = (Inr (), s') \<and> sh_files s' = sh_files s1 \<and> sh_db s' = sh_db s"
  using assms by (auto simp: append_task_def at_live_def sh_publish_def sh_write_def Let_def split: prod.splits)

lemma late_write:
  assumes "buf_holds (sh_blobs s) fs c b" "maxInline (sh_blobs s) < int (length c)" "writes_ok env" "p \<noteq> []"
    and "resp (sh_heap s a) = buf_Close b"
  shows "\<exists>s'. sh_write SideResponse env a p s = (Inr (length p), s') \<and> sh_db s' = sh_db s \<and>
    body_of (sh_files s') (path b) q = Some (take (nat (maxInline (sh_blobs s))) c @ p)"
proof -
  let ?b = "buf_Close b"
  have b: "fd ?b = None" "err ?b = None" "buf_size ?b = int (length c)" "path b = spill_path (sh_blobs s) ?b"
    "preview ?b = take (nat (maxInline (sh_blobs s))) c" "path b \<noteq> []"
    using assms(1,2) by (auto simp: buf_holds_def buf_inv_def spill_ok_def buf_Close_def split: option.split)
  obtain w b' fs' where W: "buf_Write (sh_blobs s) env p ?b (sh_files s) = (w, b', fs')" by (rule prod_cases3)
  have big: "maxInline (sh_blobs s) < buf_size ?b + int (length p)" using assms(2) b(3) by simp
  from closed_write [OF assms(3) b(1,2) assms(4) big W] W b(4-6) assms(5) show ?thesis
    by (auto simp: sh_write_def side_defs Let_def at_live_def body_of_def)
qed

text \<open>
  C12. A chunk that arrives while its entry is being finalized destroys the recorded body.
  \<open>AppendResponse\<close> looks the entry up before \<open>Finalize\<close> removes it, and writes to its buffer after
  \<open>Finalize\<close> closed it. When the response \<open>c\<close> had spilled to disk the write creates its file anew: both calls
  report success, the row that was written says \<open>c\<close> and its size, and the file it names
  has no more than the preview of \<open>c\<close> and the late chunk.
\<close>

theorem late_append_corrupts_history:
  assumes "sql_engine exec tbl" "sh_ok s" "store_inv tbl (seen s)" "\<forall>f. fn = Some f \<longrightarrow> keeps_id f"
    and "side_holds tbl (seen s) i SideResponse c" "maxInline (sh_blobs s) < int (length c)"
    and "Finalize exec env now i fn (seen s) = (Inr (), t)" "tbl (db t) i = Some row"
    and "writes_ok env'" "p \<noteq> []"
  shows "\<exists>ss s' e. pool_run s (map (op_task exec) [OpAppend env' now' i p d, OpFinalize env now i fn]) ss s'
      [Ret (Did (Inr ())), Ret (Did (Inr ()))] \<and>
    tbl (sh_db s') i = Some row \<and> scanEntry row = Inr e \<and> ResponseBodySize e = int (length c) \<and>
    body_of (sh_files s') (ResponseBodyPath e) (ResponseBody e) = Some (take (nat (maxInline (sh_blobs s))) c @ p)"
proof -
  obtain a where a: "sh_get i s = Some a"
    using assms(7) by (cases "sh_get i s") (auto simp: Finalize_def)
  let ?l = "sh_heap s a" and ?e = "stored (snapshot (finalized now fn (sh_heap s a)))"
  have l: "mem_get i (mem (seen s)) = Some ?l" using a by simp
  have kp: "\<And>f. fn = Some f \<Longrightarrow> keeps_id f" using assms(4) by blast
  have B: "buf_holds (sh_blobs s) (sh_files s) c (resp ?l)" using assms(5) l by (simp add: side_holds_def side_buf_def)
  obtain s2 where f: "alone (Finalize_task exec env now i fn) s = (Inr (), s2)" "seen s2 = t"
    using Finalize_alone [OF assms(2), of exec env now i fn] assms(7)
    by (cases "alone (Finalize_task exec env now i fn) s") auto
  have H: "resp (sh_heap s2 a) = buf_Close (resp ?l)"
    using Finalize_heap [OF a f(1)] by (simp add: close_bodies_def live_update_def)
  have "blobs t = blobs (seen s)" by (rule sql_engine.Finalize_success [OF assms(1,3) l kp assms(7)])
  then have blobs: "sh_blobs s2 = sh_blobs s" using f(2) by auto
  obtain s3 where w: "sh_write SideResponse env' a p s2 = (Inr (length p), s3)" "sh_db s3 = sh_db s2"
    "body_of (sh_files s3) (path (resp ?l)) (ResponseBody ?e) = Some (take (nat (maxInline (sh_blobs s))) c @ p)"
    using late_write [of s2, unfolded blobs, OF B assms(6,9,10) H] by blast
  obtain s4 where A: "alone (append_task env' now' i p d a) s2 = (Inr (), s4)" "sh_files s4 = sh_files s3" "sh_db s4 = sh_db s2"
    using append_alone [OF w(1)] by metis
  have "\<exists>ss. pool_run s (map (op_task exec) [OpAppend env' now' i p d, OpFinalize env now i fn]) ss s4
      [Ret (Did (Inr ())), Ret (Did (Inr ()))]"
    unfolding list.map
    by (rule pool_run_between [OF AppendResponse_sections, where x = "Some a" and ?s1.0 = s and ?s2.0 = s2]) (simp_all add: a f A)
  moreover have "scanEntry row = Inr ?e"
    by (rule sql_engine.Finalize_outcome(2) [OF assms(1,3) kp assms(7) l assms(8)])
  moreover have "ResponseBodySize ?e = int (length c)" "ResponseBodyPath ?e = path (resp ?l)"
    using B by (simp_all add: stored_def snapshot_def close_bodies_def live_update_def buf_state_def split_def Let_def
        buf_holds_def buf_inv_def)
  moreover have "tbl (sh_db s4) i = Some row" using assms(8) f(2) A(3) by auto
  ultimately show ?thesis using w(3) unfolding A(2) [symmetric] by (metis (no_types, lifting))
qed

lemma late_append_corrupts_history_witness:
  "\<exists>ss s' e row. pool_run (share one_store)
      (map (op_task table_exec) [OpAppend os_fine (Time 8) ''1f'' ''gh'' True, OpFinalize os_fine (Time 9000000) ''1f'' None])
      ss s' [Ret (Did (Inr ())), Ret (Did (Inr ()))] \<and>
    table_tbl (sh_db s') ''1f'' = Some row \<and> scanEntry row = Inr e \<and> ResponseBodySize e = 6 \<and>
    body_of (sh_files s') (ResponseBodyPath e) (ResponseBody e) = Some ''abcdgh''"
proof -
  obtain row where row: "table_tbl (db done_store) ''1f'' = Some row" using done_store_row by blast
  have ok: "sh_ok (share one_store)" using one_store_inv by (intro share_ok) (simp add: store_inv_def)
  have "captured table_tbl (history_append ''1f'' SideResponse ''abcdef'' True ((\<lambda>_ _. None)(''1f'' := \<lambda>_. Some []))) one_store"
    using table.captured_run [OF one_run table.store_inv_New [OF New_small fs_ok_empty]]
    by (simp add: table_tbl_def captured_def)
  then have holds: "side_holds table_tbl (seen (share one_store)) ''1f'' SideResponse ''abcdef''"
    by (auto simp: captured_def history_append_def seen_share split: if_splits)
  have "blobs one_store = small_blobs" by code_simp
  then have "maxInline (sh_blobs (share one_store)) = 4" by (simp add: share_def small_blobs_def)
  moreover have "writes_ok os_fine" by (simp add: writes_ok_def os_fine_def)
  moreover have "Finalize table_exec os_fine (Time 9000000) ''1f'' None (seen (share one_store)) = (Inr (), done_store)"
    using done_store_ok by (simp add: seen_share)
  ultimately show ?thesis
    using late_append_corrupts_history [OF table.sql_engine_axioms ok _ _ holds _ _ row, of None os_fine "Time 9000000"
        os_fine "''gh''" "Time 8" True] one_store_inv
    by (simp add: seen_share del: op_task.simps) blast
qed

end
