(* ===== verification/Formats.thy ===== *)
theory Formats
  imports Entry Json
begin

text \<open>
  \<open>internal/proxy/capture.go\<close>, the pure part: the detection of payload formats and the Ollama
  preview.
\<close>

section \<open>Formats\<close>

text \<open>The media type: lower case, without white space around it and without parameters.\<close>

definition media_type :: "bytes \<Rightarrow> bytes" where
  "media_type contentType =
     (let ct = ToLower (TrimSpace contentType)
      in case IndexByte ct CHR '';'' of Some i \<Rightarrow> TrimSpace (take i ct) | None \<Rightarrow> ct)"

definition classify :: "bytes \<Rightarrow> format \<times> bool" where
  "classify ct =
     (if ct = [] then ([], False)
      else if Contains ct ''event-stream'' then (FormatSSE, True)
      else if Contains ct ''ndjson'' \<or> Contains ct ''jsonlines'' \<or> HasSuffix ct ''jsonl''
      then (FormatNDJSON, True)
      else if ct = ''application/json'' \<or> HasSuffix ct ''+json'' \<or> ct = ''text/json''
      then (FormatJSON, True)
      else if ct = ''application/xml'' \<or> ct = ''text/xml'' \<or> HasSuffix ct ''+xml''
      then (FormatXML, True)
      else ([], False))"

definition formatFromContentType :: "bytes \<Rightarrow> format \<times> bool" where
  "formatFromContentType contentType = classify (media_type contentType)"

definition newline :: char where
  "newline = CHR 0x0A"

text \<open>The loop of \<open>isNDJSON\<close>: the number of non-blank lines, or \<open>None\<close> at one that does not parse.\<close>

fun ndjson_lines :: "bytes list \<Rightarrow> nat option" where
  "ndjson_lines [] = Some 0"
| "ndjson_lines (raw # raws) =
     (let line = TrimSpace raw in
      if length line = 0 then ndjson_lines raws
      else if \<not> json_Valid line then None
      else map_option Suc (ndjson_lines raws))"

definition isNDJSON :: "bytes \<Rightarrow> bool" where
  "isNDJSON body =
     (case ndjson_lines (Split newline body) of None \<Rightarrow> False | Some lines \<Rightarrow> lines > 1)"

definition looksLikeSSE :: "bytes \<Rightarrow> bool" where
  "looksLikeSSE body \<longleftrightarrow>
     (\<exists>p \<in> set [''data:'', ''event:'', ''id:'', ''retry:'', '':'']. HasPrefix body p)"

definition sniffFormat :: "bytes \<Rightarrow> format" where
  "sniffFormat body =
     (let trimmed = TrimSpace body in
      case trimmed of
        [] \<Rightarrow> FormatRaw
      | c # _ \<Rightarrow>
        (if c = CHR ''{'' \<or> c = CHR ''['' then (if isNDJSON trimmed then FormatNDJSON else FormatJSON)
         else if c = CHR ''<'' then FormatXML
         else if looksLikeSSE trimmed then FormatSSE
         else FormatRaw))"

definition detectFormat :: "bytes \<Rightarrow> bytes \<Rightarrow> format" where
  "detectFormat contentType body =
     (case formatFromContentType contentType of
        (f, True) \<Rightarrow> f
      | (_, False) \<Rightarrow> sniffFormat body)"

definition isStreaming :: "format \<Rightarrow> bool" where
  "isStreaming f \<longleftrightarrow> f = FormatNDJSON \<or> f = FormatSSE"

definition ollamaPaths :: "bytes list" where
  "ollamaPaths = [''/api/generate'', ''/api/chat'', ''/api/embeddings'']"

definition isOllamaPath :: "bytes \<Rightarrow> bool" where
  "isOllamaPath pth \<longleftrightarrow> (\<exists>p \<in> set ollamaPaths. pth = p \<or> HasSuffix pth p)"

section \<open>The Ollama preview\<close>

record ollamaFragment =
  Response :: bytes
  Message_Content :: bytes

text \<open>
  How \<open>encoding/json\<close> matches the key of an object against the name of a field: equality after
  folding case. The runes outside ASCII that fold to an ASCII letter are U+017F and U+212A.
\<close>

fun fold_name :: "bytes \<Rightarrow> bytes" where
  "fold_name [] = []"
| "fold_name (c # s) =
     (if prefix [CHR 0xC5, CHR 0xBF] (c # s) then CHR ''S'' # fold_name (drop 1 s)
      else if prefix [CHR 0xE2, CHR 0x84, CHR 0xAA] (c # s) then CHR ''K'' # fold_name (drop 2 s)
      else upper_byte c # fold_name s)"

definition names :: "bytes \<Rightarrow> bytes \<Rightarrow> bool" where
  "names field key \<longleftrightarrow> fold_name key = fold_name field"

text \<open>
  A member into a string field: a string is stored, \<open>null\<close> leaves the field as it is, any other
  value is a type error, which the decoder remembers while it goes on.
\<close>

definition set_string :: "json \<Rightarrow> bytes \<Rightarrow> bytes \<times> bool" where
  "set_string v old =
     (case v of JStr s \<Rightarrow> (s, True) | JNull \<Rightarrow> (old, True) | _ \<Rightarrow> (old, False))"

fun set_message :: "(bytes \<times> json) list \<Rightarrow> bytes \<Rightarrow> bytes \<times> bool" where
  "set_message [] old = (old, True)"
| "set_message ((k, v) # ms) old =
     (if names ''content'' k
      then (let (new, ok) = set_string v old; (res, ok') = set_message ms new in (res, ok \<and> ok'))
      else set_message ms old)"

fun set_fragment :: "(bytes \<times> json) list \<Rightarrow> ollamaFragment \<Rightarrow> ollamaFragment \<times> bool" where
  "set_fragment [] f = (f, True)"
| "set_fragment ((k, v) # ms) f =
     (if names ''response'' k
      then (let (new, ok) = set_string v (Response f); (res, ok') = set_fragment ms (f\<lparr>Response := new\<rparr>)
            in (res, ok \<and> ok'))
      else if names ''message'' k
      then (let (new, ok) =
              (case v of
                 JObj ns \<Rightarrow> set_message ns (Message_Content f)
               | JNull \<Rightarrow> (Message_Content f, True)
               | _ \<Rightarrow> (Message_Content f, False));
                (res, ok') = set_fragment ms (f\<lparr>Message_Content := new\<rparr>)
            in (res, ok \<and> ok'))
      else set_fragment ms f)"

text \<open>\<open>json.Unmarshal(line, &f)\<close> into a fresh fragment; \<open>None\<close> when it returns an error.\<close>

definition unmarshal_fragment :: "bytes \<Rightarrow> ollamaFragment option" where
  "unmarshal_fragment line =
     (let zero = \<lparr>Response = [], Message_Content = []\<rparr> in
      case json_parse line of
        None \<Rightarrow> None
      | Some (JObj ms) \<Rightarrow> (let (f, ok) = set_fragment ms zero in if ok then Some f else None)
      | Some JNull \<Rightarrow> Some zero
      | Some _ \<Rightarrow> None)"

text \<open>One turn of the loop: what a line adds to the preview.\<close>

definition preview_json :: "bytes \<Rightarrow> bytes" where
  "preview_json line =
     (case unmarshal_fragment line of
        None \<Rightarrow> []
      | Some f \<Rightarrow> Response f @ Message_Content f)"

definition preview_line :: "format \<Rightarrow> bytes \<Rightarrow> bytes" where
  "preview_line fmt raw =
     (let line = TrimSpace raw in
      if length line = 0 then []
      else if fmt = FormatSSE then
        (if \<not> HasPrefix line ''data:'' then []
         else let line' = TrimSpace (drop (length ''data:'') line) in
              if line' = ''[DONE]'' then [] else preview_json line')
      else preview_json line)"

definition OllamaPreview :: "format \<Rightarrow> bytes \<Rightarrow> bytes" where
  "OllamaPreview fmt body = concat (map (preview_line fmt) (Split newline body))"

section \<open>Lines\<close>

lemma Split_lines:
  "concat (map (\<lambda>l. l @ [c]) (butlast (Split c s))) @ last (Split c s) = s"
  by (induction s) (auto split: list.splits)

lemma last_Split: "c \<notin> set (last (Split c s))"
  by (rule Split_no_sep [of _ c s]) simp

lemma Split_index:
  "IndexByte s c = Some i \<Longrightarrow> Split c s = take i s # Split c (drop (i + 1) s)"
  using Split_append_sep IndexByte_split IndexByte_SomeD by (metis Suc_eq_plus1)


lemma Split_append: "Split c (xs @ c # ys) = Split c xs @ Split c ys"
  by (induction xs) (auto split: list.splits)

section \<open>Trimming around bytes that are not white space\<close>

lemma strip_any_stop:
  assumes "\<forall>p \<in> set ps. c \<notin> set p"
  shows "\<exists>zs. strip_any ps (ys @ c # xs) = zs @ c # xs"
proof (induction ys rule: measure_induct_rule [where f = length])
  case (less ys)
  show ?case
  proof (cases "find (\<lambda>p. p \<noteq> [] \<and> prefix p (ys @ c # xs)) ps")
    case None
    then show ?thesis by (subst strip_any.simps) auto
  next
    case (Some p)
    then have p: "p \<noteq> []" "prefix p (ys @ c # xs)" "p \<in> set ps" by (auto simp: find_Some_iff)
    have "length p \<le> length ys"
    proof (rule ccontr)
      assume "\<not> length p \<le> length ys"
      with p(2) have "c \<in> set p" by (auto simp: prefix_def append_eq_append_conv2 Cons_eq_append_conv)
      with p(3) assms show False by blast
    qed
    moreover have "0 < length p" using p(1) by simp
    ultimately have "drop (length p) (ys @ c # xs) = drop (length p) ys @ c # xs"
      "length (drop (length p) ys) < length ys"
      unfolding length_drop by (simp, linarith)
    with less [of "drop (length p) ys"] show ?thesis
      by (subst strip_any.simps) (simp add: Some)
  qed
qed

lemma strip_any_spaces:
  assumes "\<forall>x \<in> set sp. [x] \<in> set ps" "\<forall>p \<in> set ps. c \<notin> set p" "\<forall>p \<in> set ps. \<forall>x \<in> set sp. hd p = x \<longrightarrow> p = [x]"
  shows "strip_any ps (sp @ c # xs) = c # xs"
  using assms(1,3)
proof (induction sp)
  case Nil
  have "\<not> prefix p (c # xs)" if "p \<in> set ps" "p \<noteq> []" for p
    using that assms(2) by (auto simp: prefix_Cons)
  then show ?case by (auto intro!: strip_any_fixed)
next
  case (Cons x sp)
  have "[x] \<noteq> [] \<and> prefix [x] ((x # sp) @ c # xs)" "[x] \<in> set ps" using Cons.prems(1) by simp_all
  then have "find (\<lambda>p. p \<noteq> [] \<and> prefix p ((x # sp) @ c # xs)) ps \<noteq> None"
    unfolding find_None_iff by blast
  then obtain p where p: "find (\<lambda>p. p \<noteq> [] \<and> prefix p ((x # sp) @ c # xs)) ps = Some p" by blast
  then have "p \<noteq> []" "prefix p ((x # sp) @ c # xs)" "p \<in> set ps" by (auto simp: find_Some_iff)
  then have "hd p = x" by (cases p) auto
  with \<open>p \<in> set ps\<close> Cons.prems(2) have "p = [x]" by simp
  with p Cons show ?case by (subst strip_any.simps) simp
qed


lemma TrimSpace_between:
  assumes "\<forall>p \<in> set space_runes. hd xs \<notin> set p \<and> last xs \<notin> set p" "xs \<noteq> []"
  shows "TrimSpace xs = xs"
proof -
  obtain c r where c: "xs = c # r" using assms(2) by (cases xs) auto
  have l: "TrimLeftSpace xs = xs"
    using strip_any_spaces [of "[]" space_runes c r] assms(1) by (simp add: TrimLeftSpace_def c)
  obtain d q where d: "rev xs = d # q" "d = last xs" using assms(2) by (cases "rev xs") (auto simp: last_rev [symmetric])
  have "strip_any (map rev space_runes) (d # q) = d # q"
    using strip_any_spaces [of "[]" "map rev space_runes" d q] assms(1) d(2) by simp
  then have "TrimRightSpace xs = xs" unfolding TrimRightSpace_def d(1) [symmetric] by simp
  with l show ?thesis by (simp add: TrimSpace_def)
qed

text \<open>ASCII white space of a header value, and the visible ASCII characters of a media type.\<close>

definition blank :: "char \<Rightarrow> bool" where
  "blank c \<longleftrightarrow> c = CHR 0x20 \<or> c = CHR 0x09"

definition graphic :: "char \<Rightarrow> bool" where
  "graphic c \<longleftrightarrow> between 33 126 c"

lemma graphic_no_space: "graphic c \<Longrightarrow> p \<in> set space_runes \<Longrightarrow> c \<notin> set p"
  by (auto simp: space_runes_def graphic_def between_def byte_def)

lemma space_runes_single:
  assumes "p \<in> set space_runes"
  shows "blank (hd p) \<Longrightarrow> p = [hd p]" "blank (hd (rev p)) \<Longrightarrow> rev p = [hd (rev p)]"
proof -
  have "list_all (\<lambda>p. (blank (hd p) \<longrightarrow> p = [hd p]) \<and> (blank (hd (rev p)) \<longrightarrow> rev p = [hd (rev p)])) space_runes"
    by code_simp
  with assms have "(blank (hd p) \<longrightarrow> p = [hd p]) \<and> (blank (hd (rev p)) \<longrightarrow> rev p = [hd (rev p)])"
    unfolding list_all_iff by blast
  then show "blank (hd p) \<Longrightarrow> p = [hd p]" "blank (hd (rev p)) \<Longrightarrow> rev p = [hd (rev p)]" by blast+
qed

lemma blank_rune: "blank x \<Longrightarrow> [x] \<in> set space_runes"
  by (auto simp: blank_def space_runes_def)

lemma blank_space:
  assumes "\<forall>x \<in> set sp. blank x"
  shows "\<forall>x \<in> set sp. [x] \<in> set space_runes"
    "\<forall>p \<in> set space_runes. \<forall>x \<in> set sp. hd p = x \<longrightarrow> p = [x]"
    "\<forall>x \<in> set sp. [x] \<in> set (map rev space_runes)"
    "\<forall>p \<in> set (map rev space_runes). \<forall>x \<in> set sp. hd p = x \<longrightarrow> p = [x]"
proof -
  show "\<forall>x \<in> set sp. [x] \<in> set space_runes" using assms blank_rune by blast
  then show "\<forall>x \<in> set sp. [x] \<in> set (map rev space_runes)" by force
  show "\<forall>p \<in> set space_runes. \<forall>x \<in> set sp. hd p = x \<longrightarrow> p = [x]"
    using assms space_runes_single(1) by metis
  have "rev p = [hd (rev p)]" if "p \<in> set space_runes" "hd (rev p) \<in> set sp" for p
    using space_runes_single(2) [OF that(1)] assms that(2) by blast
  then show "\<forall>p \<in> set (map rev space_runes). \<forall>x \<in> set sp. hd p = x \<longrightarrow> p = [x]"
    unfolding set_map by blast
qed

lemma TrimLeft_blanks:
  assumes "\<forall>x \<in> set sp. blank x" "graphic c"
  shows "TrimLeftSpace (sp @ c # xs) = c # xs"
  unfolding TrimLeftSpace_def
proof (rule strip_any_spaces)
  show "\<forall>p \<in> set space_runes. c \<notin> set p" using graphic_no_space [OF assms(2)] by blast
qed (rule blank_space [OF assms(1)])+

lemma TrimRight_blanks:
  assumes "\<forall>x \<in> set sp. blank x" "graphic c"
  shows "TrimRightSpace (xs @ [c] @ sp) = xs @ [c]"
proof -
  have b: "\<forall>x \<in> set (rev sp). blank x" using assms(1) by simp
  have "strip_any (map rev space_runes) (rev sp @ c # rev xs) = c # rev xs"
  proof (rule strip_any_spaces)
    show "\<forall>p \<in> set (map rev space_runes). c \<notin> set p" using graphic_no_space [OF assms(2)] by auto
  qed (rule blank_space(3,4) [OF b])+
  then show ?thesis by (simp add: TrimRightSpace_def)
qed

lemma TrimRight_stop:
  assumes "graphic c"
  shows "\<exists>zs. TrimRightSpace (xs @ c # ys) = xs @ c # zs"
proof -
  obtain zs where "strip_any (map rev space_runes) (rev ys @ c # rev xs) = zs @ c # rev xs"
    using strip_any_stop [of "map rev space_runes" c "rev ys" "rev xs"] assms graphic_no_space by auto
  then show ?thesis by (auto simp: TrimRightSpace_def)
qed

lemma ToLower_append:
  "\<forall>c \<in> set xs. byte c < 128 \<Longrightarrow> ToLower (xs @ ys) = map lower_byte xs @ ToLower ys"
  by (induction xs) (force simp: ToLower.simps(2) byte_def)+

lemma lower_byte_graphic: "graphic c \<Longrightarrow> graphic (lower_byte c)"
  by (auto simp: graphic_def between_def byte_def lower_byte_def Let_def)

lemma lower_byte_semicolon: "lower_byte c = CHR '';'' \<longleftrightarrow> c = CHR '';''"
proof
  assume l: "lower_byte c = CHR '';''"
  show "c = CHR '';''"
  proof (cases "65 \<le> (of_char c :: nat) \<and> (of_char c :: nat) \<le> 90")
    case True
    with l have "of_char (char_of (of_char c + 32 :: nat)) = (59 :: nat)" by (simp add: lower_byte_def)
    with True show ?thesis by simp
  qed (use l in \<open>auto simp: lower_byte_def Let_def\<close>)
qed (simp add: lower_byte_def)

lemma lower_byte_blank: "blank c \<Longrightarrow> lower_byte c = c"
  by (auto simp: blank_def lower_byte_def)

lemma graphic_ascii: "graphic c \<Longrightarrow> byte c < 128" "blank c \<Longrightarrow> byte c < 128"
  by (auto simp: graphic_def blank_def between_def byte_def)

text \<open>The media type of a well-formed header value.\<close>

lemma media_type_spaces:
  assumes "\<forall>c \<in> set sp1 \<union> set sp2. blank c" "\<forall>c \<in> set mt. graphic c \<and> c \<noteq> CHR '';''" "mt \<noteq> []"
  shows "media_type (sp1 @ mt @ sp2) = map lower_byte mt"
    "media_type (sp1 @ mt @ sp2 @ CHR '';'' # params) = map lower_byte mt"
proof -
  obtain c r where c: "mt = c # r" using assms(3) by (cases mt) auto
  obtain q d where d: "mt = q @ [d]" using assms(3) by (cases mt rule: rev_cases) auto
  have left: "TrimLeftSpace (sp1 @ mt @ xs) = mt @ xs" for xs
    using TrimLeft_blanks [of sp1 c "r @ xs"] assms(1,2) by (simp add: c)
  have right: "TrimRightSpace (xs @ mt @ sp2) = xs @ mt" for xs
    using TrimRight_blanks [of sp2 d "xs @ q"] assms(1,2) by (simp add: d)
  have low: "ToLower (mt @ sp2 @ xs) = map lower_byte mt @ sp2 @ ToLower xs" for xs
    using ToLower_append [of "mt @ sp2" xs] assms(1,2) graphic_ascii lower_byte_blank
    by (force intro!: map_idI)
  have no: "CHR '';'' \<notin> set (map lower_byte mt)" using assms(2) lower_byte_semicolon by force
  show "media_type (sp1 @ mt @ sp2) = map lower_byte mt"
  proof -
    have "TrimSpace (sp1 @ mt @ sp2) = mt" using left [of sp2] right [of "[]"] by (simp add: TrimSpace_def)
    moreover have "ToLower mt = map lower_byte mt"
      using ToLower_append [of mt "[]"] assms(2) graphic_ascii(1) by auto
    ultimately show ?thesis
      using IndexByte_None [THEN iffD2, OF no]
      by (simp only: media_type_def Let_def option.case)
  qed
  have "graphic CHR '';''" by (simp add: graphic_def between_def byte_def)
  from TrimRight_stop [OF this, of "mt @ sp2" params]
  obtain zs where "TrimSpace (sp1 @ mt @ sp2 @ CHR '';'' # params) = mt @ sp2 @ CHR '';'' # zs"
    using left by (auto simp: TrimSpace_def)
  moreover have "ToLower (CHR '';'' # zs) = CHR '';'' # ToLower zs"
    using ToLower_append [of "[CHR '';'']" zs] by (simp add: byte_def lower_byte_def)
  moreover have "CHR '';'' \<notin> set (map lower_byte mt @ sp2)" using no assms(1) by (auto simp: blank_def)
  then have "IndexByte ((map lower_byte mt @ sp2) @ CHR '';'' # ToLower zs) CHR '';''
      = Some (length (map lower_byte mt @ sp2))"
    by (rule IndexByte_append)
  moreover have "TrimSpace (map lower_byte mt @ sp2) = map lower_byte mt"
  proof -
    have "TrimLeftSpace (map lower_byte mt @ sp2) = map lower_byte mt @ sp2"
      using TrimLeft_blanks [of "[]" "lower_byte c" "map lower_byte r @ sp2"] assms(2) lower_byte_graphic
      by (simp add: c)
    moreover have "TrimRightSpace (map lower_byte mt @ sp2) = map lower_byte mt"
      using TrimRight_blanks [of sp2 "lower_byte d" "map lower_byte q"] assms(1,2) lower_byte_graphic
      by (simp add: d)
    ultimately show ?thesis by (simp add: TrimSpace_def)
  qed
  ultimately show "media_type (sp1 @ mt @ sp2 @ CHR '';'' # params) = map lower_byte mt"
    using low [of "CHR '';'' # zs"] by (simp add: media_type_def)
qed


section \<open>Decoding the fragments of a stream\<close>

lemma members_last:
  assumes "parse_value n d (v @ CHR ''}'' # t) = Some (x, CHR ''}'' # t)"
  shows "parse_members (Suc n) d (enc_str k @ CHR '':'' # v @ CHR ''}'' # t) = Some ([(sanitize k, x)], t)"
  using assms by (simp add: enc_str_append parse_str_enc_body)

lemma members_more:
  assumes "parse_value n d (v @ CHR '','' # t) = Some (x, CHR '','' # t)" "parse_members n d t = Some (ms, u)"
  shows "parse_members (Suc n) d (enc_str k @ CHR '':'' # v @ CHR '','' # t) = Some ((sanitize k, x) # ms, u)"
  using assms by (simp add: enc_str_append parse_str_enc_body)

lemma value_object:
  assumes "parse_members n (Suc d) (enc_str k @ w) = Some (ms, t)" "d < maxNestingDepth"
  shows "parse_value (Suc n) d (CHR ''{'' # enc_str k @ w) = Some (JObj ms, t)"
  using assms by (simp add: enc_str_append)

text \<open>A document that some fuel parses completely.\<close>

lemma json_parse_by:
  assumes "parse_value n 0 s = Some (v, [])" "json_fuel s \<le> n"
  shows "json_parse s = Some v"
proof -
  have "parse_value (json_fuel s) 0 s = parse_value n 0 s"
    using assms(2) by (intro parse_fuel(1)) (simp_all add: json_fuel_def)
  with assms(1) show ?thesis by (simp add: json_parse_def skip_ws_def)
qed

text \<open>The two shapes of Ollama's chunks, as \<open>encoding/json\<close> writes them.\<close>

datatype ollama_chunk = Generate bytes bytes | Chat bytes bytes

fun chunk_text :: "ollama_chunk \<Rightarrow> bytes" where
  "chunk_text (Generate model text) = text"
| "chunk_text (Chat model text) = text"

fun chunk_line :: "ollama_chunk \<Rightarrow> bytes" where
  "chunk_line (Generate model text) =
     CHR ''{'' # enc_str ''model'' @ CHR '':'' # enc_str model @ CHR '','' #
       enc_str ''response'' @ CHR '':'' # enc_str text @ CHR '','' #
       enc_str ''done'' @ CHR '':'' # ''false'' @ ''}''"
| "chunk_line (Chat model text) =
     CHR ''{'' # enc_str ''model'' @ CHR '':'' # enc_str model @ CHR '','' #
       enc_str ''message'' @ CHR '':'' # (CHR ''{'' # enc_str ''role'' @ CHR '':'' # enc_str ''assistant'' @ CHR '','' #
         enc_str ''content'' @ CHR '':'' # enc_str text @ ''}'') @ CHR '','' #
       enc_str ''done'' @ CHR '':'' # ''false'' @ ''}''"

lemma value_false: "parse_value (Suc n) d (''false'' @ t) = Some (JBool False, t)"
  by (simp add: skip_ws_Cons json_space_def quote_def)

lemma value_str: "parse_value (Suc n) d (enc_str s @ t) = Some (JStr (sanitize s), t)"
  by (rule parse_value_str) simp

lemma sanitize_ascii: "\<forall>c \<in> set s. byte c < 128 \<Longrightarrow> sanitize s = s"
  by (intro sanitize_valid utf8_Valid_ascii) blast

lemma field_names:
  "sanitize ''model'' = ''model''" "sanitize ''response'' = ''response''" "sanitize ''message'' = ''message''"
  "sanitize ''content'' = ''content''" "sanitize ''role'' = ''role''" "sanitize ''done'' = ''done''"
  by (simp_all add: sanitize_ascii byte_def)

lemma field_matches:
  "names ''response'' ''response''" "names ''message'' ''message''" "names ''content'' ''content''"
  "\<not> names ''response'' ''model''" "\<not> names ''message'' ''model''" "\<not> names ''response'' ''message''"
  "\<not> names ''response'' ''done''" "\<not> names ''message'' ''done''" "\<not> names ''content'' ''role''"
  by (simp_all add: names_def upper_byte_def)

lemma chunk_parse:
  "\<exists>ms. parse_value (Suc (Suc (Suc (Suc (Suc (Suc (Suc n))))))) 0 (chunk_line x) = Some (JObj ms, []) \<and>
     (\<exists>f. set_fragment ms \<lparr>Response = [], Message_Content = []\<rparr> = (f, True) \<and>
        Response f @ Message_Content f = sanitize (chunk_text x))"
proof -
  note steps = members_last members_more value_object value_false value_str
  have d: "(0::nat) < maxNestingDepth" "Suc 0 < maxNestingDepth" by (simp_all add: maxNestingDepth_def)
  show ?thesis
  proof (cases x)
    case (Generate m tx)
    have "parse_value (Suc (Suc (Suc (Suc (Suc (Suc (Suc n))))))) 0 (chunk_line x) =
      Some (JObj [(sanitize ''model'', JStr (sanitize m)), (sanitize ''response'', JStr (sanitize tx)),
        (sanitize ''done'', JBool False)], [])"
      unfolding Generate chunk_line.simps
      by (rule value_object [OF _ d(1)], rule members_more, rule value_str, rule members_more, rule value_str,
          rule members_last, rule value_false)
    then show ?thesis
      by (simp add: Generate field_names field_matches set_string_def)
  next
    case (Chat m tx)
    let ?o = "CHR ''{'' # enc_str ''role'' @ CHR '':'' # enc_str ''assistant'' @ CHR '','' #
         enc_str ''content'' @ CHR '':'' # enc_str tx @ ''}''"
    have o: "parse_value (Suc (Suc (Suc (Suc k)))) (Suc 0) (?o @ t) =
      Some (JObj [(sanitize ''role'', JStr (sanitize ''assistant'')), (sanitize ''content'', JStr (sanitize tx))], t)"
      for k t
      using value_object [OF members_more [OF value_str members_last [OF value_str]] d(2)] by simp
    have "parse_value (Suc (Suc (Suc (Suc (Suc (Suc (Suc n))))))) 0 (chunk_line x) =
      Some (JObj [(sanitize ''model'', JStr (sanitize m)),
        (sanitize ''message'', JObj [(sanitize ''role'', JStr (sanitize ''assistant'')), (sanitize ''content'', JStr (sanitize tx))]),
        (sanitize ''done'', JBool False)], [])"
      unfolding Chat chunk_line.simps
      by (rule value_object [OF _ d(1)], rule members_more, rule value_str, rule members_more, rule o,
          rule members_last, rule value_false)
    then show ?thesis
      by (simp add: Chat field_names field_matches set_string_def)
  qed
qed

lemma chunk_unmarshal: "preview_json (chunk_line x) = sanitize (chunk_text x)"
proof -
  obtain ms f where p: "parse_value (json_fuel (chunk_line x) + 7) 0 (chunk_line x) = Some (JObj ms, [])"
    and f: "set_fragment ms \<lparr>Response = [], Message_Content = []\<rparr> = (f, True)"
      "Response f @ Message_Content f = sanitize (chunk_text x)"
    using chunk_parse [of "json_fuel (chunk_line x)" x] by (auto simp: eval_nat_numeral)
  from json_parse_by [OF p] have "json_parse (chunk_line x) = Some (JObj ms)" by simp
  with f show ?thesis by (simp add: preview_json_def unmarshal_fragment_def)
qed

lemma enc_body_printable: "c \<in> set (enc_body s) \<Longrightarrow> 32 \<le> byte c"
proof (induction s rule: enc_body.induct)
  case (2 a r)
  have hex: "32 \<le> byte (hex_char n)" if "n < 16" for n
    using that by (auto simp: hex_char_def byte_def)
  have lit: "32 \<le> byte c" if "c \<in> {quote, backslash, CHR ''b'', CHR ''f'', CHR ''n'', CHR ''r'', CHR ''t'', CHR ''u'',
      CHR ''d'', CHR ''0'', CHR ''2'', CHR ''8'', CHR ''9''}"
    using that by (auto simp: byte_def special_chars)
  have asc: "32 \<le> byte c" if "byte a < 128" "c \<in> set (enc_ascii a)"
  proof (cases "html_safe a")
    case True
    with that show ?thesis by (simp add: enc_ascii_def html_safe_def)
  next
    case False
    have "byte a div 16 < 16" "byte a mod 16 < 16" using that(1) by (simp_all add: less_mult_imp_div_less)
    with False that(2) lit hex show ?thesis by (auto simp: enc_ascii_def split: if_splits)
  qed
  show ?case
  proof (cases "byte a < 128")
    case True
    with 2 asc show ?thesis by (auto simp: enc_body.simps)
  next
    case False
    note enc = enc_body.simps(2) [of a r]
    show ?thesis
    proof (cases "rune_len (a # r)")
      case None
      with "2.prems" False have "c \<in> {backslash, CHR ''u'', CHR ''f'', CHR ''d''} \<or> c \<in> set (enc_body r)"
        by (auto simp: enc)
      with "2.IH"(2) [OF False None] lit show ?thesis by blast
    next
      case (Some n)
      let ?t = "take n (a # r)"
      have t: "32 \<le> byte c" if "c \<in> set ?t"
        using rune_len_high [OF Some _ that] False by simp
      have "\<exists>x. enc_body (a # r) = x @ enc_body (drop n (a # r)) \<and>
          (x = backslash # ''u2028'' \<or> x = backslash # ''u2029'' \<or> x = ?t)"
        by (rule exI [where x = "if ?t = [CHR 0xE2, CHR 0x80, CHR 0xA8] then backslash # ''u2028''
            else if ?t = [CHR 0xE2, CHR 0x80, CHR 0xA9] then backslash # ''u2029'' else ?t"])
          (simp only: enc Some False if_False option.case split: if_split, simp)
      then obtain x where x: "enc_body (a # r) = x @ enc_body (drop n (a # r))"
        "x = backslash # ''u2028'' \<or> x = backslash # ''u2029'' \<or> x = ?t" by blast
      have "c \<in> set x \<or> c \<in> set (enc_body (drop n (a # r)))" using "2.prems" unfolding x(1) by simp
      then show ?thesis
      proof
        assume c: "c \<in> set x"
        from x(2) show ?thesis
        proof (elim disjE)
          assume "x = ?t"
          with c t show ?thesis by (simp only:)
        next
          assume "x = backslash # ''u2028''"
          with c show ?thesis by (intro lit) (simp, blast?)
        next
          assume "x = backslash # ''u2029''"
          with c show ?thesis by (intro lit) (simp, blast?)
        qed
      next
        assume "c \<in> set (enc_body (drop n (a # r)))"
        from "2.IH"(3) [OF False Some this] show ?thesis .
      qed
    qed
  qed
qed (simp add: enc_body.simps)

lemma chunk_line_no_newline: "newline \<notin> set (chunk_line x)"
proof -
  have s: "newline \<notin> set (enc_str s)" for s
    using enc_body_printable [of newline s] by (auto simp: enc_str_def newline_def quote_def byte_def)
  show ?thesis by (cases x) (simp_all add: s, simp_all add: newline_def)
qed

lemma chunk_line_ends: "\<exists>m. chunk_line x = CHR ''{'' # m @ ''}''"
  by (cases x) auto

lemma brace_graphic: "graphic CHR ''{''" "graphic CHR ''}''"
  by (simp_all add: graphic_def between_def byte_def)

lemma TrimSpace_chunk: "\<forall>c \<in> set sp. blank c \<Longrightarrow> TrimSpace (sp @ chunk_line x) = chunk_line x"
proof -
  assume sp: "\<forall>c \<in> set sp. blank c"
  obtain m where m: "chunk_line x = CHR ''{'' # m @ ''}''" using chunk_line_ends by blast
  show ?thesis
    using TrimLeft_blanks [OF sp brace_graphic(1), of "m @ ''}''"]
      TrimRight_blanks [of "[]" "CHR ''}''" "CHR ''{'' # m"] brace_graphic(2)
    by (simp add: TrimSpace_def m)
qed

lemma OllamaPreview_lines:
  "newline \<notin> set l \<Longrightarrow> OllamaPreview fmt (l @ newline # s) = preview_line fmt l @ OllamaPreview fmt s"
  by (simp add: OllamaPreview_def Split_append Split_single)

lemma preview_line_blank: "preview_line fmt [] = []"
  by (simp add: preview_line_def TrimSpace_def TrimLeftSpace_def TrimRightSpace_def)

lemma preview_line_chunk: "fmt \<noteq> FormatSSE \<Longrightarrow> preview_line fmt (chunk_line x) = sanitize (chunk_text x)"
  using TrimSpace_chunk [of "[]" x] chunk_line_ends [of x] chunk_unmarshal [of x] by (auto simp: preview_line_def)

abbreviation data_line :: "bytes \<Rightarrow> bytes" where
  "data_line l \<equiv> ''data: '' @ l"

lemma preview_line_data: "preview_line FormatSSE (data_line (chunk_line x)) = sanitize (chunk_text x)"
proof -
  obtain m where m: "chunk_line x = CHR ''{'' # m @ ''}''" using chunk_line_ends by blast
  have "TrimSpace (data_line (chunk_line x)) = data_line (chunk_line x)"
    using TrimLeft_blanks [of "[]" "CHR ''d''" "''ata: '' @ chunk_line x"]
      TrimRight_blanks [of "[]" "CHR ''}''" "''data: {'' @ m"] brace_graphic(2)
    by (simp add: TrimSpace_def m graphic_def between_def byte_def)
  moreover have "TrimSpace ('' '' @ chunk_line x) = chunk_line x" by (rule TrimSpace_chunk) (simp add: blank_def)
  ultimately show ?thesis
    using m chunk_unmarshal [of x] by (simp add: preview_line_def HasPrefix_def)
qed

lemma preview_line_done: "preview_line FormatSSE ''data: [DONE]'' = []"
proof -
  have "TrimSpace (''data: [DONE]'') = ''data: [DONE]''" "TrimSpace ('' [DONE]'') = ''[DONE]''"
    by code_simp+
  then show ?thesis by (simp add: preview_line_def HasPrefix_def)
qed

section \<open>Properties\<close>

text \<open>
  The media type decides alone. The format the header gives is the one of its media type in
  lower case: blanks around the type, its letter case and everything from the first \<open>;\<close> on, a
  charset or a boundary with any bytes, change nothing; and when the type names a format, the
  body is not looked at.
\<close>

lemma content_type_is_robust:
  assumes "\<forall>c \<in> set sp1 \<union> set sp2. blank c" "\<forall>c \<in> set mt. graphic c \<and> c \<noteq> CHR '';''" "mt \<noteq> []"
  shows "formatFromContentType (sp1 @ mt @ sp2) = classify (map lower_byte mt) \<and>
    formatFromContentType (sp1 @ mt @ sp2 @ CHR '';'' # params) = classify (map lower_byte mt) \<and>
    (snd (classify (map lower_byte mt)) \<longrightarrow>
      detectFormat (sp1 @ mt @ sp2 @ CHR '';'' # params) body = fst (classify (map lower_byte mt)))"
  using media_type_spaces [OF assms]
  by (simp add: formatFromContentType_def detectFormat_def split: prod.splits bool.splits)

lemma content_type_is_robust_example:
  "detectFormat ('' Application/X-NDJSON '' @ CHR '';'' # '' charset=utf-8'') ''<xml/>'' = FormatNDJSON"
proof -
  have "classify (map lower_byte ''Application/X-NDJSON'') = (FormatNDJSON, True)" by code_simp
  then show ?thesis
    using content_type_is_robust [of "'' ''" "'' ''" "''Application/X-NDJSON''" "'' charset=utf-8''" "''<xml/>''"]
    by (simp add: blank_def graphic_def between_def byte_def)
qed

text \<open>
  C34. The Ollama preview is the assistant's message. For a stream of chunks of either endpoint,
  the preview of the captured body is the concatenation of the chunks' texts, however many
  chunks there are and whatever bytes the texts hold (bytes that are not UTF-8 come out as
  U+FFFD, as from \<open>encoding/json\<close>): as NDJSON, one chunk a line, and as server-sent events, where
  blank lines and the final \<open>[DONE]\<close> add nothing.
\<close>

theorem preview_is_the_message:
  "OllamaPreview FormatNDJSON (concat (map (\<lambda>x. chunk_line x @ [newline]) xs)) =
     concat (map (\<lambda>x. sanitize (chunk_text x)) xs) \<and>
   OllamaPreview FormatSSE
     (concat (map (\<lambda>x. data_line (chunk_line x) @ [newline, newline]) xs) @ ''data: [DONE]'' @ [newline, newline]) =
     concat (map (\<lambda>x. sanitize (chunk_text x)) xs)"
proof
  have e: "OllamaPreview fmt [] = []" for fmt by (simp add: OllamaPreview_def preview_line_blank)
  have n: "newline \<notin> set []" by simp
  show "OllamaPreview FormatNDJSON (concat (map (\<lambda>x. chunk_line x @ [newline]) xs)) =
     concat (map (\<lambda>x. sanitize (chunk_text x)) xs)"
  proof (induction xs)
    case (Cons x xs)
    show ?case
      using OllamaPreview_lines [OF chunk_line_no_newline [of x], of FormatNDJSON] preview_line_chunk [of FormatNDJSON x] Cons
      by (simp add: FormatNDJSON_def FormatSSE_def)
  qed (simp add: e)
  have dn: "newline \<notin> set (''data: [DONE]'')" by (simp add: newline_def)
  have dl: "newline \<notin> set (data_line (chunk_line x))" for x
    using chunk_line_no_newline [of x] by (auto simp: newline_def)
  show "OllamaPreview FormatSSE
     (concat (map (\<lambda>x. data_line (chunk_line x) @ [newline, newline]) xs) @ ''data: [DONE]'' @ [newline, newline]) =
     concat (map (\<lambda>x. sanitize (chunk_text x)) xs)"
  proof (induction xs)
    case Nil
    show ?case
      using OllamaPreview_lines [OF dn, of FormatSSE "[newline]"] OllamaPreview_lines [OF n, of FormatSSE "[]"]
      by (simp add: preview_line_done preview_line_blank e)
  next
    case (Cons x xs)
    show ?case
      using OllamaPreview_lines [OF dl [of x], of FormatSSE] OllamaPreview_lines [OF n, of FormatSSE]
        preview_line_data [of x] Cons
      by (simp add: preview_line_blank)
  qed
qed

end
