(* ===== verification/Json_Write.thy ===== *)
theory Json_Write
  imports Formats
begin

text \<open>
  \<open>json.Marshal\<close> of a value built of objects, arrays, strings, whole numbers, booleans and null,
  and its inverse: what the program writes, its own decoder reads back.
\<close>

section \<open>Encoding\<close>

fun enc_json :: "json \<Rightarrow> bytes" where
  "enc_json JNull = ''null''"
| "enc_json (JBool b) = (if b then ''true'' else ''false'')"
| "enc_json (JNum n) = n"
| "enc_json (JStr s) = enc_str s"
| "enc_json (JArr vs) = ''['' @ Join (map enc_json vs) '','' @ '']''"
| "enc_json (JObj ms) = ''{'' @ Join (map (\<lambda>(k, v). enc_str k @ '':'' @ enc_json v) ms) '','' @ ''}''"

text \<open>A value with its strings as they come back: bytes that are not UTF-8 become U+FFFD.\<close>

fun sanitize_json :: "json \<Rightarrow> json" where
  "sanitize_json (JStr s) = JStr (sanitize s)"
| "sanitize_json (JArr vs) = JArr (map sanitize_json vs)"
| "sanitize_json (JObj ms) = JObj (map (\<lambda>(k, v). (sanitize k, sanitize_json v)) ms)"
| "sanitize_json v = v"

fun json_depth :: "json \<Rightarrow> nat" where
  "json_depth (JArr vs) = Suc (foldr max (map json_depth vs) 0)"
| "json_depth (JObj ms) = Suc (foldr max (map (\<lambda>(k, v). json_depth v) ms) 0)"
| "json_depth v = 0"

text \<open>The numbers are decimal integers.\<close>

fun int_json :: "json \<Rightarrow> bool" where
  "int_json (JNum n) = (\<exists>i. n = show_int i)"
| "int_json (JArr vs) = (\<forall>v \<in> set vs. int_json v)"
| "int_json (JObj ms) = (\<forall>(k, v) \<in> set ms. int_json v)"
| "int_json v = True"

section \<open>Decimal numbers\<close>

lemma digit_char_digit: "n < 10 \<Longrightarrow> is_digit (digit_char n)"
  by (simp add: is_digit_def digit_char_def between_def byte_def)

lemma show_nat_digits: "list_all is_digit (show_nat n)"
proof (induction n rule: less_induct)
  case (less n)
  show ?case
  proof (cases "n < 10")
    case False
    then have "list_all is_digit (show_nat (n div 10))" using less by simp
    with False show ?thesis by (subst show_nat.simps) (simp add: digit_char_digit)
  qed (subst show_nat.simps, simp add: digit_char_digit)
qed

lemma show_nat_nonempty: "show_nat n \<noteq> []"
  by (subst show_nat.simps) simp

lemma show_nat_hd: "0 < n \<Longrightarrow> hd (show_nat n) \<noteq> CHR ''0''"
proof (induction n rule: less_induct)
  case (less n)
  show ?case
  proof (cases "n < 10")
    case True
    with less.prems have "digit_char n \<noteq> digit_char 0"
      by (auto simp: digit_char_def char_of_eq_iff take_bit_eq_mod)
    moreover have "digit_char 0 = CHR ''0''" by (simp add: digit_char_def char_of_def bit_0)
    ultimately show ?thesis using True by (subst show_nat.simps) simp
  next
    case False
    then have "hd (show_nat (n div 10)) \<noteq> CHR ''0''" using less by simp
    with False show ?thesis by (subst show_nat.simps) (simp add: show_nat_nonempty)
  qed
qed

text \<open>What may follow a number.\<close>

definition num_end :: "bytes \<Rightarrow> bool" where
  "num_end t \<longleftrightarrow> t = [] \<or> \<not> is_digit (hd t) \<and> hd t \<notin> {CHR ''.'', CHR ''e'', CHR ''E''}"

lemma digits_show_nat: "num_end t \<Longrightarrow> digits (show_nat n @ t) = Some (show_nat n, t)"
proof -
  assume t: "num_end t"
  have a: "\<forall>c \<in> set (show_nat n). is_digit c" using show_nat_digits [of n] by (simp add: list_all_iff)
  have "takeWhile is_digit (show_nat n @ t) = show_nat n @ takeWhile is_digit t"
    "dropWhile is_digit (show_nat n @ t) = dropWhile is_digit t"
    using a by (simp_all add: takeWhile_append2 dropWhile_append2)
  moreover have "takeWhile is_digit t = []" "dropWhile is_digit t = t"
    using t by (cases t; simp add: num_end_def)+
  ultimately show ?thesis by (simp add: digits_def show_nat_nonempty)
qed

lemma num_int_show_nat: "num_end t \<Longrightarrow> num_int (show_nat n @ t) = Some (show_nat n, t)"
proof -
  assume t: "num_end t"
  show ?thesis
  proof (cases "n = 0")
    case True
    then have "show_nat n = [CHR ''0'']" by (subst show_nat.simps) (simp add: digit_char_def char_of_def bit_0)
    then show ?thesis by (simp add: num_int_def)
  next
    case False
    obtain c r where c: "show_nat n = c # r" using show_nat_nonempty by (cases "show_nat n") auto
    then have "c \<noteq> CHR ''0''" using show_nat_hd [of n] False by simp
    then show ?thesis using digits_show_nat [OF t, of n] by (simp add: num_int_def c)
  qed
qed

lemma show_nat_no_minus: "hd (show_nat n) \<noteq> CHR ''-''"
  using show_nat_digits [of n] show_nat_nonempty [of n]
  by (cases "show_nat n") (auto simp: is_digit_def between_def byte_def)

lemma parse_num_show_int: "num_end t \<Longrightarrow> parse_num (show_int i @ t) = Some (show_int i, t)"
proof -
  assume t: "num_end t"
  have f: "num_frac t = Some ([], t)" "num_exp t = Some ([], t)"
    using t by (cases t; simp add: num_end_def num_frac_def num_exp_def)+
  show ?thesis
  proof (cases "i < 0")
    case True
    then show ?thesis
      using num_int_show_nat [OF t, of "nat (- i)"] f by (simp add: parse_num_def show_int_def)
  next
    case False
    obtain c r where c: "show_nat (nat i) = c # r" using show_nat_nonempty by (cases "show_nat (nat i)") auto
    then have "c \<noteq> CHR ''-''" using show_nat_no_minus [of "nat i"] by simp
    with False show ?thesis
      using num_int_show_nat [OF t, of "nat i"] f by (simp add: parse_num_def show_int_def c)
  qed
qed

text \<open>A number is told from every other value by its first byte.\<close>

lemma show_int_hd: "\<exists>c r. show_int i = c # r \<and> (c = CHR ''-'' \<or> is_digit c)"
proof (cases "show_nat (nat i)")
  case (Cons c r)
  then show ?thesis using show_nat_digits [of "nat i"] by (auto simp: show_int_def)
qed (simp add: show_nat_nonempty)

lemma parse_value_num:
  assumes "num_end t"
  shows "parse_value (Suc n) d (show_int i @ t) = Some (JNum (show_int i), t)"
proof -
  obtain c r where c: "show_int i = c # r" "c = CHR ''-'' \<or> is_digit c" using show_int_hd by blast
  then have "c \<noteq> CHR ''{''" "c \<noteq> CHR ''[''" "c \<noteq> quote" "c \<noteq> CHR ''t''" "c \<noteq> CHR ''f''" "c \<noteq> CHR ''n''"
    "\<not> json_space c"
    by (auto simp: is_digit_def between_def byte_def quote_def json_space_def)
  then show ?thesis
    using parse_num_show_int [OF assms, of i] by (simp add: c(1) skip_ws_Cons)
qed

section \<open>Reading back\<close>

definition reads_back :: "nat \<Rightarrow> json \<Rightarrow> bytes \<Rightarrow> nat \<Rightarrow> bool" where
  "reads_back d v t N \<longleftrightarrow> (\<forall>n\<ge>N. parse_value n d (enc_json v @ t) = Some (sanitize_json v, t))"

lemma reads_backI:
  "(\<And>n. N \<le> n \<Longrightarrow> parse_value n d (enc_json v @ t) = Some (sanitize_json v, t)) \<Longrightarrow> \<exists>N. reads_back d v t N"
  unfolding reads_back_def by blast

lemma enc_json_hd: "int_json v \<Longrightarrow> \<exists>c r. enc_json v = c # r \<and> \<not> json_space c \<and> c \<noteq> CHR '']'' \<and> c \<noteq> CHR ''}''"
  using show_int_hd
  by (cases v) (fastforce simp: enc_str_def json_space_def quote_def is_digit_def between_def byte_def)+

lemma reads_back_elems:
  assumes "vs \<noteq> []" "\<forall>v \<in> set vs. \<forall>t. num_end t \<longrightarrow> (\<exists>N. reads_back d v t N)"
  shows "\<exists>N. \<forall>n\<ge>N. parse_elems n d (Join (map enc_json vs) '','' @ CHR '']'' # t)
    = Some (map sanitize_json vs, t)"
  using assms
proof (induction vs)
  case (Cons v vs)
  have e: "num_end (CHR '','' # u)" "num_end (CHR '']'' # u)" for u
    by (simp_all add: num_end_def is_digit_def between_def byte_def)
  show ?case
  proof (cases vs)
    case Nil
    have "\<forall>t. num_end t \<longrightarrow> (\<exists>N. reads_back d v t N)" using Cons.prems(2) by simp
    then obtain N where "reads_back d v (CHR '']'' # t) N" using e(2) by blast
    then have "parse_elems n d (Join (map enc_json (v # vs)) '','' @ CHR '']'' # t) = Some (map sanitize_json (v # vs), t)"
      if "Suc N \<le> n" for n
      using that by (cases n) (auto simp: reads_back_def Nil)
    then show ?thesis by blast
  next
    case (Cons w ws)
    let ?r = "Join (map enc_json vs) '','' @ CHR '']'' # t"
    obtain M where M: "\<forall>n\<ge>M. parse_elems n d ?r = Some (map sanitize_json vs, t)"
      using Cons.IH Cons.prems(2) Cons by auto
    have "\<forall>t. num_end t \<longrightarrow> (\<exists>N. reads_back d v t N)" using Cons.prems(2) by simp
    then obtain N where N: "reads_back d v (CHR '','' # ?r) N" using e(1) by blast
    have "parse_elems n d (Join (map enc_json (v # vs)) '','' @ CHR '']'' # t) = Some (map sanitize_json (v # vs), t)"
      if "Suc (max M N) \<le> n" for n
      using that M N by (cases n) (auto simp: reads_back_def Cons)
    then show ?thesis by blast
  qed
qed simp

lemma reads_back_members:
  assumes "ms \<noteq> []" "\<forall>(k, v) \<in> set ms. \<forall>t. num_end t \<longrightarrow> (\<exists>N. reads_back d v t N)"
  shows "\<exists>N. \<forall>n\<ge>N. parse_members n d
      (Join (map (\<lambda>(k, v). enc_str k @ '':'' @ enc_json v) ms) '','' @ CHR ''}'' # t)
    = Some (map (\<lambda>(k, v). (sanitize k, sanitize_json v)) ms, t)"
  using assms
proof (induction ms)
  case (Cons m ms)
  obtain k v where m: "m = (k, v)" by fastforce
  have e: "num_end (CHR '','' # u)" "num_end (CHR ''}'' # u)" for u
    by (simp_all add: num_end_def is_digit_def between_def byte_def)
  show ?case
  proof (cases ms)
    case Nil
    have "\<forall>t. num_end t \<longrightarrow> (\<exists>N. reads_back d v t N)" using Cons.prems(2) by (simp add: m)
    then obtain N where "reads_back d v (CHR ''}'' # t) N" using e(2) by blast
    then have "parse_members n d (enc_str k @ CHR '':'' # enc_json v @ CHR ''}'' # t) = Some ([(sanitize k, sanitize_json v)], t)"
      if "Suc N \<le> n" for n
      using that members_last [of "n - 1" d "enc_json v" t] by (cases n) (auto simp: reads_back_def)
    then show ?thesis by (auto simp: Nil m)
  next
    case (Cons m' ms')
    let ?r = "Join (map (\<lambda>(k, v). enc_str k @ '':'' @ enc_json v) ms) '','' @ CHR ''}'' # t"
    obtain M where M: "\<forall>n\<ge>M. parse_members n d ?r = Some (map (\<lambda>(k, v). (sanitize k, sanitize_json v)) ms, t)"
      using Cons.IH Cons.prems(2) Cons by auto
    have "\<forall>t. num_end t \<longrightarrow> (\<exists>N. reads_back d v t N)" using Cons.prems(2) by (simp add: m)
    then obtain N where N: "reads_back d v (CHR '','' # ?r) N" using e(1) by blast
    have "parse_members n d (enc_str k @ CHR '':'' # enc_json v @ CHR '','' # ?r)
        = Some ((sanitize k, sanitize_json v) # map (\<lambda>(k, v). (sanitize k, sanitize_json v)) ms, t)"
      if "Suc (max M N) \<le> n" for n
      using that M N members_more [of "n - 1" d "enc_json v" ?r] by (cases n) (auto simp: reads_back_def)
    then show ?thesis by (auto simp: Cons m)
  qed
qed simp

lemma foldr_max_le: "foldr max xs 0 \<le> (m::nat) \<longleftrightarrow> (\<forall>x \<in> set xs. x \<le> m)"
  by (induction xs) auto

lemma parse_enc_json:
  assumes "int_json v" "json_depth v + d \<le> maxNestingDepth" "num_end t"
  shows "\<exists>N. reads_back d v t N"
  using assms
proof (induction v arbitrary: d t)
  case JNull
  have "parse_value n d (enc_json JNull @ t) = Some (JNull, t)" if "Suc 0 \<le> n" for n
    using that by (cases n) (simp_all add: skip_ws_Cons json_space_def quote_def)
  then show ?case by (intro reads_backI [of "Suc 0"]) simp
next
  case (JBool b)
  have "parse_value n d (enc_json (JBool b) @ t) = Some (JBool b, t)" if "Suc 0 \<le> n" for n
    using that by (cases n; cases b) (simp_all add: skip_ws_Cons json_space_def quote_def)
  then show ?case by (intro reads_backI [of "Suc 0"]) simp
next
  case (JNum s)
  then obtain i where "s = show_int i" by auto
  then have "parse_value n d (enc_json (JNum s) @ t) = Some (JNum s, t)" if "Suc 0 \<le> n" for n
    using that parse_value_num [OF JNum.prems(3), of "n - 1" d i] by (cases n) simp_all
  then show ?case by (intro reads_backI [of "Suc 0"]) simp
next
  case (JStr s)
  have "parse_value n d (enc_json (JStr s) @ t) = Some (JStr (sanitize s), t)" if "Suc 0 \<le> n" for n
    using that by (simp add: parse_value_str)
  then show ?case by (intro reads_backI [of "Suc 0"]) simp
next
  case (JArr vs)
  have d: "d < maxNestingDepth" and dv: "v \<in> set vs \<Longrightarrow> json_depth v + Suc d \<le> maxNestingDepth" for v
  proof -
    have "Suc (foldr max (map json_depth vs) 0) + d \<le> maxNestingDepth" using JArr.prems(2) by simp
    then have "foldr max (map json_depth vs) 0 \<le> maxNestingDepth - Suc d" "d < maxNestingDepth" by arith+
    then show "d < maxNestingDepth" "v \<in> set vs \<Longrightarrow> json_depth v + Suc d \<le> maxNestingDepth"
      by (auto simp: foldr_max_le)
  qed
  show ?case
  proof (cases vs)
    case Nil
    have "parse_value n d (enc_json (JArr vs) @ t) = Some (sanitize_json (JArr vs), t)" if "Suc 0 \<le> n" for n
      using that d by (cases n) (simp_all add: Nil)
    then show ?thesis by (rule reads_backI)
  next
    case (Cons w ws)
    have "\<forall>v \<in> set vs. \<forall>t. num_end t \<longrightarrow> (\<exists>N. reads_back (Suc d) v t N)"
      using JArr.IH JArr.prems(1) dv by auto
    then obtain N where N: "\<forall>n\<ge>N. parse_elems n (Suc d) (Join (map enc_json vs) '','' @ CHR '']'' # t)
        = Some (map sanitize_json vs, t)"
      using reads_back_elems [of vs "Suc d" t] Cons by auto
    obtain c r where c: "enc_json w = c # r" "\<not> json_space c" "c \<noteq> CHR '']''"
      using enc_json_hd [of w] JArr.prems(1) Cons by auto
    obtain r' where r': "Join (map enc_json vs) '','' @ CHR '']'' # t = c # r'"
      by (cases ws) (auto simp: Cons c(1))
    have "parse_value n d (enc_json (JArr vs) @ t) = Some (sanitize_json (JArr vs), t)" if "Suc N \<le> n" for n
      using that N d c r' by (cases n) (auto simp: skip_ws_Cons)
    then show ?thesis by (rule reads_backI)
  qed
next
  case (JObj ms)
  have d: "d < maxNestingDepth" and dv: "(k, v) \<in> set ms \<Longrightarrow> json_depth v + Suc d \<le> maxNestingDepth" for k v
  proof -
    have "Suc (foldr max (map (\<lambda>(k, v). json_depth v) ms) 0) + d \<le> maxNestingDepth" using JObj.prems(2) by simp
    then have "foldr max (map (\<lambda>(k, v). json_depth v) ms) 0 \<le> maxNestingDepth - Suc d" "d < maxNestingDepth" by arith+
    then show "d < maxNestingDepth" "(k, v) \<in> set ms \<Longrightarrow> json_depth v + Suc d \<le> maxNestingDepth"
      by (auto simp: foldr_max_le)
  qed
  show ?case
  proof (cases ms)
    case Nil
    have "parse_value n d (enc_json (JObj ms) @ t) = Some (sanitize_json (JObj ms), t)" if "Suc 0 \<le> n" for n
      using that d by (cases n) (simp_all add: Nil)
    then show ?thesis by (rule reads_backI)
  next
    case (Cons m ms')
    have "\<forall>(k, v) \<in> set ms. \<forall>t. num_end t \<longrightarrow> (\<exists>N. reads_back (Suc d) v t N)"
    proof clarify
      fix k v t assume "(k, v) \<in> set ms" "num_end t"
      then show "\<exists>N. reads_back (Suc d) v t N"
        using JObj.IH [of "(k, v)" v "Suc d" t] JObj.prems(1) dv by auto
    qed
    then obtain N where N: "\<forall>n\<ge>N. parse_members n (Suc d)
        (Join (map (\<lambda>(k, v). enc_str k @ '':'' @ enc_json v) ms) '','' @ CHR ''}'' # t)
        = Some (map (\<lambda>(k, v). (sanitize k, sanitize_json v)) ms, t)"
      using reads_back_members [of ms "Suc d" t] Cons by auto
    obtain r' where r': "Join (map (\<lambda>(k, v). enc_str k @ '':'' @ enc_json v) ms) '','' @ CHR ''}'' # t = quote # r'"
      by (cases ms'; cases m) (auto simp: Cons enc_str_def)
    have "parse_value n d (enc_json (JObj ms) @ t) = Some (sanitize_json (JObj ms), t)" if "Suc N \<le> n" for n
      using that N d r' by (cases n) auto
    then show ?thesis by (rule reads_backI)
  qed
qed

theorem enc_json_round_trip:
  assumes "int_json v" "json_depth v \<le> maxNestingDepth"
  shows "json_parse (enc_json v) = Some (sanitize_json v)"
proof -
  obtain N where "reads_back 0 v [] N"
    using parse_enc_json [of v 0 "[]"] assms by (auto simp: num_end_def)
  then have "parse_value (max N (json_fuel (enc_json v))) 0 (enc_json v) = Some (sanitize_json v, [])"
    by (auto simp: reads_back_def)
  then show ?thesis by (rule json_parse_by) simp
qed

text \<open>The encoding is one line of visible characters and bytes outside ASCII.\<close>

lemma enc_str_printable: "c \<in> set (enc_str s) \<Longrightarrow> 32 \<le> byte c"
  using enc_body_printable by (auto simp: enc_str_def quote_def byte_def)

lemma Join_set: "c \<in> set (Join xs sep) \<Longrightarrow> c \<in> set sep \<or> (\<exists>x \<in> set xs. c \<in> set x)"
  by (induction xs sep rule: Join.induct) auto

lemma enc_json_printable: "int_json v \<Longrightarrow> c \<in> set (enc_json v) \<Longrightarrow> 32 \<le> byte c"
proof (induction v)
  case (JNum s)
  then obtain i where "s = show_int i" by auto
  moreover have "is_digit x \<Longrightarrow> 32 \<le> byte x" for x by (simp add: is_digit_def between_def)
  ultimately show ?case using JNum show_nat_digits [of "nat i"] show_nat_digits [of "nat (- i)"]
    by (auto simp: show_int_def list_all_iff byte_def split: if_splits)
next
  case (JStr s)
  then show ?case by (simp add: enc_str_printable)
next
  case (JArr vs)
  then have "c = CHR ''['' \<or> c = CHR '']'' \<or> c \<in> set (Join (map enc_json vs) '','')" by auto
  with JArr show ?case by (fastforce simp: byte_def dest: Join_set)
next
  case (JObj ms)
  then have "c = CHR ''{'' \<or> c = CHR ''}'' \<or> c \<in> set (Join (map (\<lambda>(k, v). enc_str k @ '':'' @ enc_json v) ms) '','')"
    by auto
  with JObj show ?case by (fastforce simp: byte_def dest: Join_set enc_str_printable)
qed (auto simp: byte_def split: if_splits)

end
