(* ===== verification/Url.thy ===== *)
theory Url
  imports Json
begin

text \<open>
  The part of \<open>net/url\<close> the program uses, as of the Go release that \<open>go.mod\<close> names:
  \<open>url.Parse\<close> and \<open>URL.String\<close>, with the escaping each part of a URL has. A parse either
  returns a URL or fails; which of its errors it is does not matter to the program beyond its
  text.
\<close>

datatype encoding = encodePath | encodeHost | encodeZone | encodeUserPassword | encodeFragment

definition alnum :: "char \<Rightarrow> bool" where
  "alnum c \<longleftrightarrow> between 97 122 c \<or> between 65 90 c \<or> between 48 57 c"

definition shouldEscape :: "char \<Rightarrow> encoding \<Rightarrow> bool" where
  "shouldEscape c mode =
     (if alnum c then False
      else if (mode = encodeHost \<or> mode = encodeZone) \<and> c \<in> set (quote # ''!$&'' @ CHR 0x27 # ''()*+,;=:[]<>'') then False
      else if c \<in> set ''-_.~'' then False
      else if c \<in> set ''$&+,/:;=?@'' \<and> mode = encodePath then c = CHR ''?''
      else if c \<in> set ''$&+,/:;=?@'' \<and> mode = encodeUserPassword then c \<in> set ''@/?:''
      else if c \<in> set ''$&+,/:;=?@'' \<and> mode = encodeFragment then False
      else if mode = encodeFragment \<and> c \<in> set ''!()*'' then False
      else True)"

definition upper_hex :: "nat \<Rightarrow> char" where
  "upper_hex n = (if n < 10 then char_of (48 + n) else char_of (55 + n))"

definition escape :: "encoding \<Rightarrow> bytes \<Rightarrow> bytes" where
  "escape mode s =
     concat (map (\<lambda>c. if shouldEscape c mode
       then [CHR ''%'', upper_hex (byte c div 16), upper_hex (byte c mod 16)] else [c]) s)"

definition shown_host :: "encoding \<Rightarrow> bool" where
  "shown_host mode \<longleftrightarrow> mode = encodeHost \<or> mode = encodeZone"

text \<open>A percent escape is refused in a host unless it stands for a byte outside ASCII or a percent sign.\<close>

definition escape_allowed :: "encoding \<Rightarrow> nat \<Rightarrow> bool" where
  "escape_allowed mode v =
     (if mode = encodeHost then \<not> (v div 16 < 8 \<and> v \<noteq> 37)
      else if mode = encodeZone then \<not> (v \<noteq> 37 \<and> v \<noteq> 32 \<and> shouldEscape (char_of v) encodeHost)
      else True)"

fun url_unescape :: "encoding \<Rightarrow> bytes \<Rightarrow> bytes option" where
  "url_unescape mode [] = Some []"
| "url_unescape mode (c # s) =
     (if c = CHR ''%'' then
        (case s of
           a # b # r \<Rightarrow>
             (case (hex_digit a, hex_digit b) of
                (Some x, Some y) \<Rightarrow>
                  (if escape_allowed mode (x * 16 + y)
                   then map_option ((#) (char_of (x * 16 + y))) (url_unescape mode r) else None)
              | _ \<Rightarrow> None)
         | _ \<Rightarrow> None)
      else if shown_host mode \<and> byte c < 128 \<and> shouldEscape c mode then None
      else map_option ((#) c) (url_unescape mode s))"

definition validEncoded :: "encoding \<Rightarrow> bytes \<Rightarrow> bool" where
  "validEncoded mode s \<longleftrightarrow>
     list_all (\<lambda>c. c \<in> set (CHR 0x27 # ''!$&()*+,;=:@[]%'') \<or> \<not> shouldEscape c mode) s"

section \<open>URLs\<close>

text \<open>\<open>User\<close>: the user's name and, when it is set, the password.\<close>

record url =
  Scheme :: bytes
  Opaque :: bytes
  User :: "(bytes \<times> bytes option) option"
  Host :: bytes
  Path :: bytes
  RawPath :: bytes
  OmitHost :: bool
  ForceQuery :: bool
  RawQuery :: bytes
  Fragment :: bytes
  RawFragment :: bytes

definition zero_url :: url where
  "zero_url = \<lparr>Scheme = [], Opaque = [], User = None, Host = [], Path = [], RawPath = [],
     OmitHost = False, ForceQuery = False, RawQuery = [], Fragment = [], RawFragment = []\<rparr>"

text \<open>The raw form is a hint: it is used as long as it still encodes the decoded form.\<close>

definition escaped :: "encoding \<Rightarrow> bytes \<Rightarrow> bytes \<Rightarrow> bytes" where
  "escaped mode plain raw =
     (if raw \<noteq> [] \<and> validEncoded mode raw \<and> url_unescape mode raw = Some plain then raw
      else escape mode plain)"

definition EscapedPath :: "url \<Rightarrow> bytes" where
  "EscapedPath u =
     (if RawPath u \<noteq> [] \<and> validEncoded encodePath (RawPath u) \<and>
         url_unescape encodePath (RawPath u) = Some (Path u) then RawPath u
      else if Path u = ''*'' then ''*''
      else escape encodePath (Path u))"

definition Userinfo_String :: "bytes \<times> bytes option \<Rightarrow> bytes" where
  "Userinfo_String u = (case u of (name, pw) \<Rightarrow>
     escape encodeUserPassword name @
       (case pw of None \<Rightarrow> [] | Some p \<Rightarrow> CHR '':'' # escape encodeUserPassword p))"

definition URL_String :: "url \<Rightarrow> bytes" where
  "URL_String u =
     (let scheme = (if Scheme u = [] then [] else Scheme u @ '':'');
          authority =
            (if Scheme u = [] \<and> Host u = [] \<and> User u = None then []
             else if OmitHost u \<and> Host u = [] \<and> User u = None then []
             else (if Host u \<noteq> [] \<or> Path u \<noteq> [] \<or> User u \<noteq> None then ''//'' else []) @
               (case User u of None \<Rightarrow> [] | Some ui \<Rightarrow> Userinfo_String ui @ ''@'') @
               escape encodeHost (Host u));
          pth = EscapedPath u;
          slash = (if pth \<noteq> [] \<and> hd pth \<noteq> CHR ''/'' \<and> Host u \<noteq> [] then ''/'' else []);
          start = scheme @ authority @ slash;
          dot = (if start = [] \<and> CHR '':'' \<in> set (fst (Cut pth CHR ''/'')) then ''./'' else []);
          front = (if Opaque u \<noteq> [] then scheme @ Opaque u else start @ dot @ pth)
      in front @ (if ForceQuery u \<or> RawQuery u \<noteq> [] then CHR ''?'' # RawQuery u else []) @
         (if Fragment u \<noteq> [] then CHR ''#'' # escaped encodeFragment (Fragment u) (RawFragment u) else []))"

definition IsAbs :: "url \<Rightarrow> bool" where
  "IsAbs u \<longleftrightarrow> Scheme u \<noteq> []"

section \<open>Parsing\<close>

text \<open>\<open>getScheme\<close>: what comes before the first colon when it is a scheme, and the rest.\<close>

definition letter :: "char \<Rightarrow> bool" where
  "letter c \<longleftrightarrow> between 97 122 c \<or> between 65 90 c"

definition scheme_char :: "char \<Rightarrow> bool" where
  "scheme_char c \<longleftrightarrow> alnum c \<or> c \<in> set ''+-.''"

definition getScheme :: "bytes \<Rightarrow> (bytes \<times> bytes) option" where
  "getScheme s =
     (let p = takeWhile scheme_char s; r = dropWhile scheme_char s in
      if r \<noteq> [] \<and> hd r = CHR '':'' then
        (if p = [] then None
         else if letter (hd p) then Some (p, tl r) else Some ([], s))
      else Some ([], s))"

definition validOptionalPort :: "bytes \<Rightarrow> bool" where
  "validOptionalPort p \<longleftrightarrow> p = [] \<or> hd p = CHR '':'' \<and> list_all is_digit (tl p)"

text \<open>The first occurrence of the escape of a percent sign, which starts a zone.\<close>

fun index_zone :: "bytes \<Rightarrow> nat option" where
  "index_zone [] = None"
| "index_zone (c # s) = (if prefix ''%25'' (c # s) then Some 0 else map_option Suc (index_zone s))"

definition parseHost :: "bytes \<Rightarrow> bytes option" where
  "parseHost host =
     (if HasPrefix host ''['' then
        (case LastIndexByte host CHR '']'' of
           None \<Rightarrow> None
         | Some i \<Rightarrow>
           (if \<not> validOptionalPort (drop (i + 1) host) then None
            else case index_zone (take i host) of
              Some z \<Rightarrow>
                (case (url_unescape encodeHost (take z host), url_unescape encodeZone (drop z (take i host)),
                       url_unescape encodeHost (drop i host)) of
                   (Some h1, Some h2, Some h3) \<Rightarrow> Some (h1 @ h2 @ h3)
                 | _ \<Rightarrow> None)
            | None \<Rightarrow> url_unescape encodeHost host))
      else case LastIndexByte host CHR '':'' of
        Some i \<Rightarrow> if \<not> validOptionalPort (drop i host) then None else url_unescape encodeHost host
      | None \<Rightarrow> url_unescape encodeHost host)"

definition validUserinfo :: "bytes \<Rightarrow> bool" where
  "validUserinfo s \<longleftrightarrow> list_all (\<lambda>c. alnum c \<or> c \<in> set (CHR 0x27 # ''-._:~!$&()*+,;=%@'')) s"

definition parseUserinfo :: "bytes \<Rightarrow> (bytes \<times> bytes option) option" where
  "parseUserinfo ui =
     (case Cut ui CHR '':'' of
        (name, pw, found) \<Rightarrow>
          (case (url_unescape encodeUserPassword name, url_unescape encodeUserPassword pw) of
             (Some n, Some p) \<Rightarrow> Some (n, if found then Some p else None)
           | _ \<Rightarrow> None))"

definition parseAuthority :: "bytes \<Rightarrow> ((bytes \<times> bytes option) option \<times> bytes) option" where
  "parseAuthority a =
     (case LastIndexByte a CHR ''@'' of
        None \<Rightarrow> map_option (Pair None) (parseHost a)
      | Some i \<Rightarrow>
        (case parseHost (drop (i + 1) a) of
           None \<Rightarrow> None
         | Some h \<Rightarrow>
           (if \<not> validUserinfo (take i a) then None
            else map_option (\<lambda>ui. (Some ui, h)) (parseUserinfo (take i a)))))"

definition setPath :: "bytes \<Rightarrow> url \<Rightarrow> url option" where
  "setPath p u =
     (case url_unescape encodePath p of
        None \<Rightarrow> None
      | Some pth \<Rightarrow> Some (u\<lparr>Path := pth, RawPath := (if p = escape encodePath pth then [] else p)\<rparr>))"

definition setFragment :: "bytes \<Rightarrow> url \<Rightarrow> url option" where
  "setFragment f u =
     (case url_unescape encodeFragment f of
        None \<Rightarrow> None
      | Some frag \<Rightarrow>
          Some (u\<lparr>Fragment := frag, RawFragment := (if f = escape encodeFragment frag then [] else f)\<rparr>))"

definition url_parse :: "bytes \<Rightarrow> url option" where
  "url_parse s =
     (if list_ex (\<lambda>c. byte c < 32 \<or> byte c = 127) s then None
      else if s = ''*'' then Some (zero_url\<lparr>Path := ''*''\<rparr>)
      else case getScheme s of
        None \<Rightarrow> None
      | Some (scheme, r) \<Rightarrow>
        (let u = zero_url\<lparr>Scheme := ToLower scheme\<rparr>;
             (u, r) =
               (if HasSuffix r ''?'' \<and> count_list r CHR ''?'' = 1
                then (u\<lparr>ForceQuery := True\<rparr>, butlast r)
                else (case Cut r CHR ''?'' of (b, q, _) \<Rightarrow> (u\<lparr>RawQuery := q\<rparr>, b)))
         in if \<not> HasPrefix r ''/'' \<and> Scheme u \<noteq> [] then Some (u\<lparr>Opaque := r\<rparr>)
            else if \<not> HasPrefix r ''/'' \<and> CHR '':'' \<in> set (fst (Cut r CHR ''/'')) then None
            else if (Scheme u \<noteq> [] \<or> \<not> HasPrefix r ''///'') \<and> HasPrefix r ''//'' then
              (let a = drop 2 r;
                   (auth, p) = (case IndexByte a CHR ''/'' of Some i \<Rightarrow> (take i a, drop i a) | None \<Rightarrow> (a, []))
               in case parseAuthority auth of
                    None \<Rightarrow> None
                  | Some (ui, h) \<Rightarrow> setPath p (u\<lparr>User := ui, Host := h\<rparr>))
            else if Scheme u \<noteq> [] \<and> HasPrefix r ''/'' then setPath r (u\<lparr>OmitHost := True\<rparr>)
            else setPath r u))"

definition url_Parse :: "bytes \<Rightarrow> url option" where
  "url_Parse s =
     (case Cut s CHR ''#'' of
        (u, frag, _) \<Rightarrow>
          (case url_parse u of
             None \<Rightarrow> None
           | Some v \<Rightarrow> if frag = [] then Some v else setFragment frag v))"

text \<open>A URL with nothing but a scheme, a host and a path.\<close>

lemma URL_String_plain:
  assumes "Opaque u = []" "Scheme u \<noteq> []" "User u = None" "Host u \<noteq> []" "HasPrefix (EscapedPath u) ''/''"
    and "\<not> ForceQuery u" "RawQuery u = []" "Fragment u = []"
  shows "URL_String u = Scheme u @ ''://'' @ escape encodeHost (Host u) @ EscapedPath u"
  using assms by (auto simp: URL_String_def HasPrefix_def prefix_def)

lemma test_urls:
  "map_option URL_String (url_Parse ''HTTP://u@[::1]:1/a%2Fb?x#t'') = Some ''http://u@[::1]:1/a%2Fb?x#t''"
  "map_option Host (url_Parse ''http://localhost:11434'') = Some ''localhost:11434''"
  "url_Parse ''http://localhost:80x/'' = None" "url_Parse '':8080'' = None"
  "map_option Path (url_Parse ''/a%2Fb'') = Some ''/a/b''"
  "map_option Opaque (url_Parse ''localhost:11434'') = Some ''11434''"
  by code_simp+

end
