(* ===== verification/Numbers.thy ===== *)
theory Numbers
  imports Json_Write Url
begin

text \<open>
  Reading numbers, booleans, durations and query strings, as \<open>strconv\<close>, \<open>time\<close> and \<open>net/url\<close>
  do. A failed conversion is \<open>None\<close>.
\<close>

section \<open>strconv\<close>

definition digit_value :: "char \<Rightarrow> int" where
  "digit_value c = int (byte c) - 48"

definition read_nat :: "bytes \<Rightarrow> int" where
  "read_nat s = foldl (\<lambda>n c. n * 10 + digit_value c) 0 s"

text \<open>\<open>ParseInt(s, 10, 64)\<close>, which \<open>Atoi\<close> agrees with on a 64-bit machine.\<close>

definition ParseInt :: "bytes \<Rightarrow> int option" where
  "ParseInt s =
     (let neg = HasPrefix s ''-'';
          ds = (if neg \<or> HasPrefix s ''+'' then tl s else s);
          n = (if neg then - read_nat ds else read_nat ds)
      in if ds = [] \<or> \<not> list_all is_digit ds then None
         else if n < min_int64 \<or> max_int64 < n then None else Some n)"

definition ParseBool :: "bytes \<Rightarrow> bool option" where
  "ParseBool s =
     (if s \<in> set [''1'', ''t'', ''T'', ''true'', ''TRUE'', ''True''] then Some True
      else if s \<in> set [''0'', ''f'', ''F'', ''false'', ''FALSE'', ''False''] then Some False
      else None)"

lemma ParseInt_bounds: "ParseInt s = Some n \<Longrightarrow> min_int64 \<le> n \<and> n \<le> max_int64"
  by (auto simp: ParseInt_def Let_def split: if_splits)

lemma read_nat_show_nat: "read_nat (show_nat n) = int n"
proof (induction n rule: less_induct)
  case (less n)
  have v: "digit_value (digit_char k) = int k" if "k < 10" for k
    using that by (simp add: digit_value_def digit_char_def byte_def)
  show ?case
  proof (cases "n < 10")
    case True
    then show ?thesis by (subst show_nat.simps) (simp add: read_nat_def v)
  next
    case False
    then have "read_nat (show_nat (n div 10)) = int (n div 10)" using less by simp
    moreover have "int (n div 10) * 10 + int (n mod 10) = int n"
      by (metis div_mult_mod_eq of_nat_add of_nat_mult of_nat_numeral)
    ultimately show ?thesis using False by (subst show_nat.simps) (simp add: read_nat_def v)
  qed
qed

text \<open>A number that is written is read back.\<close>

lemma ParseInt_show_int:
  assumes "min_int64 \<le> n" "n \<le> max_int64"
  shows "ParseInt (show_int n) = Some n"
proof -
  have d: "list_all is_digit (show_nat k)" "show_nat k \<noteq> []" for k by (rule show_nat_digits show_nat_nonempty)+
  have p: "\<not> HasPrefix (show_nat k) ''-''" "\<not> HasPrefix (show_nat k) ''+''" for k
    using d [of k] by (cases "show_nat k"; auto simp: HasPrefix_def is_digit_def between_def byte_def)+
  show ?thesis
  proof (cases "n < 0")
    case True
    with assms show ?thesis by (simp add: ParseInt_def show_int_def d read_nat_show_nat HasPrefix_def)
  next
    case False
    with assms show ?thesis by (simp add: ParseInt_def show_int_def d p read_nat_show_nat)
  qed
qed

section \<open>Query strings\<close>

fun query_unescape :: "bytes \<Rightarrow> bytes option" where
  "query_unescape [] = Some []"
| "query_unescape (c # s) =
     (if c = CHR ''%'' then
        (case s of
           a # b # r \<Rightarrow>
             (case (hex_digit a, hex_digit b) of
                (Some x, Some y) \<Rightarrow> map_option ((#) (char_of (x * 16 + y))) (query_unescape r)
              | _ \<Rightarrow> None)
         | _ \<Rightarrow> None)
      else map_option ((#) (if c = CHR ''+'' then CHR '' '' else c)) (query_unescape s))"

text \<open>The pairs of a query; a part with a semicolon or a bad escape is left out.\<close>

definition query_pair :: "bytes \<Rightarrow> (bytes \<times> bytes) list" where
  "query_pair part =
     (if part = [] \<or> CHR '';'' \<in> set part then []
      else case Cut part CHR ''='' of
        (k, v, _) \<Rightarrow>
          (case (query_unescape k, query_unescape v) of
             (Some k', Some v') \<Rightarrow> [(k', v')]
           | _ \<Rightarrow> []))"

definition query_Get :: "bytes \<Rightarrow> bytes \<Rightarrow> bytes" where
  "query_Get raw key =
     (case map_of (concat (map query_pair (Split CHR ''&'' raw))) key of None \<Rightarrow> [] | Some v \<Rightarrow> v)"

section \<open>time.ParseDuration\<close>

text \<open>
  The units in nanoseconds. The micro sign comes in two encodings.
\<close>

definition duration_units :: "(bytes \<times> int) list" where
  "duration_units =
     [(''ns'', 1), (''us'', 1000), ([CHR 0xC2, CHR 0xB5, CHR ''s''], 1000), ([CHR 0xCE, CHR 0xBC, CHR ''s''], 1000),
      (''ms'', 1000000), (''s'', 1000000000), (''m'', 60000000000), (''h'', 3600000000000)]"

definition half64 :: int where
  "half64 = 9223372036854775808"

text \<open>\<open>leadingInt\<close>: \<open>None\<close> on overflow.\<close>

fun leadingInt :: "int \<Rightarrow> bytes \<Rightarrow> (int \<times> bytes) option" where
  "leadingInt x [] = Some (x, [])"
| "leadingInt x (c # s) =
     (if \<not> is_digit c then Some (x, c # s)
      else if half64 div 10 < x then None
      else let y = x * 10 + digit_value c in if half64 < y then None else leadingInt y s)"

text \<open>\<open>leadingFraction\<close>: the digits that fit, the power of ten of their scale, and the rest.\<close>

fun leadingFraction :: "int \<Rightarrow> int \<Rightarrow> bool \<Rightarrow> bytes \<Rightarrow> int \<times> int \<times> bytes" where
  "leadingFraction x scale overflow [] = (x, scale, [])"
| "leadingFraction x scale overflow (c # s) =
     (if \<not> is_digit c then (x, scale, c # s)
      else if overflow \<or> (half64 - 1) div 10 < x then leadingFraction x scale True s
      else let y = x * 10 + digit_value c in
        if half64 < y then leadingFraction x scale True s else leadingFraction y (scale * 10) False s)"

definition unit_char :: "char \<Rightarrow> bool" where
  "unit_char c \<longleftrightarrow> c \<noteq> CHR ''.'' \<and> \<not> is_digit c"

lemma leadingInt_length: "leadingInt x s = Some (y, t) \<Longrightarrow> length t \<le> length s"
  by (induction x s rule: leadingInt.induct) (auto simp: Let_def split: if_splits)

lemma leadingFraction_length: "leadingFraction x k b s = (y, l, t) \<Longrightarrow> length t \<le> length s"
proof (induction x k b s arbitrary: y l t rule: leadingFraction.induct)
  case (2 x k b c s)
  then show ?case by (fastforce simp: Let_def split: if_splits)
qed simp

text \<open>
  One number with its unit: the number, the fraction's share, and the rest. The fraction's share
  is \<open>float64(f) * (float64(unit) / scale)\<close>, cut to a whole number, which \<open>frac\<close> gives.
\<close>

definition duration_number :: "bytes \<Rightarrow> (int \<times> int \<times> int \<times> bytes) option" where
  "duration_number s =
     (if s = [] \<or> \<not> (hd s = CHR ''.'' \<or> is_digit (hd s)) then None
      else case leadingInt 0 s of
        None \<Rightarrow> None
      | Some (v, s1) \<Rightarrow>
        (let pre = (length s1 \<noteq> length s) in
         if s1 \<noteq> [] \<and> hd s1 = CHR ''.'' then
           (case leadingFraction 0 1 False (tl s1) of
              (f, scale, s2) \<Rightarrow>
                if \<not> pre \<and> length s2 = length (tl s1) then None else Some (v, f, scale, s2))
         else if \<not> pre then None else Some (v, 0, 1, s1)))"

definition duration_part ::
  "(int \<Rightarrow> int \<Rightarrow> int \<Rightarrow> nat) \<Rightarrow> bytes \<Rightarrow> (int \<times> bytes) option" where
  "duration_part frac s =
     (case duration_number s of
        None \<Rightarrow> None
      | Some (v, f, scale, s2) \<Rightarrow>
        (case map_of duration_units (takeWhile unit_char s2) of
           None \<Rightarrow> None
         | Some k \<Rightarrow>
           (if half64 div k < v then None
            else let n = v * k + (if 0 < f then int (frac f k scale) else 0) in
              if half64 < n then None else Some (n, dropWhile unit_char s2))))"

function duration_sum :: "(int \<Rightarrow> int \<Rightarrow> int \<Rightarrow> nat) \<Rightarrow> int \<Rightarrow> bytes \<Rightarrow> int option" where
  "duration_sum frac d s =
     (if s = [] then Some d
      else case duration_part frac s of
        None \<Rightarrow> None
      | Some (n, t) \<Rightarrow>
        (if length t < length s then
           (if half64 < d + n then None else duration_sum frac (d + n) t)
         else None))"
  by pat_completeness auto
termination
  by (relation "measure (\<lambda>(frac, d, s). length s)") auto

declare duration_sum.simps [simp del]

definition ParseDuration :: "(int \<Rightarrow> int \<Rightarrow> int \<Rightarrow> nat) \<Rightarrow> bytes \<Rightarrow> int option" where
  "ParseDuration frac s =
     (let neg = HasPrefix s ''-'';
          r = (if neg \<or> HasPrefix s ''+'' then tl s else s)
      in if r = ''0'' then Some 0
         else if r = [] then None
         else case duration_sum frac 0 r of
           None \<Rightarrow> None
         | Some d \<Rightarrow>
           (if neg then Some (- d)
            else if half64 - 1 < d then None else Some d))"

text \<open>Every part consumes its unit, so the guard of \<open>duration_sum\<close> never stops it.\<close>

lemma duration_units_ok: "map_of duration_units u = Some k \<Longrightarrow> 0 < k \<and> u \<noteq> []"
proof -
  assume u: "map_of duration_units u = Some k"
  have "list_all (\<lambda>(u, k). 0 < k \<and> u \<noteq> []) duration_units" by (simp add: duration_units_def)
  with map_of_SomeD [OF u] show ?thesis by (auto simp: list_all_iff)
qed

lemma leadingInt_nonneg: "leadingInt x s = Some (y, t) \<Longrightarrow> 0 \<le> x \<Longrightarrow> 0 \<le> y"
  by (induction x s rule: leadingInt.induct)
    (auto simp: Let_def digit_value_def is_digit_def between_def split: if_splits)

lemma duration_number_ok: "duration_number s = Some (v, f, k, t) \<Longrightarrow> length t \<le> length s \<and> 0 \<le> v"
proof -
  assume p: "duration_number s = Some (v, f, k, t)"
  then obtain s1 where s1: "leadingInt 0 s = Some (v, s1)"
    by (auto simp: duration_number_def Let_def split: if_splits option.splits prod.splits)
  have "length t \<le> length s1"
  proof (cases "s1 \<noteq> [] \<and> hd s1 = CHR ''.''")
    case True
    with p s1 have "leadingFraction 0 1 False (tl s1) = (f, k, t)"
      by (auto simp: duration_number_def Let_def split: if_splits prod.splits)
    from leadingFraction_length [OF this] show ?thesis by simp
  next
    case False
    with p s1 show ?thesis by (auto simp: duration_number_def Let_def split: if_splits)
  qed
  with leadingInt_length [OF s1] leadingInt_nonneg [OF s1] show ?thesis by simp
qed

lemma duration_part_ok:
  assumes "duration_part frac s = Some (n, t)"
  shows "length t < length s" "0 \<le> n"
proof -
  obtain v f l s2 k where d: "duration_number s = Some (v, f, l, s2)"
    "map_of duration_units (takeWhile unit_char s2) = Some k"
    "n = v * k + (if 0 < f then int (frac f k l) else 0)" "t = dropWhile unit_char s2"
    using assms by (auto simp: duration_part_def Let_def split: if_splits option.splits)
  note D = duration_number_ok [OF d(1)] duration_units_ok [OF d(2)]
  have "length (takeWhile unit_char s2) + length (dropWhile unit_char s2) = length s2"
    by (metis length_append takeWhile_dropWhile_id)
  then show "length t < length s" using D d(4) by (cases "takeWhile unit_char s2") auto
  show "0 \<le> n" using D d(3) by simp
qed

lemma duration_sum_bound: "duration_sum frac d s = Some n \<Longrightarrow> 0 \<le> d \<Longrightarrow> d \<le> half64 \<Longrightarrow> 0 \<le> n \<and> n \<le> half64"
proof (induction frac d s rule: duration_sum.induct)
  case (1 frac d s)
  show ?case
  proof (cases "s = []")
    case True
    with 1(2-4) show ?thesis by (simp add: duration_sum.simps)
  next
    case False
    with 1(2) obtain m t where m: "duration_part frac s = Some (m, t)" "length t < length s" "\<not> half64 < d + m"
      "duration_sum frac (d + m) t = Some n"
      by (subst (asm) duration_sum.simps) (auto split: if_splits option.splits)
    from 1(1) [OF False m(1) refl m(2-4)] duration_part_ok(2) [OF m(1)] 1(3) m(3) show ?thesis by simp
  qed
qed

lemma ParseDuration_bounds: "ParseDuration frac s = Some d \<Longrightarrow> min_int64 \<le> d \<and> d \<le> max_int64"
proof -
  assume p: "ParseDuration frac s = Some d"
  let ?neg = "HasPrefix s ''-''"
  let ?r = "if ?neg \<or> HasPrefix s ''+'' then tl s else s"
  show ?thesis
  proof (cases "duration_sum frac 0 ?r")
    case None
    with p show ?thesis
      by (auto simp: ParseDuration_def Let_def min_int64_def max_int64_def split: if_splits)
  next
    case (Some n)
    with duration_sum_bound [OF this] have "0 \<le> n" "n \<le> half64" by (simp_all add: half64_def)
    with p Some show ?thesis
      by (auto simp: ParseDuration_def Let_def half64_def min_int64_def max_int64_def split: if_splits)
  qed
qed

text \<open>The exact share of a fraction, for examples.\<close>

definition exact_frac :: "int \<Rightarrow> int \<Rightarrow> int \<Rightarrow> nat" where
  "exact_frac f k scale = nat (f * k div scale)"

lemma test_numbers:
  "ParseInt ''-12'' = Some (-12)" "ParseInt ''+7'' = Some 7" "ParseInt ''9223372036854775808'' = None"
  "ParseInt ''1_0'' = None" "query_Get ''a=1&limit=5%30&limit=2'' ''limit'' = ''50''"
  "ParseDuration exact_frac ''1h30m'' = Some 5400000000000" "ParseDuration exact_frac ''5'' = None"
  by code_simp+

end
