(* ===== verification/Capture.thy ===== *)
theory Capture
  imports Formats Store_Record
begin

text \<open>
  \<open>internal/proxy/capture.go\<close>, the reader that copies a response into the store while the client
  reads it: the whole of it, in any fragments, and a streamed one line by line.
\<close>

section \<open>The capturing reader\<close>

text \<open>
  \<open>onClose\<close> is the caller's function; \<open>Close\<close> returns whether it calls it and with what.
  A \<open>time.Time\<close> field starts as the zero time.
\<close>

record captureReader =
  cr_id :: bytes
  cr_format :: format
  cr_stream :: bool
  cr_sniffed :: bool
  pending :: bytes
  firstAt :: gotime
  lastAt :: gotime
  closeOnce :: bool

definition newCaptureReader :: "bytes \<Rightarrow> format \<Rightarrow> captureReader" where
  "newCaptureReader i f =
     \<lparr>cr_id = i, cr_format = f, cr_stream = isStreaming f, cr_sniffed = (f \<noteq> FormatRaw),
      pending = [], firstAt = zero_time, lastAt = zero_time, closeOnce = False\<rparr>"

text \<open>
  The loop that hands complete lines to the store. \<open>env n\<close> is the outcome of the system calls of
  the \<open>n\<close>-th call to the store.
\<close>

type_synonym envs = "nat \<Rightarrow> os_env"

function drain ::
  "envs \<Rightarrow> gotime \<Rightarrow> captureReader \<Rightarrow> 'db store \<Rightarrow> captureReader \<times> 'db store" where
  "drain env now c s =
     (case IndexByte (pending c) newline of
        None \<Rightarrow> (c, s)
      | Some i \<Rightarrow>
        (let s' = snd (AppendResponse (env 0) now (cr_id c) (take (i + 1) (pending c)) True s)
         in drain (\<lambda>n. env (Suc n)) now (c\<lparr>pending := drop (i + 1) (pending c)\<rparr>) s'))"
  by pat_completeness auto
termination
  by (relation "measure (\<lambda>(env, now, c, s). length (pending c))") (auto dest: IndexByte_SomeD)

declare drain.simps [simp del]

definition consume ::
  "envs \<Rightarrow> gotime \<Rightarrow> bytes \<Rightarrow> captureReader \<Rightarrow> 'db store \<Rightarrow> captureReader \<times> 'db store" where
  "consume env now chunk c s =
     (let (c1, s1) =
        (if \<not> cr_sniffed c then
           (let c0 = c\<lparr>cr_sniffed := True\<rparr>; f = sniffFormat chunk in
            if f \<noteq> FormatRaw
            then (c0\<lparr>cr_format := f, cr_stream := isStreaming f\<rparr>,
                  snd (Update now (cr_id c) (\<lambda>e. e\<lparr>ResponseFormat := f\<rparr>) s))
            else (c0, s))
         else (c, s))
      in if \<not> cr_stream c1 then (c1, snd (AppendResponse (env 0) now (cr_id c1) chunk False s1))
         else drain env now (c1\<lparr>pending := pending c1 @ chunk\<rparr>) s1)"

text \<open>\<open>Read\<close>, given what the upstream body's \<open>Read\<close> returned: the bytes and an error.\<close>

definition Read ::
  "envs \<Rightarrow> gotime \<Rightarrow> bytes \<times> 'e option \<Rightarrow> captureReader \<Rightarrow> 'db store
     \<Rightarrow> (bytes \<times> 'e option) \<times> captureReader \<times> 'db store" where
  "Read env now rd c s =
     (let (chunk, er) = rd in
      if length chunk > 0 then
        (let c1 = (if IsZero (firstAt c) then c\<lparr>firstAt := now\<rparr> else c)
         in ((chunk, er), consume env now chunk (c1\<lparr>lastAt := now\<rparr>) s))
      else ((chunk, er), c, s))"

text \<open>
  \<open>Close\<close> up to the call of \<open>onClose\<close>: \<open>Some streamMs\<close> is that call, \<open>None\<close> no call, because
  \<open>closeOnce\<close> has run before.
\<close>

definition Close_reader ::
  "envs \<Rightarrow> gotime \<Rightarrow> captureReader \<Rightarrow> 'db store \<Rightarrow> int option option \<times> captureReader \<times> 'db store" where
  "Close_reader env now c s =
     (if closeOnce c then (None, c, s)
      else
        (let s1 = (if length (pending c) > 0
                   then snd (AppendResponse (env 0) now (cr_id c) (pending c) True s) else s);
             c1 = c\<lparr>closeOnce := True, pending := []\<rparr>;
             streamMs = (if cr_stream c1 \<and> \<not> IsZero (firstAt c1)
                         then Some (Milliseconds (Sub (lastAt c1) (firstAt c1))) else None)
         in (Some streamMs, c1, s1)))"


section \<open>Lines\<close>

text \<open>The calls of \<open>AppendResponse\<close> the loop makes for the lines \<open>ls\<close>.\<close>

fun line_calls :: "envs \<Rightarrow> gotime \<Rightarrow> bytes list \<Rightarrow> ((os_env \<times> gotime) \<times> bytes \<times> bool) list" where
  "line_calls env now [] = []"
| "line_calls env now (l # ls) =
     ((env 0, now), l @ [newline], True) # line_calls (\<lambda>n. env (Suc n)) now ls"

abbreviation append_all ::
  "bytes \<Rightarrow> ((os_env \<times> gotime) \<times> bytes \<times> bool) list \<Rightarrow> 'db store \<Rightarrow> 'db store" where
  "append_all i \<equiv>
     fold (\<lambda>(e, p, d). (\<lambda>(env, now) p d s. snd (AppendResponse env now i p d s)) e p d)"

lemma drain_eq:
  "drain env now c s =
     (c\<lparr>pending := last (Split newline (pending c))\<rparr>,
      append_all (cr_id c) (line_calls env now (butlast (Split newline (pending c)))) s)"
proof (induction env now c s rule: drain.induct)
  case (1 env now c s)
  show ?case
  proof (cases "IndexByte (pending c) newline")
    case None
    then have "Split newline (pending c) = [pending c]" by (simp add: Split_single)
    then show ?thesis by (subst drain.simps) (simp only: None option.case, simp)
  next
    case (Some i)
    have t: "take (i + 1) (pending c) = take i (pending c) @ [newline]"
      using IndexByte_SomeD [OF Some] by (simp add: take_Suc_conv_app_nth)
    show ?thesis
      using "1.IH" [OF Some refl] t
      by (subst drain.simps) (simp add: Some Split_index [OF Some] Let_def)
  qed
qed

lemma line_calls_good: "\<forall>n. writes_ok (env n) \<Longrightarrow> \<forall>((e, t), p, d) \<in> set (line_calls env now ls). writes_ok e"
  by (induction ls arbitrary: env) fastforce+

lemma line_calls_bytes:
  "concat (map (\<lambda>(e, p, d). p) (line_calls env now ls)) = concat (map (\<lambda>l. l @ [newline]) ls)"
  by (induction ls arbitrary: env) auto

section \<open>The reader over a healthy store\<close>

definition reader_ok :: "captureReader \<Rightarrow> bool" where
  "reader_ok c \<longleftrightarrow> newline \<notin> set (pending c) \<and> (\<not> cr_stream c \<longrightarrow> pending c = []) \<and>
     (\<not> cr_sniffed c \<longrightarrow> \<not> cr_stream c)"

lemma reader_ok_new: "reader_ok (newCaptureReader i f)"
  by (auto simp: reader_ok_def newCaptureReader_def isStreaming_def FormatRaw_def FormatNDJSON_def FormatSSE_def)

lemma keeps_id_format [simp]: "keeps_id (\<lambda>e. e\<lparr>ResponseFormat := f\<rparr>)"
  by (simp add: keeps_id_def)

lemma drain_holds:
  assumes "resp_holds tbl (cr_id c) q st s" "\<forall>n. writes_ok (env n)" "drain env now c s = (c', s')"
  shows "\<exists>st'. resp_holds tbl (cr_id c) q st' s' \<and> st' @ pending c' = st @ pending c"
    "c' = c\<lparr>pending := last (Split newline (pending c))\<rparr>"
proof -
  let ?ls = "butlast (Split newline (pending c))"
  have "\<forall>(e, p, d) \<in> set (line_calls env now ?ls). case e of (env, now) \<Rightarrow> writes_ok env"
    using line_calls_good [OF assms(2), of now ?ls] by auto
  from resp_sink.fold_append_holds [OF this assms(1)]
  have "resp_holds tbl (cr_id c) q (st @ concat (map (\<lambda>l. l @ [newline]) ?ls)) s'"
    using assms(3) by (simp add: drain_eq line_calls_bytes)
  moreover show "c' = c\<lparr>pending := last (Split newline (pending c))\<rparr>"
    using assms(3) by (simp add: drain_eq)
  ultimately show "\<exists>st'. resp_holds tbl (cr_id c) q st' s' \<and> st' @ pending c' = st @ pending c"
    using Split_lines [of newline "pending c"] by (intro exI conjI) auto
qed

lemma consume_holds:
  assumes "resp_holds tbl (cr_id c) q st s" "\<forall>n. writes_ok (env n)" "reader_ok c"
    and "consume env now chunk c s = (c', s')"
  shows "\<exists>st'. resp_holds tbl (cr_id c) q st' s' \<and> st' @ pending c' = st @ pending c @ chunk"
    "reader_ok c'" "cr_id c' = cr_id c" "closeOnce c' = closeOnce c"
proof -
  obtain c1 s1 where h: "resp_holds tbl (cr_id c) q st s1" "reader_ok c1" "cr_id c1 = cr_id c"
    "pending c1 = pending c" "closeOnce c1 = closeOnce c"
    "(c', s') = (if \<not> cr_stream c1 then (c1, snd (AppendResponse (env 0) now (cr_id c1) chunk False s1))
       else drain env now (c1\<lparr>pending := pending c1 @ chunk\<rparr>) s1)"
  proof (cases "cr_sniffed c")
    case True
    with that [OF assms(1,3)] assms(4) show thesis by (simp add: consume_def)
  next
    case False
    have p: "pending c = []" using assms(3) False by (simp add: reader_ok_def)
    let ?f = "sniffFormat chunk"
    show thesis
    proof (cases "?f = FormatRaw")
      case True
      show thesis
        by (rule that [of s "c\<lparr>cr_sniffed := True\<rparr>"])
          (use assms False True in \<open>auto simp: consume_def reader_ok_def\<close>)
    next
      case f: False
      have "resp_holds tbl (cr_id c) q st (snd (Update now (cr_id c) (\<lambda>e. e\<lparr>ResponseFormat := ?f\<rparr>) s))"
        by (rule Update_holds [OF assms(1) keeps_id_format surjective_pairing])
      then show thesis
        by (rule that [of _ "c\<lparr>cr_sniffed := True, cr_format := ?f, cr_stream := isStreaming ?f\<rparr>"])
          (use assms False f p in \<open>auto simp: consume_def reader_ok_def Let_def\<close>)
    qed
  qed
  show "\<exists>st'. resp_holds tbl (cr_id c) q st' s' \<and> st' @ pending c' = st @ pending c @ chunk"
    "reader_ok c'" "cr_id c' = cr_id c" "closeOnce c' = closeOnce c"
  proof -
    consider "\<not> cr_stream c1" "c' = c1" "s' = snd (AppendResponse (env 0) now (cr_id c) chunk False s1)"
      | "cr_stream c1" "drain env now (c1\<lparr>pending := pending c1 @ chunk\<rparr>) s1 = (c', s')"
      using h(3,6) by (auto split: if_splits)
    then have "(\<exists>st'. resp_holds tbl (cr_id c) q st' s' \<and> st' @ pending c' = st @ pending c @ chunk) \<and>
        reader_ok c' \<and> cr_id c' = cr_id c \<and> closeOnce c' = closeOnce c"
    proof cases
      case 1
      have "resp_holds tbl (cr_id c) q (st @ chunk) s'"
        using AppendResponse_holds(2) [OF h(1) _ surjective_pairing] assms(2) 1(3) by simp
      then show ?thesis using 1 h by (auto simp: reader_ok_def)
    next
      case 2
      note D = drain_holds [of tbl "c1\<lparr>pending := pending c1 @ chunk\<rparr>" q st s1 env now c' s']
      show ?thesis using D 2 h assms(2) last_Split by (auto simp: reader_ok_def)
    qed
    then show "\<exists>st'. resp_holds tbl (cr_id c) q st' s' \<and> st' @ pending c' = st @ pending c @ chunk"
      "reader_ok c'" "cr_id c' = cr_id c" "closeOnce c' = closeOnce c" by blast+
  qed
qed

lemma Read_holds:
  assumes "resp_holds tbl (cr_id c) q st s" "\<forall>n. writes_ok (env n)" "reader_ok c"
    and "Read env now rd c s = (out, c', s')"
  shows "out = rd" "\<exists>st'. resp_holds tbl (cr_id c) q st' s' \<and> st' @ pending c' = st @ pending c @ fst rd"
    "reader_ok c'" "cr_id c' = cr_id c" "closeOnce c' = closeOnce c"
proof -
  let ?c = "(if IsZero (firstAt c) then c\<lparr>firstAt := now\<rparr> else c)\<lparr>lastAt := now\<rparr>"
  have ok: "reader_ok ?c" "cr_id ?c = cr_id c" "pending ?c = pending c" "closeOnce ?c = closeOnce c"
    using assms(3) by (simp_all add: reader_ok_def)
  show "out = rd" using assms(4) by (auto simp: Read_def split: prod.splits if_splits)
  have "(\<exists>st'. resp_holds tbl (cr_id c) q st' s' \<and> st' @ pending c' = st @ pending c @ fst rd) \<and>
    reader_ok c' \<and> cr_id c' = cr_id c \<and> closeOnce c' = closeOnce c"
  proof (cases "fst rd = []")
    case True
    with assms(1,3,4) show ?thesis by (auto simp: Read_def split: prod.splits)
  next
    case False
    then have "consume env now (fst rd) ?c s = (c', s')"
      using assms(4) by (auto simp: Read_def Let_def split: prod.splits if_splits)
    from consume_holds [OF _ assms(2) ok(1) this] assms(1) ok show ?thesis by metis
  qed
  then show "\<exists>st'. resp_holds tbl (cr_id c) q st' s' \<and> st' @ pending c' = st @ pending c @ fst rd"
    "reader_ok c'" "cr_id c' = cr_id c" "closeOnce c' = closeOnce c" by blast+
qed

text \<open>A client's reads, each with its own circumstances and what upstream returned.\<close>

fun read_all ::
  "(envs \<times> gotime \<times> (bytes \<times> 'e option)) list \<Rightarrow> captureReader \<Rightarrow> 'db store
     \<Rightarrow> (bytes \<times> 'e option) list \<times> captureReader \<times> 'db store" where
  "read_all [] c s = ([], c, s)"
| "read_all ((env, now, rd) # rds) c s =
     (let (out, c1, s1) = Read env now rd c s; (outs, c2, s2) = read_all rds c1 s1
      in (out # outs, c2, s2))"

lemma read_all_holds:
  assumes "resp_holds tbl (cr_id c) q st s" "\<forall>(env, now, rd) \<in> set rds. \<forall>n. writes_ok (env n)" "reader_ok c"
    and "read_all rds c s = (outs, c', s')"
  shows "outs = map (snd \<circ> snd) rds \<and> reader_ok c' \<and> cr_id c' = cr_id c \<and> closeOnce c' = closeOnce c \<and>
    (\<exists>st'. resp_holds tbl (cr_id c) q st' s' \<and>
       st' @ pending c' = st @ pending c @ concat (map (fst \<circ> snd \<circ> snd) rds))"
  using assms
proof (induction rds arbitrary: c s st outs)
  case (Cons a rds)
  obtain env now rd where a: "a = (env, now, rd)" by (cases a)
  obtain out c1 s1 where r: "Read env now rd c s = (out, c1, s1)" by (rule prod_cases3)
  obtain outs1 where ra: "read_all rds c1 s1 = (outs1, c', s')" "outs = out # outs1"
    using Cons.prems(4) r by (auto simp: a Let_def split: prod.splits)
  have g: "\<forall>n. writes_ok (env n)" "\<forall>(env, now, rd) \<in> set rds. \<forall>n. writes_ok (env n)"
    using Cons.prems(2) by (auto simp: a)
  note R = Read_holds [OF Cons.prems(1) g(1) Cons.prems(3) r]
  from R(2) obtain st1 where st1: "resp_holds tbl (cr_id c1) q st1 s1" "st1 @ pending c1 = st @ pending c @ fst rd"
    using R(4) by auto
  from Cons.IH [OF st1(1) g(2) R(3) ra(1)] show ?case
    using R ra(2) st1(2) by (auto simp: a)
qed simp

lemma Close_reader_holds:
  assumes "resp_holds tbl (cr_id c) q st s" "writes_ok (env 0)" "\<not> closeOnce c"
    and "Close_reader env now c s = (oc, c', s')"
  shows "resp_holds tbl (cr_id c) q (st @ pending c) s'" "oc \<noteq> None" "closeOnce c'" "cr_id c' = cr_id c"
proof -
  have "resp_holds tbl (cr_id c) q (st @ p) (snd (AppendResponse (env 0) now (cr_id c) p True s))" for p
    using AppendResponse_holds(2) [OF assms(1,2) surjective_pairing] .
  with assms show "resp_holds tbl (cr_id c) q (st @ pending c) s'" "oc \<noteq> None" "closeOnce c'" "cr_id c' = cr_id c"
    by (auto simp: Close_reader_def Let_def split: if_splits)
qed

section \<open>The events of a stream\<close>

abbreviation delta :: "bytes \<Rightarrow> bytes \<Rightarrow> event" where
  "delta i p \<equiv> \<lparr>ev_Type = EventDelta, ev_ID = i, ev_Entry = None, ev_Chunk = p\<rparr>"

text \<open>The lines of a text, each with its line feed, the last one without when it is unfinished.\<close>

definition full_lines :: "bytes \<Rightarrow> bytes list" where
  "full_lines b = map (\<lambda>l. l @ [newline]) (butlast (Split newline b))"

definition text_lines :: "bytes \<Rightarrow> bytes list" where
  "text_lines b =
     full_lines b @ (if last (Split newline b) = [] then [] else [last (Split newline b)])"

lemma Split_extend: "Split c (xs @ ys) = butlast (Split c xs) @ Split c (last (Split c xs) @ ys)"
  by (induction xs) (auto split: list.splits)

lemma full_lines_extend: "full_lines (xs @ ys) = full_lines xs @ full_lines (last (Split newline xs) @ ys)"
  by (simp add: full_lines_def Split_extend [of newline xs ys] butlast_append)

lemma last_Split_extend: "last (Split c (last (Split c xs) @ ys)) = last (Split c (xs @ ys))"
  by (simp add: Split_extend [of c xs ys])

lemma append_all_events:
  assumes "resp_holds tbl i q st s" "\<forall>n. writes_ok (env n)"
  shows "events (append_all i (line_calls env now ls) s) =
    fold Publish (map (delta i) (map (\<lambda>l. l @ [newline]) ls)) (events s)"
  using assms
proof (induction ls arbitrary: env s st)
  case (Cons l ls)
  let ?s = "snd (AppendResponse (env 0) now i (l @ [newline]) True s)"
  have w: "writes_ok (env 0)" using Cons.prems(2) by blast
  note A = AppendResponse_holds [OF Cons.prems(1) w, of now "l @ [newline]" True "fst (AppendResponse (env 0) now i (l @ [newline]) True s)" ?s]
  show ?case
    using A(3) Cons.IH [OF A(2), of "\<lambda>n. env (Suc n)"] Cons.prems(2) by simp
qed simp

text \<open>What a reader that has seen the bytes \<open>b\<close> has published and still holds.\<close>

definition feed_events :: "bytes \<Rightarrow> format \<Rightarrow> bytes \<Rightarrow> event list" where
  "feed_events i f b = (if isStreaming f then map (delta i) (full_lines b) else [])"

definition feeding :: "bytes \<Rightarrow> format \<Rightarrow> bytes \<Rightarrow> captureReader \<Rightarrow> bool" where
  "feeding i f b c \<longleftrightarrow> cr_id c = i \<and> cr_stream c = isStreaming f \<and> cr_sniffed c \<and>
     pending c = (if isStreaming f then last (Split newline b) else [])"

lemma feed_events_Nil: "feed_events i f [] = []"
  by (simp add: feed_events_def full_lines_def)

lemma Read_bytes:
  assumes "fst rd \<noteq> []" "Read env now rd c s = (out, c', s')"
  obtains fa where "consume env now (fst rd) (c\<lparr>firstAt := fa, lastAt := now\<rparr>) s = (c', s')"
proof -
  let ?fa = "if IsZero (firstAt c) then now else firstAt c"
  obtain chunk er where "rd = (chunk, er)" by (cases rd)
  with assms have "consume env now (fst rd) (c\<lparr>firstAt := ?fa, lastAt := now\<rparr>) s = (c', s')"
    by (cases "IsZero (firstAt c)") (auto simp: Read_def Let_def)
  then show thesis by (rule that)
qed

lemma consume_sniffed:
  "cr_sniffed c \<Longrightarrow> consume env now chunk c s =
     (if cr_stream c then drain env now (c\<lparr>pending := pending c @ chunk\<rparr>) s
      else (c, snd (AppendResponse (env 0) now (cr_id c) chunk False s)))"
  by (simp add: consume_def)

lemma Read_feeds:
  assumes "resp_holds tbl i q st s" "\<forall>n. writes_ok (env n)" "feeding i f b c"
    and "Read env now rd c s = (out, c', s')"
    and that: "fold Publish (feed_events i f b) es = events s"
  shows "feeding i f (b @ fst rd) c'" "fold Publish (feed_events i f (b @ fst rd)) es = events s'"
proof -
  have "feeding i f (b @ fst rd) c' \<and> fold Publish (feed_events i f (b @ fst rd)) es = events s'"
  proof (cases "fst rd = []")
    case True
    with assms(3,4) that show ?thesis by (auto simp: Read_def split: prod.splits)
  next
    case False
    obtain fa where c: "consume env now (fst rd) (c\<lparr>firstAt := fa, lastAt := now\<rparr>) s = (c', s')"
      using Read_bytes [OF False assms(4)] .
    have i: "cr_id c = i" "cr_stream c = isStreaming f" "cr_sniffed c"
      "pending c = (if isStreaming f then last (Split newline b) else [])"
      using assms(3) by (simp_all add: feeding_def)
    show ?thesis
    proof (cases "isStreaming f")
      case True
      let ?l = "full_lines (last (Split newline b) @ fst rd)"
      have "c' = c\<lparr>firstAt := fa, lastAt := now, pending := last (Split newline (b @ fst rd))\<rparr>"
        and s': "s' = append_all i (line_calls env now (butlast (Split newline (last (Split newline b) @ fst rd)))) s"
        using c i True by (simp_all add: consume_sniffed drain_eq last_Split_extend)
      moreover have "events s' = fold Publish (map (delta i) ?l) (events s)"
        unfolding s' full_lines_def by (rule append_all_events [OF assms(1,2)])
      ultimately show ?thesis using i True that [symmetric]
        by (simp add: feeding_def feed_events_def full_lines_extend [of b "fst rd"])
    next
      case False
      have "events (snd (AppendResponse (env 0) now i (fst rd) False s)) = events s"
        using AppendResponse_holds(3) [OF assms(1) _ surjective_pairing] assms(2) by simp
      moreover have "c' = c\<lparr>firstAt := fa, lastAt := now\<rparr>"
        "s' = snd (AppendResponse (env 0) now i (fst rd) False s)"
        using c i False by (simp_all add: consume_sniffed)
      ultimately show ?thesis using i False that by (simp add: feeding_def feed_events_def)
    qed
  qed
  then show "feeding i f (b @ fst rd) c'" "fold Publish (feed_events i f (b @ fst rd)) es = events s'"
    by blast+
qed

lemma read_all_feeds:
  assumes "resp_holds tbl i q st s" "reader_ok c" "\<forall>(env, now, rd) \<in> set rds. \<forall>n. writes_ok (env n)"
    and "feeding i f b c" "fold Publish (feed_events i f b) es = events s"
    and "read_all rds c s = (outs, c', s')"
  shows "feeding i f (b @ concat (map (fst \<circ> snd \<circ> snd) rds)) c' \<and>
    fold Publish (feed_events i f (b @ concat (map (fst \<circ> snd \<circ> snd) rds))) es = events s' \<and>
    (\<exists>st'. resp_holds tbl i q st' s') \<and> closeOnce c' = closeOnce c"
  using assms
proof (induction rds arbitrary: c s st outs b)
  case (Cons a rds)
  obtain env now rd where a: "a = (env, now, rd)" by (cases a)
  obtain out c1 s1 where r: "Read env now rd c s = (out, c1, s1)" by (rule prod_cases3)
  obtain outs1 where ra: "read_all rds c1 s1 = (outs1, c', s')"
    using Cons.prems(6) r by (auto simp: a Let_def split: prod.splits)
  have g: "\<forall>n. writes_ok (env n)" "\<forall>(env, now, rd) \<in> set rds. \<forall>n. writes_ok (env n)"
    using Cons.prems(3) by (auto simp: a)
  have i: "cr_id c = i" using Cons.prems(4) by (simp add: feeding_def)
  note R = Read_holds [OF _ g(1) Cons.prems(2) r, unfolded i, OF Cons.prems(1)]
  note F = Read_feeds [OF Cons.prems(1) g(1) Cons.prems(4) r Cons.prems(5)]
  obtain st1 where "resp_holds tbl i q st1 s1" using R(2) by blast
  from Cons.IH [OF this R(3) g(2) F ra] show ?case using R(5) by (auto simp: a)
qed auto

section \<open>The times of a stream\<close>

text \<open>When the reads that returned bytes happened.\<close>

definition byte_times :: "(envs \<times> gotime \<times> (bytes \<times> 'e option)) list \<Rightarrow> gotime list" where
  "byte_times rds = map (fst \<circ> snd) (filter (\<lambda>(env, now, rd). fst rd \<noteq> []) rds)"

lemma Read_times:
  assumes "cr_sniffed c" "Read env now rd c s = (out, c', s')"
  shows "cr_sniffed c' \<and> cr_stream c' = cr_stream c \<and> closeOnce c' = closeOnce c \<and>
    lastAt c' = (if fst rd = [] then lastAt c else now) \<and>
    firstAt c' = (if fst rd \<noteq> [] \<and> IsZero (firstAt c) then now else firstAt c)"
  using assms by (cases "fst rd = []")
    (auto simp: Read_def consume_sniffed drain_eq Let_def split: prod.splits if_splits)

lemma read_all_times:
  assumes "cr_sniffed c" "read_all rds c s = (outs, c', s')"
  shows "cr_stream c' = cr_stream c \<and> closeOnce c' = closeOnce c \<and>
    lastAt c' = (if byte_times rds = [] then lastAt c else last (byte_times rds)) \<and>
    (zero_time \<notin> set (byte_times rds) \<longrightarrow>
      firstAt c' = (if byte_times rds \<noteq> [] \<and> IsZero (firstAt c) then hd (byte_times rds) else firstAt c))"
  using assms
proof (induction rds arbitrary: c s outs)
  case (Cons a rds)
  obtain env now rd where a: "a = (env, now, rd)" by (cases a)
  obtain out c1 s1 where r: "Read env now rd c s = (out, c1, s1)" by (rule prod_cases3)
  obtain outs1 where ra: "read_all rds c1 s1 = (outs1, c', s')"
    using Cons.prems r by (auto simp: a Let_def split: prod.splits)
  have t: "byte_times (a # rds) = (if fst rd = [] then byte_times rds else now # byte_times rds)"
    by (simp add: byte_times_def a)
  have R: "cr_sniffed c1" "cr_stream c1 = cr_stream c" "closeOnce c1 = closeOnce c"
    "lastAt c1 = (if fst rd = [] then lastAt c else now)"
    "firstAt c1 = (if fst rd \<noteq> [] \<and> IsZero (firstAt c) then now else firstAt c)"
    using Read_times [OF Cons.prems(1) r] by blast+
  note I = Cons.IH [OF R(1) ra]
  show ?case using I R by (auto simp: t IsZero_def)
qed (simp add: byte_times_def)

section \<open>The entry while its response goes by\<close>

text \<open>Only the format of the response may change, and it is the reader's.\<close>

lemma append_all_entry: "entry_of k (append_all i calls s) = entry_of k s"
  by (induction calls arbitrary: s) (auto simp: entry_of_AppendResponse)

lemma append_all_history: "history_of (append_all i calls s) = history_of s"
  by (induction calls arbitrary: s) (auto simp: history_of_calls)

lemma consume_history: "history_of (snd (consume env now chunk c s)) = history_of s"
  by (auto simp: consume_def drain_eq append_all_history history_of_calls Let_def split: prod.splits if_splits)

lemma Read_history: "history_of (snd (snd (Read env now rd c s))) = history_of s"
  by (auto simp: Read_def Let_def consume_history split: prod.splits)

lemma Close_reader_history: "history_of (snd (snd (Close_reader env now c s))) = history_of s"
  by (simp add: Close_reader_def Let_def history_of_calls)

lemma consume_entry:
  assumes "consume env now chunk c s = (c', s')" "cr_id c = i"
    and "entry_of i s = Some (e\<lparr>ResponseFormat := cr_format c\<rparr>)"
  shows "cr_id c' = i \<and> entry_of i s' = Some (e\<lparr>ResponseFormat := cr_format c'\<rparr>)"
proof -
  obtain c1 s1 where h: "cr_id c1 = i" "entry_of i s1 = Some (e\<lparr>ResponseFormat := cr_format c1\<rparr>)"
    "(c', s') = (if \<not> cr_stream c1 then (c1, snd (AppendResponse (env 0) now (cr_id c1) chunk False s1))
       else drain env now (c1\<lparr>pending := pending c1 @ chunk\<rparr>) s1)"
  proof (cases "\<not> cr_sniffed c \<and> sniffFormat chunk \<noteq> FormatRaw")
    case True
    show thesis
      by (rule that [of "c\<lparr>cr_sniffed := True, cr_format := sniffFormat chunk,
              cr_stream := isStreaming (sniffFormat chunk)\<rparr>"
            "snd (Update now i (\<lambda>e. e\<lparr>ResponseFormat := sniffFormat chunk\<rparr>) s)"])
        (use assms True in \<open>simp_all add: consume_def Let_def entry_of_Update\<close>)
  next
    case False
    show thesis
    proof (cases "cr_sniffed c")
      case True
      with assms show thesis by (intro that [of c s]) (simp_all add: consume_def)
    next
      case s: False
      with assms False show thesis
        by (intro that [of "c\<lparr>cr_sniffed := True\<rparr>" s]) (simp_all add: consume_def)
    qed
  qed
  then show ?thesis
    by (cases "cr_stream c1") (simp_all add: drain_eq append_all_entry entry_of_AppendResponse)
qed

lemma Read_entry:
  assumes "Read env now rd c s = (out, c', s')" "cr_id c = i"
    and "entry_of i s = Some (e\<lparr>ResponseFormat := cr_format c\<rparr>)"
  shows "cr_id c' = i \<and> entry_of i s' = Some (e\<lparr>ResponseFormat := cr_format c'\<rparr>)"
proof (cases "fst rd = []")
  case True
  with assms show ?thesis by (auto simp: Read_def split: prod.splits)
next
  case False
  from Read_bytes [OF this assms(1)] obtain fa where
    "consume env now (fst rd) (c\<lparr>firstAt := fa, lastAt := now\<rparr>) s = (c', s')" .
  from consume_entry [OF this, of i e] assms(2,3) show ?thesis by simp
qed

lemma read_all_entry:
  assumes "read_all rds c s = (outs, c', s')" "cr_id c = i"
    and "entry_of i s = Some (e\<lparr>ResponseFormat := cr_format c\<rparr>)"
  shows "cr_id c' = i \<and> entry_of i s' = Some (e\<lparr>ResponseFormat := cr_format c'\<rparr>) \<and>
    history_of s' = history_of s"
  using assms
proof (induction rds arbitrary: c s outs)
  case (Cons a rds)
  obtain env now rd where a: "a = (env, now, rd)" by (cases a)
  obtain out c1 s1 where r: "Read env now rd c s = (out, c1, s1)" by (rule prod_cases3)
  obtain outs1 where ra: "read_all rds c1 s1 = (outs1, c', s')"
    using Cons.prems(1) r by (auto simp: a Let_def split: prod.splits)
  from Read_entry [OF r Cons.prems(2,3)] Cons.IH [OF ra] Read_history [of env now rd c s] r
  show ?case by simp
qed simp

lemma Close_reader_entry: "entry_of k (snd (snd (Close_reader env now c s))) = entry_of k s"
  by (simp add: Close_reader_def Let_def entry_of_AppendResponse)

section \<open>Properties\<close>

text \<open>
  C7. The reader is transparent and complete. Whatever upstream returns, in whatever fragments
  and with whatever detected format, the client's reads return exactly that; and while no system
  call fails, after the last read and the close the stored response of the entry, as
  \<open>Body\<close> serves it, is exactly the bytes that went by, in order, none missing and none twice.
  Closing runs the callback once: a second close does nothing.
\<close>

theorem capture_is_faithful:
  assumes "sql_engine exec tbl" "resp_holds tbl i q [] s" "open_ok env'"
    and "\<forall>(env, now, rd) \<in> set rds. \<forall>n. writes_ok (env n)" "writes_ok (env 0)"
    and "read_all rds (newCaptureReader i f) s = (outs, c1, s1)"
    and "Close_reader env now c1 s1 = (oc, c2, s2)"
  shows "outs = map (snd \<circ> snd) rds \<and>
    (let bytes = concat (map (fst \<circ> snd \<circ> snd) rds)
     in fst (Body exec env' i SideResponse s2) = Inr (bytes, int (length bytes))) \<and>
    oc \<noteq> None \<and> fst (Close_reader env now c2 s2) = None"
proof -
  have i: "cr_id (newCaptureReader i f) = i" "pending (newCaptureReader i f) = []"
    "\<not> closeOnce (newCaptureReader i f)"
    by (simp_all add: newCaptureReader_def)
  have R: "outs = map (snd \<circ> snd) rds" "cr_id c1 = i" "\<not> closeOnce c1"
    "\<exists>st. resp_holds tbl i q st s1 \<and> st @ pending c1 = concat (map (fst \<circ> snd \<circ> snd) rds)"
    using read_all_holds [OF _ assms(4) reader_ok_new assms(6), of tbl q "[]"] assms(2) i by auto
  then obtain st where st: "resp_holds tbl i q st s1" "st @ pending c1 = concat (map (fst \<circ> snd \<circ> snd) rds)"
    by blast
  have C: "resp_holds tbl i q (st @ pending c1) s2" "oc \<noteq> None" "closeOnce c2"
    using Close_reader_holds [OF _ _ R(3) assms(7)] st(1) R(2) assms(5) by auto
  then have "fst (Body exec env' i SideResponse s2) = Inr (st @ pending c1, int (length (st @ pending c1)))"
    using sql_engine.Body_captured [OF assms(1) _ _ _ assms(3), of s2 i SideResponse "st @ pending c1"]
    using resp_holds_side [OF C(1)] by (simp add: resp_holds_def)
  with R(1) C st(2) show ?thesis by (simp add: Close_reader_def Let_def)
qed

text \<open>An entry in flight in the small store, its bodies still empty.\<close>

definition put_store :: "row list store" where
  "put_store = snd (do_op table_exec one_put small_store)"

lemma put_store_holds: "resp_holds table_tbl ''1f'' (Some []) [] put_store"
proof -
  have e: "do_op table_exec one_put small_store = (True, put_store)"
    by (simp add: put_store_def one_put_def Put_eq put_id_def zero_entry_def)
  have a: "admissible table_tbl one_put small_store"
    by (simp add: one_put_def put_id_def zero_entry_def unused_def small_store_def mem_get_def
        newMemStore_def table_tbl_def)
  have "history_run table_exec table_tbl small_store (\<lambda>_ _. None) put_store ((\<lambda>_ _. None)(''1f'' := \<lambda>_. Some []))"
    using history_run.call [OF history_run.start a e] by (simp add: one_put_def put_id_def zero_entry_def)
  from table.captured_run [OF this table.store_inv_New [OF New_small fs_ok_empty]]
  have "store_inv table_tbl put_store" "captured table_tbl (exchange_history ''1f'' (Some []) []) put_store"
    by (auto simp: table_tbl_def captured_def exchange_history_def split: if_splits)
  moreover have "in_memory ''1f'' put_store"
    by (simp add: put_store_def in_memory_def one_put_mem mem_get_def)
  ultimately show ?thesis by (simp add: resp_holds_def)
qed

lemma writes_ok_fine: "writes_ok os_fine"
  by (simp add: writes_ok_def os_fine_def)

abbreviation two_reads :: "(envs \<times> gotime \<times> (bytes \<times> bytes option)) list" where
  "two_reads \<equiv> [(\<lambda>_. os_fine, Time 7, ''{}'', None), (\<lambda>_. os_fine, Time 9, newline # ''[1'', Some ''EOF'')]"

lemma capture_is_faithful_witness:
  "fst (Body table_exec os_fine ''1f'' SideResponse
     (snd (snd (Close_reader (\<lambda>_. os_fine) (Time 10)
        (fst (snd (read_all two_reads (newCaptureReader ''1f'' FormatNDJSON) put_store)))
        (snd (snd (read_all two_reads (newCaptureReader ''1f'' FormatNDJSON) put_store)))))))
   = Inr (''{}'' @ newline # ''[1'', 5)"
proof -
  let ?r = "read_all two_reads (newCaptureReader ''1f'' FormatNDJSON) put_store"
  obtain outs c1 s1 where r: "?r = (outs, c1, s1)" by (rule prod_cases3)
  obtain oc c2 s2 where c: "Close_reader (\<lambda>_. os_fine) (Time 10) c1 s1 = (oc, c2, s2)" by (rule prod_cases3)
  show ?thesis
    using capture_is_faithful [OF table.sql_engine_axioms put_store_holds _ _ _ r c, of os_fine]
    by (simp only: r c fst_conv snd_conv) (simp add: os_fine_def writes_ok_def)
qed



text \<open>
  The stream's duration is the span of its reads. Whatever happens to the store, the close
  reports a duration exactly when the format streams and some byte went by; it is the time from
  the first read that returned bytes to the last one, in milliseconds rounded down, and it is
  never negative when the clock does not go back.
\<close>

lemma stream_time_is_span:
  assumes "f \<noteq> FormatRaw" "read_all rds (newCaptureReader i f) s = (outs, c1, s1)"
    and "Close_reader env now c1 s1 = (oc, c2, s2)" "zero_time \<notin> set (byte_times rds)"
  shows "oc = Some (if isStreaming f \<and> byte_times rds \<noteq> []
      then Some (Milliseconds (Sub (last (byte_times rds)) (hd (byte_times rds)))) else None) \<and>
    (sorted (byte_times rds) \<longrightarrow> (\<forall>ms. oc = Some (Some ms) \<longrightarrow> 0 \<le> ms))"
proof -
  have S: "cr_sniffed (newCaptureReader i f)" "firstAt (newCaptureReader i f) = zero_time"
    "cr_stream (newCaptureReader i f) = isStreaming f" "\<not> closeOnce (newCaptureReader i f)"
    using assms(1) by (simp_all add: newCaptureReader_def)
  note T = read_all_times [OF S(1) assms(2)]
  have "byte_times rds \<noteq> [] \<Longrightarrow> hd (byte_times rds) \<noteq> zero_time"
    using assms(4) hd_in_set by metis
  then have oc: "oc = Some (if isStreaming f \<and> byte_times rds \<noteq> []
      then Some (Milliseconds (Sub (last (byte_times rds)) (hd (byte_times rds)))) else None)"
    using assms(3,4) T S by (auto simp: Close_reader_def Let_def IsZero_def split: if_splits)
  have "0 \<le> Milliseconds (Sub (last (byte_times rds)) (hd (byte_times rds)))"
    if "sorted (byte_times rds)" "byte_times rds \<noteq> []"
    using that by (intro Milliseconds_nonneg Sub_nonneg) (cases "byte_times rds", auto)
  with oc show ?thesis by auto
qed

lemma stream_time_is_span_example:
  "fst (Close_reader (\<lambda>_. os_fine) (Time 3000010)
     (fst (snd (read_all [(\<lambda>_. os_fine, Time 7, ''{}'', None :: bytes option), (\<lambda>_. os_fine, Time 3000009, ''[1'', None)]
        (newCaptureReader ''1f'' FormatNDJSON) put_store)))
     (snd (snd (read_all [(\<lambda>_. os_fine, Time 7, ''{}'', None :: bytes option), (\<lambda>_. os_fine, Time 3000009, ''[1'', None)]
        (newCaptureReader ''1f'' FormatNDJSON) put_store)))) = Some (Some 3)"
proof -
  let ?rds = "[(\<lambda>_. os_fine, Time 7, ''{}'', None :: bytes option), (\<lambda>_. os_fine, Time 3000009, ''[1'', None)]"
  obtain outs c1 s1 where r: "read_all ?rds (newCaptureReader ''1f'' FormatNDJSON) put_store = (outs, c1, s1)"
    by (rule prod_cases3)
  obtain oc c2 s2 where c: "Close_reader (\<lambda>_. os_fine) (Time 3000010) c1 s1 = (oc, c2, s2)" by (rule prod_cases3)
  have f: "FormatNDJSON \<noteq> FormatRaw" "isStreaming FormatNDJSON"
    by code_simp+
  show ?thesis
    using stream_time_is_span [OF f(1) r c] f(2)
    by (simp only: r c fst_conv snd_conv) (simp add: byte_times_def zero_time_def Sub_def Milliseconds_def go_div_def max_int64_def min_int64_def)
qed

end
