(* ===== verification/Http.thy ===== *)
theory Http
  imports Entry Url
begin

text \<open>
  The parts of \<open>net/http\<close> and \<open>net/http/httputil\<close> the program uses: headers, cookies, what
  a handler writes, and \<open>ReverseProxy.ServeHTTP\<close>, which drives the program's callbacks. The
  network is a parameter: a function from the outgoing request to what the transport returns.
\<close>

section \<open>Headers\<close>

definition token_char :: "char \<Rightarrow> bool" where
  "token_char c \<longleftrightarrow> alnum c \<or> c \<in> set (CHR 0x27 # ''!#$%&*+-.^_`|~'')"

text \<open>A letter is upper case at the start and after a hyphen, lower case elsewhere.\<close>

fun canonical_case :: "bool \<Rightarrow> bytes \<Rightarrow> bytes" where
  "canonical_case up [] = []"
| "canonical_case up (c # s) = (if up then upper_byte c else lower_byte c) # canonical_case (c = CHR ''-'') s"

definition CanonicalHeaderKey :: "bytes \<Rightarrow> bytes" where
  "CanonicalHeaderKey k = (if list_all token_char k then canonical_case True k else k)"

definition header_values :: "bytes \<Rightarrow> header \<Rightarrow> bytes list" where
  "header_values k h = (case map_of h k of None \<Rightarrow> [] | Some vs \<Rightarrow> vs)"

definition header_Get :: "header \<Rightarrow> bytes \<Rightarrow> bytes" where
  "header_Get h k = (case header_values (CanonicalHeaderKey k) h of [] \<Rightarrow> [] | v # _ \<Rightarrow> v)"

definition header_Set :: "bytes \<Rightarrow> bytes \<Rightarrow> header \<Rightarrow> header" where
  "header_Set k v h = AList.update (CanonicalHeaderKey k) [v] h"

definition header_Add :: "bytes \<Rightarrow> bytes \<Rightarrow> header \<Rightarrow> header" where
  "header_Add k v h =
     AList.update (CanonicalHeaderKey k) (header_values (CanonicalHeaderKey k) h @ [v]) h"

definition header_Del :: "bytes \<Rightarrow> header \<Rightarrow> header" where
  "header_Del k h = AList.delete (CanonicalHeaderKey k) h"

section \<open>Cookies\<close>

definition validCookieValueByte :: "char \<Rightarrow> bool" where
  "validCookieValueByte c \<longleftrightarrow> between 32 126 c \<and> c \<noteq> quote \<and> c \<noteq> CHR '';'' \<and> c \<noteq> backslash"

text \<open>\<open>Cookie.String\<close> of a cookie with a valid name and the path \<open>/\<close>.\<close>

definition sanitizeCookieValue :: "bytes \<Rightarrow> bytes" where
  "sanitizeCookieValue v =
     (let w = filter validCookieValueByte v
      in if CHR '' '' \<in> set w \<or> CHR '','' \<in> set w then quote # w @ [quote] else w)"

definition Cookie_String :: "bytes \<Rightarrow> bytes \<Rightarrow> bytes" where
  "Cookie_String name v = name @ ''='' @ sanitizeCookieValue v @ ''; Path=/''"

section \<open>Requests and what a handler writes\<close>

text \<open>
  \<open>rq_ctx\<close> is the value the program stores in the request's context; \<open>rq_client\<close> the address of
  the client, when \<open>RemoteAddr\<close> has one.
\<close>

record 'x request =
  rq_Method :: bytes
  rq_URL :: url
  rq_Host :: bytes
  rq_Header :: header
  rq_Body :: bytes
  rq_client :: "bytes option"
  rq_ctx :: "'x option"

record answer =
  an_Status :: int
  an_Header :: header
  an_Body :: bytes

text \<open>\<open>http.Error\<close> on a response nothing has been written to.\<close>

definition http_Error :: "bytes \<Rightarrow> int \<Rightarrow> answer" where
  "http_Error msg code =
     \<lparr>an_Status = code,
      an_Header = [(''Content-Type'', [''text/plain; charset=utf-8'']), (''X-Content-Type-Options'', [''nosniff''])],
      an_Body = msg @ [CHR 0x0A]\<rparr>"

section \<open>Hop-by-hop headers\<close>

definition hopHeaders :: "bytes list" where
  "hopHeaders = [''Connection'', ''Proxy-Connection'', ''Keep-Alive'', ''Proxy-Authenticate'',
     ''Proxy-Authorization'', ''Te'', ''Trailer'', ''Transfer-Encoding'', ''Upgrade'']"

text \<open>\<open>textproto.TrimString\<close>: the ASCII white space around a list element.\<close>

definition ascii_space :: "char \<Rightarrow> bool" where
  "ascii_space c \<longleftrightarrow> c = CHR 0x20 \<or> c = CHR 0x09 \<or> c = CHR 0x0A \<or> c = CHR 0x0D"

definition TrimString :: "bytes \<Rightarrow> bytes" where
  "TrimString s = rev (dropWhile ascii_space (rev (dropWhile ascii_space s)))"

definition connection_options :: "header \<Rightarrow> bytes list" where
  "connection_options h =
     filter (\<lambda>k. k \<noteq> []) (map TrimString (concat (map (Split CHR '','') (header_values ''Connection'' h))))"

definition removeHopByHop :: "header \<Rightarrow> header" where
  "removeHopByHop h = fold header_Del (connection_options h @ hopHeaders) h"

text \<open>\<open>httpguts.HeaderValuesContainsToken\<close>, which compares ASCII letters without case.\<close>

definition ContainsToken :: "bytes list \<Rightarrow> bytes \<Rightarrow> bool" where
  "ContainsToken vs t \<longleftrightarrow>
     (\<exists>v \<in> set vs. \<exists>w \<in> set (Split CHR '','' v).
        map lower_byte (rev (dropWhile (\<lambda>c. c = CHR 0x20 \<or> c = CHR 0x09)
          (rev (dropWhile (\<lambda>c. c = CHR 0x20 \<or> c = CHR 0x09) w)))) = map lower_byte t)"

definition upgradeType :: "header \<Rightarrow> bytes" where
  "upgradeType h =
     (if ContainsToken (header_values ''Connection'' h) ''Upgrade'' then header_Get h ''Upgrade'' else [])"

definition ascii_print :: "bytes \<Rightarrow> bool" where
  "ascii_print s \<longleftrightarrow> list_all (between 32 126) s"

definition forwarded_for :: "'x request \<Rightarrow> header \<Rightarrow> header" where
  "forwarded_for r h =
     (case rq_client r of
        None \<Rightarrow> h
      | Some ip \<Rightarrow>
        (if map_of h ''X-Forwarded-For'' = None
         then header_Set ''X-Forwarded-For'' ip h
         else header_Set ''X-Forwarded-For'' (Join (header_values ''X-Forwarded-For'' h @ [ip]) '', '') h))"

text \<open>
  The headers of the outgoing request: without those of the incoming connection, with the
  client's address added, and with an empty \<open>User-Agent\<close> when there is none, which keeps the
  transport from adding its own.
\<close>

definition out_header :: "'x request \<Rightarrow> header" where
  "out_header r =
     (let h0 = rq_Header r;
          h1 = removeHopByHop h0;
          h2 = (if ContainsToken (header_values ''Te'' h0) ''trailers'' then header_Set ''Te'' ''trailers'' h1 else h1);
          h3 = (if upgradeType h0 \<noteq> []
                then header_Set ''Upgrade'' (upgradeType h0) (header_Set ''Connection'' ''Upgrade'' h2) else h2);
          h4 = forwarded_for r h3
      in if map_of h4 ''User-Agent'' = None then header_Set ''User-Agent'' [] h4 else h4)"

lemma test_http:
  "CanonicalHeaderKey ''x-debug-url'' = ''X-Debug-Url''" "CanonicalHeaderKey ''a b'' = ''a b''"
  "header_Get [(''Content-Type'', [''a'', ''b''])] ''content-type'' = ''a''"
  "map fst (removeHopByHop [(''Connection'', [''close, x-a'']), (''X-A'', [[]]), (''X-B'', [[]])]) = [''X-B'']"
  "ContainsToken [''keep-alive, upgrade''] ''Upgrade''"
  by code_simp+

end
