(* ===== verification/Proxy.thy ===== *)
theory Proxy
  imports Capture Http
begin

text \<open>
  \<open>internal/proxy/proxy.go\<close>: the handler that captures a request, relays it, and captures the
  response; with \<open>httputil.ReverseProxy\<close>, which calls back \<open>direct\<close>, \<open>modifyResponse\<close> and
  \<open>handleError\<close>. The network is the function \<open>transport\<close>, from the outgoing request to an
  error or the response's status and headers; what the body's reads return, and what the client
  accepts of it, is part of the run.
\<close>

definition DebugURLHeader :: bytes where "DebugURLHeader = ''X-Debug-Url''"
definition DebugURLCookie :: bytes where "DebugURLCookie = ''x_debug_url''"

record config =
  Target :: url
  PublicURL :: bytes
  SetDebugCookie :: bool

text \<open>The value of the context key; \<open>exchangeFrom\<close> is \<open>rq_ctx\<close>.\<close>

record exchange =
  ex_id :: bytes
  startAt :: gotime

definition joinPath :: "bytes \<Rightarrow> bytes \<Rightarrow> bytes" where
  "joinPath base pth =
     (if base = [] \<or> base = ''/'' then pth
      else if pth = [] \<or> pth = ''/'' then base
      else TrimSuffix base ''/'' @ ''/'' @ TrimPrefix pth ''/'')"

definition direct :: "config \<Rightarrow> exchange request \<Rightarrow> exchange request" where
  "direct cfg r =
     r\<lparr>rq_URL := (rq_URL r)\<lparr>Scheme := Scheme (Target cfg), Host := Host (Target cfg),
         Path := joinPath (Path (Target cfg)) (Path (rq_URL r))\<rparr>,
       rq_Host := Host (Target cfg)\<rparr>"

definition DetailURL :: "config \<Rightarrow> bytes \<Rightarrow> bytes" where
  "DetailURL cfg i = TrimSuffix (PublicURL cfg) ''/'' @ ''/r/'' @ i"

text \<open>
  The errors a relay can end with: the transport's own, and those of \<open>ReverseProxy\<close> about a
  protocol switch; \<open>text\<close> renders the latter.
\<close>

datatype relay_error =
    TransportError bytes
  | InvalidUpgrade bytes
  | SwitchFailed bytes bytes

type_synonym error_texts = "relay_error \<Rightarrow> bytes"

definition finalize_fn :: "int option \<Rightarrow> bytes option \<Rightarrow> entry \<Rightarrow> entry" where
  "finalize_fn streamMs relayErr e =
     (let e1 = e\<lparr>StreamMs := streamMs\<rparr>
      in case relayErr of None \<Rightarrow> e1 | Some msg \<Rightarrow> e1\<lparr>Status := StatusError, Error := msg\<rparr>)"

definition finalize ::
  "'db engine \<Rightarrow> os_env \<Rightarrow> gotime \<Rightarrow> exchange \<Rightarrow> int option \<Rightarrow> bytes option \<Rightarrow> 'db store \<Rightarrow> 'db store" where
  "finalize exec env now ex streamMs relayErr s =
     snd (Finalize exec env now (ex_id ex) (Some (finalize_fn streamMs relayErr)) s)"

text \<open>The upstream's response: what \<open>RoundTrip\<close> returned without the body.\<close>

record upstream =
  us_Status :: int
  us_Header :: header

text \<open>The fields of the entry that the response's head gives.\<close>

definition response_fn :: "int \<Rightarrow> header \<Rightarrow> format \<Rightarrow> int \<Rightarrow> entry \<Rightarrow> entry" where
  "response_fn status hdr fmt ttfb e =
     e\<lparr>StatusCode := status, ResponseHeaders := cloneHeader hdr, ResponseFormat := fmt,
       TTFBMs := Some ttfb\<rparr>"

text \<open>The headers the client gets, and the reader that replaces the body of a captured response.\<close>

definition modifyResponse ::
  "config \<Rightarrow> gotime \<Rightarrow> exchange request \<Rightarrow> int \<Rightarrow> header \<Rightarrow> 'db store
     \<Rightarrow> (header \<times> captureReader option) \<times> 'db store" where
  "modifyResponse cfg now r status hdr s =
     (case rq_ctx r of
        None \<Rightarrow> ((hdr, None), s)
      | Some ex \<Rightarrow>
        (let ttfb = Milliseconds (Sub now (startAt ex));
             fmt = detectFormat (header_Get hdr ''Content-Type'') [];
             s1 = snd (Update now (ex_id ex) (response_fn status hdr fmt ttfb) s);
             detail = DetailURL cfg (ex_id ex);
             h1 = header_Set DebugURLHeader detail hdr;
             h2 = (if SetDebugCookie cfg
                   then header_Add ''Set-Cookie'' (Cookie_String DebugURLCookie detail) h1 else h1)
         in ((h2, Some (newCaptureReader (ex_id ex) fmt)), s1)))"

definition handleError ::
  "config \<Rightarrow> 'db engine \<Rightarrow> os_env \<Rightarrow> gotime \<Rightarrow> exchange request \<Rightarrow> bytes \<Rightarrow> 'db store
     \<Rightarrow> answer \<times> 'db store" where
  "handleError cfg exec env now r msg s =
     (let s1 = (case rq_ctx r of None \<Rightarrow> s | Some ex \<Rightarrow> finalize exec env now ex None (Some msg) s)
      in (\<lparr>an_Status = 502, an_Header = [],
           an_Body = ''debugproxy: relay to '' @ URL_String (Target cfg) @ '' failed: '' @ msg @ [newline]\<rparr>, s1))"

section \<open>The relay\<close>

text \<open>
  The copy loop of \<open>ReverseProxy\<close>. Each turn has the circumstances of the read, what upstream
  returned, and how much the client accepted: \<open>None\<close> for all of it. The result is what the client
  got and whether the loop ended; a run that stops before is an exchange still in flight.
\<close>

type_synonym turn = "envs \<times> gotime \<times> (bytes \<times> bytes option) \<times> nat option"

fun copy_body ::
  "turn list \<Rightarrow> captureReader option \<Rightarrow> 'db store \<Rightarrow> (bytes \<times> bool) \<times> captureReader option \<times> 'db store" where
  "copy_body [] c s = (([], False), c, s)"
| "copy_body ((env, now, rd, accepted) # turns) c s =
     (let ((chunk, er), c1, s1) =
        (case c of None \<Rightarrow> (rd, None, s)
         | Some cr \<Rightarrow> (case Read env now rd cr s of (out, cr1, s1) \<Rightarrow> (out, Some cr1, s1)))
      in case (if chunk = [] then None else accepted) of
           Some n \<Rightarrow> ((take n chunk, True), c1, s1)
         | None \<Rightarrow>
           (if er \<noteq> None then ((chunk, True), c1, s1)
            else (case copy_body turns c1 s1 of ((out, ended), c2, s2) \<Rightarrow> ((chunk @ out, ended), c2, s2))))"

text \<open>Closing the body: the callback finalizes the entry.\<close>

definition close_body ::
  "'db engine \<Rightarrow> envs \<Rightarrow> gotime \<Rightarrow> exchange \<Rightarrow> captureReader \<Rightarrow> 'db store \<Rightarrow> captureReader \<times> 'db store" where
  "close_body exec env now ex c s =
     (case Close_reader env now c s of
        (None, c1, s1) \<Rightarrow> (c1, s1)
      | (Some streamMs, c1, s1) \<Rightarrow> (c1, finalize exec (env 1) now ex streamMs None s1))"

text \<open>The circumstances of a relay: when the response's head came, the reads, and the end.\<close>

record run =
  at_answer :: gotime
  turns :: "turn list"
  end_envs :: envs
  at_end :: gotime

datatype relayed =
    Wrote answer bool
  | Switched

definition outgoing :: "config \<Rightarrow> exchange request \<Rightarrow> exchange request" where
  "outgoing cfg r = (direct cfg r)\<lparr>rq_Header := out_header (direct cfg r)\<rparr>"

text \<open>
  \<open>ReverseProxy.ServeHTTP\<close> with the proxy's callbacks. A \<open>101\<close> answer needs a body that can be
  written to, which the capturing reader is not.
\<close>

definition rp_ServeHTTP ::
  "config \<Rightarrow> error_texts \<Rightarrow> 'db engine \<Rightarrow> (exchange request \<Rightarrow> bytes + upstream) \<Rightarrow> run
     \<Rightarrow> exchange request \<Rightarrow> 'db store \<Rightarrow> relayed \<times> 'db store" where
  "rp_ServeHTTP cfg txt exec transport w r s =
     (let fail = (\<lambda>rq msg s. case handleError cfg exec (end_envs w 1) (at_end w) rq msg s of
            (a, s1) \<Rightarrow> (Wrote a True, s1));
          upgrade = upgradeType (rq_Header r);
          out = outgoing cfg r
      in if \<not> ascii_print upgrade then fail r (txt (InvalidUpgrade upgrade)) s
         else case transport out of
           Inl msg \<Rightarrow> fail out msg s
         | Inr up \<Rightarrow>
           (if us_Status up = 101 then
              (case modifyResponse cfg (at_answer w) out (us_Status up) (us_Header up) s of
                 ((h, None), s1) \<Rightarrow> (Switched, s1)
               | ((h, Some c), s1) \<Rightarrow> fail out (txt (SwitchFailed upgrade (upgradeType (us_Header up)))) s1)
            else
              (case modifyResponse cfg (at_answer w) out (us_Status up) (removeHopByHop (us_Header up)) s of
                 ((h, c), s1) \<Rightarrow>
                   (case copy_body (turns w) c s1 of
                      ((body, ended), c1, s2) \<Rightarrow>
                        (Wrote \<lparr>an_Status = us_Status up, an_Header = h, an_Body = body\<rparr> ended,
                         case (ended, c1, rq_ctx out) of
                           (True, Some cr, Some ex) \<Rightarrow> snd (close_body exec (end_envs w) (at_end w) ex cr s2)
                         | _ \<Rightarrow> s2)))))"

text \<open>The entry a request starts with.\<close>

definition relay_entry :: "config \<Rightarrow> gotime \<Rightarrow> exchange request \<Rightarrow> bytes \<Rightarrow> entry" where
  "relay_entry cfg now r body =
     (let target = (Target cfg)\<lparr>Path := joinPath (Path (Target cfg)) (Path (rq_URL r)),
                                RawQuery := RawQuery (rq_URL r)\<rparr>
      in zero_entry\<lparr>Method := rq_Method r, URL := URL_String target, Status := StatusPending,
           RequestHeaders := cloneHeader (rq_Header r),
           RequestFormat := detectFormat (header_Get (rq_Header r) ''Content-Type'') body,
           IsOllama := isOllamaPath (Path (rq_URL r)), StartedAt := now\<rparr>)"

text \<open>
  The handler: \<open>read\<close> is what reading the request's body gave, \<open>None\<close> for an error; \<open>rnd\<close> the
  random bytes of the id; \<open>env\<close> the circumstances of storing the request's body.
\<close>

definition ServeHTTP ::
  "config \<Rightarrow> error_texts \<Rightarrow> 'db engine \<Rightarrow> (exchange request \<Rightarrow> bytes + upstream) \<Rightarrow> run
     \<Rightarrow> os_env \<Rightarrow> gotime \<Rightarrow> bytes option \<Rightarrow> bytes option \<Rightarrow> exchange request \<Rightarrow> 'db store
     \<Rightarrow> relayed \<times> 'db store" where
  "ServeHTTP cfg txt exec transport w env now rnd read r s =
     (case read of
        None \<Rightarrow> (Wrote (http_Error ''cannot read request body'' 400) True, s)
      | Some body \<Rightarrow>
        (let r1 = r\<lparr>rq_Body := body\<rparr>; e = relay_entry cfg now r body
         in case Put now rnd e s of
              (Inl er, s1) \<Rightarrow> rp_ServeHTTP cfg txt exec transport w r1 s1
            | (Inr i, s1) \<Rightarrow>
              (let s2 = snd (SetRequestBody env i body s1)
               in rp_ServeHTTP cfg txt exec transport w
                    (r1\<lparr>rq_ctx := Some \<lparr>ex_id = i, startAt = StartedAt e\<rparr>\<rparr>) s2)))"

section \<open>Paths\<close>

text \<open>
  One slash between the base and the path when neither side brings two of its own: each side
  loses at most one.
\<close>

lemma joinPath_one_slash:
  assumes "b \<noteq> []" "p \<noteq> []" "last b \<noteq> CHR ''/''" "hd p \<noteq> CHR ''/''" "base \<in> {b, b @ ''/''}" "pth \<in> {p, CHR ''/'' # p}"
  shows "joinPath base pth = b @ CHR ''/'' # p"
proof -
  obtain b' x where b: "b = b' @ [x]" "x \<noteq> CHR ''/''" using assms(1,3) by (cases b rule: rev_cases) auto
  obtain y p' where p: "p = y # p'" "y \<noteq> CHR ''/''" using assms(2,4) by (cases p) auto
  have "b @ ''/'' \<noteq> ''/''" "CHR ''/'' # p \<noteq> ''/''" "b \<noteq> ''/''" "p \<noteq> ''/''" using b p by auto
  moreover have "TrimSuffix base ''/'' = b"
    using assms(5) b by (auto simp: TrimSuffix_def HasSuffix_def suffix_def)
  moreover have "TrimPrefix pth ''/'' = p"
    using assms(6) p by (auto simp: TrimPrefix_def HasPrefix_def)
  ultimately show ?thesis using assms(1,2,5,6) by (auto simp: joinPath_def)
qed

lemma joinPath_extra_slashes: "joinPath ''/base/'' ''//a'' = ''/base//a''"
  by code_simp

section \<open>Headers\<close>

lemma map_of_header_Del: "map_of (header_Del k h) = (map_of h)(CanonicalHeaderKey k := None)"
  by (simp add: header_Del_def delete_conv')

lemma map_of_header_Set: "map_of (header_Set k v h) = (map_of h)(CanonicalHeaderKey k \<mapsto> [v])"
  by (simp add: header_Set_def update_conv')

lemma map_of_header_Add:
  "map_of (header_Add k v h) =
     (map_of h)(CanonicalHeaderKey k \<mapsto> header_values (CanonicalHeaderKey k) h @ [v])"
  by (simp add: header_Add_def update_conv')

lemma map_of_removed:
  "map_of (fold header_Del ks h) k = (if k \<in> CanonicalHeaderKey ` set ks then None else map_of h k)"
  by (induction ks arbitrary: h) (auto simp: map_of_header_Del)

lemma canonical_keys:
  "CanonicalHeaderKey DebugURLHeader = DebugURLHeader" "CanonicalHeaderKey ''Set-Cookie'' = ''Set-Cookie''"
  "CanonicalHeaderKey ''Te'' = ''Te''" "CanonicalHeaderKey ''Upgrade'' = ''Upgrade''"
  "CanonicalHeaderKey ''Connection'' = ''Connection''" "CanonicalHeaderKey ''User-Agent'' = ''User-Agent''"
  "CanonicalHeaderKey ''X-Forwarded-For'' = ''X-Forwarded-For''" "DebugURLHeader \<noteq> ''Set-Cookie''"
  "map CanonicalHeaderKey hopHeaders = hopHeaders"
  by code_simp+

text \<open>The headers that belong to one connection and are not passed on.\<close>

definition hop_header :: "header \<Rightarrow> bytes \<Rightarrow> bool" where
  "hop_header h k \<longleftrightarrow> k \<in> set hopHeaders \<or> k \<in> CanonicalHeaderKey ` set (connection_options h)"

lemma map_of_removeHopByHop: "map_of (removeHopByHop h) k = (if hop_header h k then None else map_of h k)"
proof -
  have "CanonicalHeaderKey ` set hopHeaders = set hopHeaders"
    using canonical_keys(9) by (metis set_map)
  then show ?thesis by (auto simp: removeHopByHop_def map_of_removed hop_header_def image_Un)
qed

lemma hop_headers: "hop_header h ''Te''" "hop_header h ''Upgrade''" "hop_header h ''Connection''"
  by (simp_all add: hop_header_def hopHeaders_def)

lemma forwarded_for_keeps: "k \<noteq> ''X-Forwarded-For'' \<Longrightarrow> map_of (forwarded_for r h) k = map_of h k"
  by (simp add: forwarded_for_def map_of_header_Set canonical_keys split: option.splits)

lemma out_header_keeps:
  assumes "\<not> hop_header (rq_Header r) k" "k \<noteq> ''X-Forwarded-For''"
    and "k = ''User-Agent'' \<longrightarrow> map_of (rq_Header r) k \<noteq> None"
  shows "map_of (out_header r) k = map_of (rq_Header r) k"
proof -
  have k: "k \<noteq> ''Te''" "k \<noteq> ''Upgrade''" "k \<noteq> ''Connection''" using assms(1) hop_headers by blast+
  let ?h1 = "removeHopByHop (rq_Header r)"
  let ?h2 = "if ContainsToken (header_values ''Te'' (rq_Header r)) ''trailers''
    then header_Set ''Te'' ''trailers'' ?h1 else ?h1"
  let ?h3 = "if upgradeType (rq_Header r) \<noteq> []
    then header_Set ''Upgrade'' (upgradeType (rq_Header r)) (header_Set ''Connection'' ''Upgrade'' ?h2) else ?h2"
  let ?h4 = "forwarded_for r ?h3"
  have "map_of ?h1 k = map_of (rq_Header r) k" using assms(1) by (simp add: map_of_removeHopByHop)
  then have "map_of ?h3 k = map_of (rq_Header r) k" using k by (simp add: map_of_header_Set canonical_keys)
  then have "map_of ?h4 k = map_of (rq_Header r) k"
    unfolding forwarded_for_keeps [OF assms(2)] .
  then show ?thesis
    using assms(3) by (auto simp: out_header_def Let_def map_of_header_Set canonical_keys)
qed

lemma outgoing_fields [simp]:
  "rq_ctx (outgoing cfg r) = rq_ctx r" "rq_Method (outgoing cfg r) = rq_Method r"
  "rq_Body (outgoing cfg r) = rq_Body r" "rq_Host (outgoing cfg r) = Host (Target cfg)"
  "RawQuery (rq_URL (outgoing cfg r)) = RawQuery (rq_URL r)"
  "rq_Header (outgoing cfg r) = out_header (direct cfg r)" "rq_Header (direct cfg r) = rq_Header r"
  by (simp_all add: outgoing_def direct_def)

section \<open>What the client gets\<close>

text \<open>What goes through to the client, whether or not it is captured.\<close>

fun delivered :: "turn list \<Rightarrow> bytes \<times> bool" where
  "delivered [] = ([], False)"
| "delivered ((env, now, (chunk, er), accepted) # ts) =
     (case (if chunk = [] then None else accepted) of
        Some n \<Rightarrow> (take n chunk, True)
      | None \<Rightarrow> if er \<noteq> None then (chunk, True)
          else (case delivered ts of (out, ended) \<Rightarrow> (chunk @ out, ended)))"

lemma Read_out: "fst (Read env now rd c s) = rd"
  by (auto simp: Read_def Let_def split: prod.splits)

lemma copy_body_delivered:
  fixes s :: "'db store"
  shows "fst (copy_body ts c s) = delivered ts"
proof (induction ts arbitrary: c s)
  case (Cons t ts)
  obtain env now chunk er acc where t: "t = (env, now, (chunk, er), acc)" by (metis prod_cases4 surj_pair)
  have copied: "\<exists>q. copy_body ts c1 s1 = (delivered ts, q)" for c1 and s1 :: "'db store"
    using Cons.IH [of c1 s1] by (metis prod.collapse)
  obtain out ended where d: "delivered ts = (out, ended)" by fastforce
  show ?case
  proof (cases c)
    case None
    obtain q where "copy_body ts None s = ((out, ended), q)" using copied [of None s] d by auto
    then show ?thesis by (cases q; cases er) (auto simp: t d None split: option.splits)
  next
    case (Some cr)
    obtain rd cr1 s1 where r: "Read env now (chunk, er) cr s = (rd, cr1, s1)" by (rule prod_cases3)
    then have "rd = (chunk, er)" using Read_out [of env now "(chunk, er)" cr s] by simp
    moreover obtain q where "copy_body ts (Some cr1) s1 = ((out, ended), q)" using copied d by metis
    ultimately show ?thesis using r by (cases q; cases er) (auto simp: t d Some split: option.splits)
  qed
qed simp

lemma modifyResponse_header:
  assumes "modifyResponse cfg now r status hdr s = ((h, c), s')"
  shows "k \<noteq> DebugURLHeader \<Longrightarrow> \<not> (SetDebugCookie cfg \<and> k = ''Set-Cookie'') \<Longrightarrow> map_of h k = map_of hdr k"
    "prefix (header_values ''Set-Cookie'' hdr) (header_values ''Set-Cookie'' h)"
    "rq_ctx r = Some ex \<Longrightarrow> map_of h DebugURLHeader = Some [DetailURL cfg (ex_id ex)]"
    "c \<noteq> None \<longleftrightarrow> rq_ctx r \<noteq> None"
  using assms canonical_keys
  by (auto simp: modifyResponse_def Let_def map_of_header_Set map_of_header_Add header_values_def
      split: option.splits if_splits)

section \<open>What is recorded\<close>

text \<open>The reads the copy loop makes.\<close>

fun made :: "turn list \<Rightarrow> (envs \<times> gotime \<times> (bytes \<times> bytes option)) list" where
  "made [] = []"
| "made ((env, now, (chunk, er), accepted) # ts) =
     (env, now, (chunk, er)) # (if chunk \<noteq> [] \<and> accepted \<noteq> None \<or> er \<noteq> None then [] else made ts)"

text \<open>The bytes of the response that were read from upstream.\<close>

definition received :: "turn list \<Rightarrow> bytes" where
  "received ts = concat (map (fst \<circ> snd \<circ> snd) (made ts))"

lemma copy_body_reads:
  fixes s :: "'db store"
  shows "copy_body ts (Some c) s =
    (delivered ts, Some (fst (snd (read_all (made ts) c s))), snd (snd (read_all (made ts) c s)))"
proof (induction ts arbitrary: c s)
  case (Cons t ts)
  obtain env now chunk er acc where t: "t = (env, now, (chunk, er), acc)" by (metis prod_cases4 surj_pair)
  obtain out cr1 s1 where r: "Read env now (chunk, er) c s = (out, cr1, s1)" by (rule prod_cases3)
  then have "out = (chunk, er)" using Read_out [of env now "(chunk, er)" c s] by simp
  with r Cons.IH [of cr1 s1] show ?case
    by (cases acc) (auto simp: t split: prod.splits)
qed simp

lemma keeps_id_proxy [simp]: "keeps_id (response_fn st h f t)" "keeps_id (finalize_fn ms er)"
  by (simp_all add: keeps_id_def response_fn_def finalize_fn_def Let_def split: option.splits)

text \<open>The entry as the response leaves it, given the format it was recognised as and the times.\<close>

definition answered_entry ::
  "config \<Rightarrow> gotime \<Rightarrow> exchange request \<Rightarrow> bytes \<Rightarrow> bytes \<Rightarrow> upstream \<Rightarrow> format \<Rightarrow> int \<Rightarrow> int option \<Rightarrow> gotime \<Rightarrow> entry" where
  "answered_entry cfg now r body i up fmt ttfb ms fin =
     (relay_entry cfg now r body)\<lparr>ID := i, StatusCode := us_Status up,
       ResponseHeaders := removeHopByHop (us_Header up), ResponseFormat := fmt, TTFBMs := Some ttfb,
       StreamMs := ms, Status := StatusDone, FinishedAt := Some fin,
       TotalMs := Some (Milliseconds (Sub fin now))\<rparr>"

lemma receive_holds:
  assumes "store_inv tbl s" "newID rnd = Inr i" "unused tbl i s" "writes_ok env" "now \<noteq> zero_time"
    and "Put now rnd (relay_entry cfg now r body) s = (p, s1)"
  shows "p = Inr i" "resp_holds tbl i (Some body) [] (snd (SetRequestBody env i body s1))"
    "entry_of i (snd (SetRequestBody env i body s1)) = Some ((relay_entry cfg now r body)\<lparr>ID := i\<rparr>)"
    "history_of (snd (SetRequestBody env i body s1)) = history_of s"
proof -
  have i: "put_id rnd (relay_entry cfg now r body) = Inr i"
    using assms(2) by (simp add: put_id_def relay_entry_def zero_entry_def Let_def)
  note P = Put_holds [OF assms(1) i assms(3,6)]
  show "p = Inr i" by (rule P(1))
  show "resp_holds tbl i (Some body) [] (snd (SetRequestBody env i body s1))"
    using SetRequestBody_holds(2) [OF P(2) assms(4) surjective_pairing] by simp
  have "with_defaults now i (relay_entry cfg now r body) = (relay_entry cfg now r body)\<lparr>ID := i\<rparr>"
    using assms(5) by (simp add: with_defaults_def relay_entry_def IsZero_def StatusPending_def Let_def)
  with P(3) show "entry_of i (snd (SetRequestBody env i body s1)) = Some ((relay_entry cfg now r body)\<lparr>ID := i\<rparr>)"
    by (simp add: entry_of_SetRequestBody)
  show "history_of (snd (SetRequestBody env i body s1)) = history_of s"
    using assms(6) history_of_calls(1) [of now rnd "relay_entry cfg now r body" s] by (simp add: history_of_calls)
qed

text \<open>A captured response, from its head to the close of its body.\<close>

lemma response_recorded:
  assumes "sql_engine exec tbl" "answers exec" "resp_holds tbl i (Some b) [] s" "entry_of i s = Some e"
    and "ex_id ex = i"
    and "\<forall>(env, now, rd) \<in> set rds. \<forall>n. writes_ok (env n)" "writes_ok (env' 0)"
    and s1: "s1 = snd (Update at i (response_fn st hdr f t) s)"
    and "read_all rds (newCaptureReader i f) s1 = (outs, c1, s2)"
    and "close_body exec env' fin ex c1 s2 = (c2, s3)"
  shows "\<exists>fmt ms. recorded tbl i
      (finalize_entry fin (Some (finalize_fn ms None))
        (response_fn st hdr fmt t e)) b
      (concat (map (fst \<circ> snd \<circ> snd) rds)) s3 \<and>
    (int (card (dom (tbl (db s)))) < maxEntries s \<longrightarrow> tbl (db s3) i \<noteq> None)"
proof -
  let ?c = "newCaptureReader i f"
  have c: "cr_id ?c = i" "pending ?c = []" "\<not> closeOnce ?c" "reader_ok ?c" "cr_format ?c = f"
    using reader_ok_new by (simp_all add: newCaptureReader_def)
  have h1: "resp_holds tbl i (Some b) [] s1"
    unfolding s1 by (rule Update_holds [OF assms(3) keeps_id_proxy(1) surjective_pairing])
  have e1: "entry_of i s1 = Some ((response_fn st hdr [] t e)\<lparr>ResponseFormat := cr_format ?c\<rparr>)"
    using assms(4) by (simp add: s1 c(5) entry_of_Update response_fn_def)
  note R = read_all_holds [OF _ assms(6) c(4) assms(9), unfolded c(1), OF h1]
  then obtain st2 where st2: "resp_holds tbl i (Some b) st2 s2"
    "st2 @ pending c1 = concat (map (fst \<circ> snd \<circ> snd) rds)" using c(2) by auto
  note E = read_all_entry [OF assms(9) c(1) e1]
  obtain oc c3 s4 where cl: "Close_reader env' fin c1 s2 = (oc, c3, s4)" by (rule prod_cases3)
  have C: "resp_holds tbl i (Some b) (st2 @ pending c1) s4" "oc \<noteq> None"
    using Close_reader_holds [OF _ assms(7) _ cl] st2(1) R c(3) by auto
  then obtain ms where ms: "oc = Some ms" by blast
  have e4: "entry_of i s4 = Some (response_fn st hdr (cr_format c1) t e)"
    using E Close_reader_entry [of i env' fin c1 s2] by (simp add: cl response_fn_def)
  have s3: "s3 = snd (Finalize exec (env' 1) fin i (Some (finalize_fn ms None)) s4)"
    using assms(5,10) by (auto simp: close_body_def cl ms finalize_def)
  have "history_of s4 = history_of s"
    using E Close_reader_history [of env' fin c1 s2] by (simp add: cl s1 history_of_calls)
  then have fr: "db s4 = db s" "maxEntries s4 = maxEntries s" by (simp_all add: history_of_def)
  note F = Finalize_recorded [OF assms(1,2) C(1) e4 keeps_id_proxy(2) surjective_pairing,
      where env = "env' 1" and now = fin, of ms None, folded s3, unfolded fr]
  with st2(2) show ?thesis by auto
qed

text \<open>The entry of an exchange that failed.\<close>

definition failed_entry ::
  "config \<Rightarrow> gotime \<Rightarrow> exchange request \<Rightarrow> bytes \<Rightarrow> bytes \<Rightarrow> bytes \<Rightarrow> gotime \<Rightarrow> entry" where
  "failed_entry cfg now r body i msg fin =
     (relay_entry cfg now r body)\<lparr>ID := i, Status := StatusError, Error := msg, StreamMs := None,
       FinishedAt := Some fin, TotalMs := Some (Milliseconds (Sub fin now))\<rparr>"

lemma final_entries:
  "finalize_entry fin (Some (finalize_fn ms None))
     (response_fn (us_Status up) (removeHopByHop (us_Header up)) fmt t ((relay_entry cfg now r body)\<lparr>ID := i\<rparr>)) =
   answered_entry cfg now r body i up fmt t ms fin"
  "finalize_entry fin (Some (finalize_fn None (Some msg))) ((relay_entry cfg now r body)\<lparr>ID := i\<rparr>) =
   failed_entry cfg now r body i msg fin"
  by (simp_all add: finalize_entry_def finalize_fn_def response_fn_def answered_entry_def failed_entry_def
      relay_entry_def zero_entry_def status_defs Let_def)

text \<open>The handler after a successful capture of the request.\<close>

lemma ServeHTTP_captured:
  assumes "store_inv tbl s" "newID rnd = Inr i" "unused tbl i s" "writes_ok env" "now \<noteq> zero_time"
    and "ServeHTTP cfg txt exec transport w env now rnd (Some body) r s = (out, s')"
  obtains s2 where "resp_holds tbl i (Some body) [] s2"
    "entry_of i s2 = Some ((relay_entry cfg now r body)\<lparr>ID := i\<rparr>)" "history_of s2 = history_of s"
    "rp_ServeHTTP cfg txt exec transport w
       (r\<lparr>rq_Body := body, rq_ctx := Some \<lparr>ex_id = i, startAt = now\<rparr>\<rparr>) s2 = (out, s')"
proof -
  obtain p s1 where p: "Put now rnd (relay_entry cfg now r body) s = (p, s1)" by fastforce
  note R = receive_holds [OF assms(1-5) p]
  have "StartedAt (relay_entry cfg now r body) = now" by (simp add: relay_entry_def Let_def)
  then show thesis
    using that [OF R(2-4)] assms(6) p R(1) by (simp add: ServeHTTP_def Let_def)
qed

lemma made_good:
  "\<forall>(env, now, rd, acc) \<in> set ts. \<forall>n. writes_ok (env n) \<Longrightarrow>
   \<forall>(env, now, rd) \<in> set (made ts). \<forall>n. writes_ok (env n)"
  by (induction ts rule: made.induct) auto

lemma recorded_bodies:
  assumes "sql_engine exec tbl" "answers exec" "recorded tbl i e b c s" "tbl (db s) i \<noteq> None" "open_ok env'"
  shows "fst (Body exec env' i SideRequest s) = Inr (b, int (length b)) \<and>
    fst (Body exec env' i SideResponse s) = Inr (c, int (length c))"
  using assms sql_engine.Body_answers [OF assms(1,2) _ _ _ assms(5)]
  by (simp add: recorded_def)

section \<open>The store under the relay\<close>

lemma finalize_store_inv:
  "sql_engine exec tbl \<Longrightarrow> store_inv tbl s \<Longrightarrow> store_inv tbl (finalize exec env now ex ms er s)"
  unfolding finalize_def
  by (rule sql_engine.store_inv_Finalize [OF _ _ _ surjective_pairing]) auto

lemma append_all_store_inv: "store_inv tbl s \<Longrightarrow> store_inv tbl (append_all i calls s)"
  by (induction calls arbitrary: s) (auto intro: store_inv_AppendResponse [OF _ surjective_pairing])

lemma consume_store_inv: "store_inv tbl s \<Longrightarrow> store_inv tbl (snd (consume env now chunk c s))"
  by (auto simp: consume_def drain_eq Let_def split: prod.splits if_splits
      intro!: append_all_store_inv store_inv_AppendResponse [OF _ surjective_pairing]
        store_inv_Update [OF _ keeps_id_format surjective_pairing])

lemma Read_store_inv: "store_inv tbl s \<Longrightarrow> store_inv tbl (snd (snd (Read env now rd c s)))"
  by (auto simp: Read_def Let_def consume_store_inv split: prod.splits)

lemma read_all_store_inv: "store_inv tbl s \<Longrightarrow> store_inv tbl (snd (snd (read_all rds c s)))"
proof (induction rds arbitrary: c s)
  case (Cons a rds)
  obtain env now rd where a: "a = (env, now, rd)" by (cases a)
  obtain out c1 s1 where r: "Read env now rd c s = (out, c1, s1)" by (rule prod_cases3)
  then have "store_inv tbl s1" using Read_store_inv [OF Cons.prems, of env now rd c] by simp
  from Cons.IH [OF this, of c1] show ?case by (auto simp: a r Let_def split: prod.splits)
qed simp

lemma close_body_store_inv:
  assumes "sql_engine exec tbl" "store_inv tbl s"
  shows "store_inv tbl (snd (close_body exec env now ex c s))"
proof -
  have "store_inv tbl (snd (snd (Close_reader env now c s)))"
    using assms(2) by (auto simp: Close_reader_def Let_def intro: store_inv_AppendResponse [OF _ surjective_pairing])
  then show ?thesis
    using finalize_store_inv [OF assms(1)]
    by (auto simp: close_body_def split: prod.splits option.splits)
qed

lemma modifyResponse_store_inv:
  "store_inv tbl s \<Longrightarrow> store_inv tbl (snd (modifyResponse cfg now r st h s))"
  by (auto simp: modifyResponse_def Let_def split: option.splits
      intro: store_inv_Update [OF _ keeps_id_proxy(1) surjective_pairing])

lemma handleError_store_inv:
  "sql_engine exec tbl \<Longrightarrow> store_inv tbl s \<Longrightarrow> store_inv tbl (snd (handleError cfg exec env now r msg s))"
  by (auto simp: handleError_def Let_def finalize_store_inv split: option.splits)

lemma copy_body_store_inv:
  assumes "store_inv tbl s" "copy_body ts c s = (q, c1, s1)"
  shows "store_inv tbl s1"
proof (cases c)
  case None
  have "snd (snd (copy_body ts None s)) = s"
    by (induction ts) (auto split: prod.splits option.splits if_splits)
  with assms None show ?thesis by simp
next
  case (Some cr)
  with assms read_all_store_inv [OF assms(1), of "made ts" cr] show ?thesis by (simp add: copy_body_reads)
qed

lemma rp_store_inv:
  assumes "sql_engine exec tbl" "store_inv tbl s"
    and "rp_ServeHTTP cfg txt exec transport w r s = (out, s')"
  shows "store_inv tbl s'"
proof -
  note E = handleError_store_inv [OF assms(1)]
  show ?thesis
  proof (cases "ascii_print (upgradeType (rq_Header r)) \<and> (\<exists>up. transport (outgoing cfg r) = Inr up)")
    case False
    with assms(3) obtain a rq msg where "handleError cfg exec (end_envs w 1) (at_end w) rq msg s = (a, s')"
      by (auto simp: rp_ServeHTTP_def Let_def split: if_splits sum.splits prod.splits)
    with E [OF assms(2)] show ?thesis by (metis snd_conv)
  next
    case True
    then obtain up where up: "transport (outgoing cfg r) = Inr up" "ascii_print (upgradeType (rq_Header r))" by blast
    show ?thesis
    proof (cases "us_Status up = 101")
      case True
      obtain h c s1 where m: "modifyResponse cfg (at_answer w) (outgoing cfg r) (us_Status up) (us_Header up) s
          = ((h, c), s1)" by (metis surj_pair)
      then have "store_inv tbl s1" using modifyResponse_store_inv [OF assms(2)] by (metis snd_conv)
      note I = this E [OF this]
      have "s' = s1 \<or> (\<exists>rq msg. s' = snd (handleError cfg exec (end_envs w 1) (at_end w) rq msg s1))"
        using assms(3) up True m
        by (cases c) (auto simp: rp_ServeHTTP_def Let_def prod_eq_iff split: prod.splits)
      with I show ?thesis by auto
    next
      case False
      obtain h c s1 where m: "modifyResponse cfg (at_answer w) (outgoing cfg r) (us_Status up)
          (removeHopByHop (us_Header up)) s = ((h, c), s1)" by (metis surj_pair)
      then have s1: "store_inv tbl s1" using modifyResponse_store_inv [OF assms(2)] by (metis snd_conv)
      obtain q c1 s2 where cp: "copy_body (turns w) c s1 = (q, c1, s2)" by (rule prod_cases3)
      have s2: "store_inv tbl s2" by (rule copy_body_store_inv [OF s1 cp])
      have "s' = s2 \<or> (\<exists>ex cr. s' = snd (close_body exec (end_envs w) (at_end w) ex cr s2))"
        using assms(3) up False m cp
        by (cases q) (auto simp: rp_ServeHTTP_def Let_def split: option.splits bool.splits)
      with s2 close_body_store_inv [OF assms(1) s2] show ?thesis by auto
    qed
  qed
qed

section \<open>Properties\<close>

text \<open>
  C1. An exchange is recorded as it happened. With a healthy disk and database, once upstream has
  answered and the client's side of the relay has ended, however the response was cut into reads
  and whether or not the client stayed to the end, the entry has left the memory and its row in
  the history, unless retention dropped it, reads back as the request that came in (method, URL
  at the target, headers, format, Ollama flag) and the response that came back (status, headers
  without those of the connection, the time to its first byte), finished and not an error; and the two
  bodies read back as exactly the bytes of the request and the bytes read from upstream.
\<close>

theorem exchange_is_recorded:
  assumes "sql_engine exec tbl" "answers exec" "store_inv tbl s" "newID rnd = Inr i" "unused tbl i s"
    and "writes_ok env" "now \<noteq> zero_time" "\<forall>(env, now, rd, acc) \<in> set (turns w). \<forall>n. writes_ok (env n)"
    and "writes_ok (end_envs w 0)" "open_ok env'"
    and "ascii_print (upgradeType (rq_Header r))"
    and "\<forall>x. transport (outgoing cfg (r\<lparr>rq_Body := body, rq_ctx := x\<rparr>)) = Inr up"
    and "us_Status up \<noteq> 101" "snd (delivered (turns w))"
    and "ServeHTTP cfg txt exec transport w env now rnd (Some body) r s = (out, s')"
  shows "mem_get i (mem s') = None \<and>
    (int (card (dom (tbl (db s)))) < maxEntries s \<longrightarrow> tbl (db s') i \<noteq> None) \<and>
    (\<forall>row. tbl (db s') i = Some row \<longrightarrow>
      (\<exists>d fmt ms. scanEntry row = Inr d \<and>
         head d = head (stored (answered_entry cfg now r body i up fmt
           (Milliseconds (Sub (at_answer w) now)) ms (at_end w)))) \<and>
      fst (Body exec env' i SideRequest s') = Inr (body, int (length body)) \<and>
      fst (Body exec env' i SideResponse s') = Inr (received (turns w), int (length (received (turns w)))))"
proof -
  let ?x = "\<lparr>ex_id = i, startAt = now\<rparr>"
  let ?r = "r\<lparr>rq_Body := body, rq_ctx := Some ?x\<rparr>"
  obtain s2 where s2: "resp_holds tbl i (Some body) [] s2"
    "entry_of i s2 = Some ((relay_entry cfg now r body)\<lparr>ID := i\<rparr>)" "history_of s2 = history_of s"
    "rp_ServeHTTP cfg txt exec transport w ?r s2 = (out, s')"
    by (rule ServeHTTP_captured [OF assms(3-7,15)])
  obtain h c s3 where m: "modifyResponse cfg (at_answer w) (outgoing cfg ?r) (us_Status up)
      (removeHopByHop (us_Header up)) s2 = ((h, Some c), s3)"
    by (simp add: modifyResponse_def outgoing_def direct_def Let_def)
  obtain outs c1 s4 where ra: "read_all (made (turns w)) c s3 = (outs, c1, s4)" by (rule prod_cases3)
  have "(out, s') = (Wrote \<lparr>an_Status = us_Status up, an_Header = h, an_Body = fst (delivered (turns w))\<rparr> True,
      snd (close_body exec (end_envs w) (at_end w) ?x c1 s4))"
    using s2(4) assms(11-14) m ra
    by (cases "delivered (turns w)")
      (simp add: rp_ServeHTTP_def copy_body_reads outgoing_def direct_def Let_def)
  then obtain c2 where cl: "close_body exec (end_envs w) (at_end w) ?x c1 s4 = (c2, s')"
    by (metis prod.collapse snd_conv)
  have fr: "db s2 = db s" "maxEntries s2 = maxEntries s" using s2(3) by (simp_all add: history_of_def)
  have "\<exists>f. c = newCaptureReader i f \<and> s3 = snd (Update (at_answer w) i (response_fn (us_Status up)
      (removeHopByHop (us_Header up)) f (Milliseconds (Sub (at_answer w) now))) s2)"
    using m by (auto simp: modifyResponse_def Let_def)
  then obtain f where c: "c = newCaptureReader i f" "s3 = snd (Update (at_answer w) i (response_fn (us_Status up)
      (removeHopByHop (us_Header up)) f (Milliseconds (Sub (at_answer w) now))) s2)" by blast
  have "ex_id ?x = i" by simp
  from response_recorded [OF assms(1,2) s2(1,2) this made_good [OF assms(8)] assms(9) c(2) ra [unfolded c(1)] cl]
  obtain fmt ms where R: "recorded tbl i (answered_entry cfg now r body i up fmt
      (Milliseconds (Sub (at_answer w) now)) ms (at_end w)) body (received (turns w)) s'"
    "int (card (dom (tbl (db s)))) < maxEntries s \<longrightarrow> tbl (db s') i \<noteq> None"
    by (auto simp: final_entries received_def fr)
  note B = recorded_bodies [OF assms(1,2) R(1) _ assms(10)]
  show ?thesis
  proof (intro conjI allI impI)
    fix row assume row: "tbl (db s') i = Some row"
    show "\<exists>d fmt ms. scanEntry row = Inr d \<and>
        head d = head (stored (answered_entry cfg now r body i up fmt
          (Milliseconds (Sub (at_answer w) now)) ms (at_end w)))"
      using R(1) row unfolding recorded_def by blast
    show "fst (Body exec env' i SideRequest s') = Inr (body, int (length body))"
      "fst (Body exec env' i SideResponse s') = Inr (received (turns w), int (length (received (turns w))))"
      using B row by simp_all
  qed (use R in \<open>simp_all add: recorded_def\<close>)
qed

text \<open>A proxy in front of a local target, and an upstream that answers a stream of two lines.\<close>

definition demo_cfg :: config where
  "demo_cfg = \<lparr>Target = zero_url\<lparr>Scheme := ''http'', Host := ''localhost:11434''\<rparr>,
     PublicURL = ''http://localhost:8081/'', SetDebugCookie = False\<rparr>"

definition demo_request :: "exchange request" where
  "demo_request = \<lparr>rq_Method = ''POST'', rq_URL = zero_url\<lparr>Path := ''/api/chat''\<rparr>, rq_Host = ''localhost:8080'',
     rq_Header = [(''Content-Type'', [''application/json''])], rq_Body = [], rq_client = Some ''127.0.0.1'', rq_ctx = None\<rparr>"

definition demo_upstream :: upstream where
  "demo_upstream = \<lparr>us_Status = 200,
     us_Header = [(''Content-Type'', [''application/x-ndjson'']), (''Connection'', [''close''])]\<rparr>"

definition demo_run :: run where
  "demo_run = \<lparr>at_answer = Time 3000000, turns = [(\<lambda>_. os_fine, Time 4000000, (''{}'', None), None),
       (\<lambda>_. os_fine, Time 5000000, (newline # ''[1'', None), None), (\<lambda>_. os_fine, Time 6000000, ([], Some ''EOF''), None)],
     end_envs = (\<lambda>_. os_fine), at_end = Time 7000000\<rparr>"

abbreviation demo_serve :: "(exchange request \<Rightarrow> bytes + upstream) \<Rightarrow> relayed \<times> row list store" where
  "demo_serve net \<equiv> ServeHTTP demo_cfg (\<lambda>_. ''switch'') table_exec net demo_run os_fine (Time 2000000)
     (Some ''ABCDEFGH'') (Some ''{}'') demo_request small_store"

lemma demo_start:
  "store_inv table_tbl small_store" "newID (Some ''ABCDEFGH'') = Inr ''4142434445464748''"
  "unused table_tbl ''4142434445464748'' small_store" "writes_ok os_fine" "Time 2000000 \<noteq> zero_time"
  "\<forall>(env, now, rd, acc) \<in> set (turns demo_run). \<forall>n. writes_ok (env n)" "writes_ok (end_envs demo_run 0)" "open_ok os_fine"
  "ascii_print (upgradeType (rq_Header demo_request))"
proof -
  show "store_inv table_tbl small_store" using table.store_inv_New [OF New_small fs_ok_empty] by (simp add: table_tbl_def)
  show "newID (Some ''ABCDEFGH'') = Inr ''4142434445464748''" by code_simp
  show "unused table_tbl ''4142434445464748'' small_store"
    by (simp add: unused_def small_store_def mem_get_def newMemStore_def table_tbl_def)
  show "writes_ok os_fine" by (rule writes_ok_fine)
  then show "\<forall>(env, now, rd, acc) \<in> set (turns demo_run). \<forall>n. writes_ok (env n)" "writes_ok (end_envs demo_run 0)"
    by (simp_all add: demo_run_def)
  show "ascii_print (upgradeType (rq_Header demo_request))" by code_simp
qed (simp_all add: zero_time_def os_fine_def)

lemma exchange_is_recorded_witness:
  "fst (Body table_exec os_fine ''4142434445464748'' SideRequest (snd (demo_serve (\<lambda>_. Inr demo_upstream)))) =
     Inr (''{}'', 2) \<and>
   fst (Body table_exec os_fine ''4142434445464748'' SideResponse (snd (demo_serve (\<lambda>_. Inr demo_upstream)))) =
     Inr (''{}'' @ newline # ''[1'', 5)"
proof -
  obtain out s' where d: "demo_serve (\<lambda>_. Inr demo_upstream) = (out, s')" by fastforce
  have e: "snd (delivered (turns demo_run))" "received (turns demo_run) = ''{}'' @ newline # ''[1''"
    "us_Status demo_upstream \<noteq> 101" by code_simp+
  have "int (card (dom (table_tbl (db small_store)))) < maxEntries small_store"
    by (simp add: small_store_def table_tbl_def)
  with exchange_is_recorded [OF table.sql_engine_axioms table_answers demo_start(1-8) demo_start(9) _ e(3) e(1) d]
  show ?thesis by (auto simp: d e(2))
qed

text \<open>
  C8. A relay that fails is recorded and reported. When the transport returns an error, the
  client gets a 502 that names the target and the error; with a healthy disk and database the
  entry leaves the memory and reads back as the request that came in, with status \<open>error\<close> and the
  error's text, no status code and no response, and its request body whole.
\<close>

theorem relay_failure_is_recorded:
  assumes "sql_engine exec tbl" "answers exec" "store_inv tbl s" "newID rnd = Inr i" "unused tbl i s"
    and "writes_ok env" "now \<noteq> zero_time" "open_ok env'" "ascii_print (upgradeType (rq_Header r))"
    and "\<forall>x. transport (outgoing cfg (r\<lparr>rq_Body := body, rq_ctx := x\<rparr>)) = Inl msg"
    and "ServeHTTP cfg txt exec transport w env now rnd (Some body) r s = (out, s')"
  shows "out = Wrote \<lparr>an_Status = 502, an_Header = [], an_Body = ''debugproxy: relay to '' @
      URL_String (Target cfg) @ '' failed: '' @ msg @ [newline]\<rparr> True \<and>
    mem_get i (mem s') = None \<and>
    (int (card (dom (tbl (db s)))) < maxEntries s \<longrightarrow> tbl (db s') i \<noteq> None) \<and>
    (\<forall>row. tbl (db s') i = Some row \<longrightarrow>
      (\<exists>d. scanEntry row = Inr d \<and> head d = head (stored (failed_entry cfg now r body i msg (at_end w)))) \<and>
      fst (Body exec env' i SideRequest s') = Inr (body, int (length body)) \<and>
      fst (Body exec env' i SideResponse s') = Inr ([], 0))"
proof -
  let ?x = "\<lparr>ex_id = i, startAt = now\<rparr>"
  let ?r = "r\<lparr>rq_Body := body, rq_ctx := Some ?x\<rparr>"
  obtain s2 where s2: "resp_holds tbl i (Some body) [] s2"
    "entry_of i s2 = Some ((relay_entry cfg now r body)\<lparr>ID := i\<rparr>)" "history_of s2 = history_of s"
    "rp_ServeHTTP cfg txt exec transport w ?r s2 = (out, s')"
    by (rule ServeHTTP_captured [OF assms(3-7,11)])
  have ctx: "rq_ctx (outgoing cfg ?r) = Some ?x" by (simp add: outgoing_def direct_def)
  have o: "out = Wrote \<lparr>an_Status = 502, an_Header = [], an_Body = ''debugproxy: relay to '' @
      URL_String (Target cfg) @ '' failed: '' @ msg @ [newline]\<rparr> True"
    and s': "s' = snd (Finalize exec (end_envs w 1) (at_end w) i (Some (finalize_fn None (Some msg))) s2)"
    using s2(4) assms(9,10) ctx by (simp_all add: rp_ServeHTTP_def handleError_def finalize_def Let_def)
  have fr: "db s2 = db s" "maxEntries s2 = maxEntries s" using s2(3) by (simp_all add: history_of_def)
  note R = Finalize_recorded [OF assms(1,2) s2(1,2) keeps_id_proxy(2) surjective_pairing,
      where env = "end_envs w 1" and now = "at_end w", of None "Some msg", folded s', unfolded final_entries fr]
  note B = recorded_bodies [OF assms(1,2) R(1) _ assms(8)]
  show ?thesis
  proof (intro conjI allI impI)
    fix row assume row: "tbl (db s') i = Some row"
    show "\<exists>d. scanEntry row = Inr d \<and> head d = head (stored (failed_entry cfg now r body i msg (at_end w)))"
      using R(1) row unfolding recorded_def by blast
    show "fst (Body exec env' i SideRequest s') = Inr (body, int (length body))"
      "fst (Body exec env' i SideResponse s') = Inr ([], 0)"
      using B row by simp_all
  qed (use R o in \<open>simp_all add: recorded_def\<close>)
qed

lemma relay_failure_is_recorded_witness:
  "fst (Body table_exec os_fine ''4142434445464748'' SideRequest (snd (demo_serve (\<lambda>_. Inl ''refused'')))) =
     Inr (''{}'', 2) \<and>
   fst (demo_serve (\<lambda>_. Inl ''refused'')) = Wrote \<lparr>an_Status = 502, an_Header = [],
     an_Body = ''debugproxy: relay to http://localhost:11434 failed: refused'' @ [newline]\<rparr> True"
proof -
  obtain out s' where d: "demo_serve (\<lambda>_. Inl ''refused'') = (out, s')" by fastforce
  have u: "URL_String (Target demo_cfg) = ''http://localhost:11434''" by code_simp
  have "int (card (dom (table_tbl (db small_store)))) < maxEntries small_store"
    by (simp add: small_store_def table_tbl_def)
  with relay_failure_is_recorded [OF table.sql_engine_axioms table_answers demo_start(1-5) demo_start(8,9) _ d]
  show ?thesis by (auto simp: d u)
qed

text \<open>
  C6. Capturing does not change the response. Whatever the store does, whether the request could
  be captured at all or any call of it fails, the client gets the status upstream sent, exactly
  the bytes upstream sent up to the end or to where the client stopped, and every header
  upstream sent that does not belong to the connection, with its values; only \<open>X-Debug-Url\<close> is the proxy's, and
  \<open>Set-Cookie\<close> may have one more value when the cookie is asked for.
\<close>

theorem relay_is_transparent:
  assumes "ascii_print (upgradeType (rq_Header r))"
    and "\<forall>x. transport (outgoing cfg (r\<lparr>rq_Body := body, rq_ctx := x\<rparr>)) = Inr up"
    and "us_Status up \<noteq> 101"
    and "ServeHTTP cfg txt exec transport w env now rnd (Some body) r s = (out, s')"
  shows "\<exists>h. out = Wrote \<lparr>an_Status = us_Status up, an_Header = h, an_Body = fst (delivered (turns w))\<rparr>
      (snd (delivered (turns w))) \<and>
    (\<forall>k. k \<noteq> DebugURLHeader \<longrightarrow> \<not> (SetDebugCookie cfg \<and> k = ''Set-Cookie'') \<longrightarrow>
      map_of h k = (if hop_header (us_Header up) k then None else map_of (us_Header up) k)) \<and>
    prefix (header_values ''Set-Cookie'' (removeHopByHop (us_Header up))) (header_values ''Set-Cookie'' h)"
proof -
  obtain s1 x where rp: "rp_ServeHTTP cfg txt exec transport w (r\<lparr>rq_Body := body, rq_ctx := x\<rparr>) s1 = (out, s')"
  proof (cases "fst (Put now rnd (relay_entry cfg now r body) s)")
    case (Inl er)
    with assms(4) that [of "rq_ctx r"] show thesis
      by (cases "Put now rnd (relay_entry cfg now r body) s") (simp add: ServeHTTP_def Let_def)
  next
    case (Inr i)
    with assms(4) that show thesis
      by (cases "Put now rnd (relay_entry cfg now r body) s") (simp add: ServeHTTP_def Let_def)
  qed
  let ?r = "outgoing cfg (r\<lparr>rq_Body := body, rq_ctx := x\<rparr>)"
  obtain h c s2 where m: "modifyResponse cfg (at_answer w) ?r (us_Status up) (removeHopByHop (us_Header up)) s1
      = ((h, c), s2)" by (metis surj_pair)
  obtain q where cp: "copy_body (turns w) c s2 = (delivered (turns w), q)"
    using copy_body_delivered [of "turns w" c s2] by (metis prod.collapse)
  have "out = Wrote \<lparr>an_Status = us_Status up, an_Header = h, an_Body = fst (delivered (turns w))\<rparr>
      (snd (delivered (turns w)))"
    using rp assms(1-3) m cp by (cases q; cases "delivered (turns w)") (simp add: rp_ServeHTTP_def Let_def)
  then show ?thesis
    using modifyResponse_header(1,2) [OF m] by (auto simp: map_of_removeHopByHop)
qed

lemma relay_is_transparent_witness:
  "\<exists>h. fst (demo_serve (\<lambda>_. Inr demo_upstream)) =
     Wrote \<lparr>an_Status = 200, an_Header = h, an_Body = ''{}'' @ newline # ''[1''\<rparr> True \<and>
     map_of h ''Content-Type'' = Some [''application/x-ndjson''] \<and> map_of h ''Connection'' = None"
proof -
  obtain out s' where d: "demo_serve (\<lambda>_. Inr demo_upstream) = (out, s')" by fastforce
  have e: "us_Status demo_upstream \<noteq> 101" "us_Status demo_upstream = 200"
    "delivered (turns demo_run) = (''{}'' @ newline # ''[1'', True)"
    "map_of (us_Header demo_upstream) ''Content-Type'' = Some [''application/x-ndjson'']"
    "''Content-Type'' \<noteq> DebugURLHeader" "''Connection'' \<noteq> DebugURLHeader" "\<not> SetDebugCookie demo_cfg"
    by code_simp+
  have h: "\<not> hop_header (us_Header demo_upstream) ''Content-Type''" "hop_header (us_Header demo_upstream) ''Connection''"
    unfolding hop_header_def by code_simp+
  from relay_is_transparent [OF demo_start(9) _ e(1) d] show ?thesis
    by (auto simp: d e h)
qed









end
