(* ===== verification/Replay.thy ===== *)
theory Replay
  imports Proxy
begin

text \<open>
  \<open>internal/proxy/replay.go\<close>: sending a request composed in the user interface, and capturing it
  like any other exchange. \<open>Replay\<close> answers as soon as the entry exists; the exchange itself is
  the goroutine \<open>send\<close>, a job of its own here. The HTTP client is the function \<open>client\<close>.
\<close>

record replayRequest =
  rr_Method :: bytes
  rr_URL :: bytes
  rr_Headers :: header
  rr_Body :: bytes

definition strippedHeaders :: "bytes list" where
  "strippedHeaders = [''content-length'', ''connection'', ''keep-alive'', ''transfer-encoding'',
     ''upgrade'', ''host'']"

definition add_values :: "bytes \<Rightarrow> bytes list \<Rightarrow> header \<Rightarrow> header" where
  "add_values name vs h = fold (header_Add name) vs h"

text \<open>The loop over the composed headers, in the order the map's range visits them.\<close>

fun replay_header :: "header \<Rightarrow> header \<Rightarrow> header" where
  "replay_header [] h = h"
| "replay_header ((name, vs) # hs) h =
     (if ToLower name \<in> set strippedHeaders then replay_header hs h
      else replay_header hs (add_values name vs h))"

datatype replay_error =
    InvalidURL
  | NotAbsolute
  | UnsupportedScheme bytes
  | StoreFailed go_error

record job =
  jb_exchange :: exchange
  jb_method :: bytes
  jb_target :: url
  jb_header :: header
  jb_body :: bytes

definition replay_method :: "replayRequest \<Rightarrow> bytes" where
  "replay_method q =
     (let m = ToUpper (TrimSpace (rr_Method q)) in if m = [] then ''GET'' else m)"

definition replay_entry :: "gotime \<Rightarrow> bytes \<Rightarrow> url \<Rightarrow> header \<Rightarrow> bytes \<Rightarrow> entry" where
  "replay_entry now method tgt header body =
     zero_entry\<lparr>Method := method, URL := URL_String tgt, Status := StatusPending,
       RequestHeaders := cloneHeader header,
       RequestFormat := detectFormat (header_Get header ''Content-Type'') body,
       IsOllama := isOllamaPath (Path tgt), IsReplay := True, StartedAt := now\<rparr>"

definition Replay ::
  "gotime \<Rightarrow> bytes option \<Rightarrow> os_env \<Rightarrow> replayRequest \<Rightarrow> 'db store
     \<Rightarrow> (replay_error + bytes) \<times> job option \<times> 'db store" where
  "Replay now rnd env q s =
     (let method = replay_method q in
      case url_Parse (TrimSpace (rr_URL q)) of
        None \<Rightarrow> (Inl InvalidURL, None, s)
      | Some tgt \<Rightarrow>
        (if \<not> IsAbs tgt \<or> Host tgt = [] then (Inl NotAbsolute, None, s)
         else if Scheme tgt \<noteq> ''http'' \<and> Scheme tgt \<noteq> ''https''
         then (Inl (UnsupportedScheme (Scheme tgt)), None, s)
         else
           (let body = rr_Body q;
                header = replay_header (rr_Headers q) [];
                e = replay_entry now method tgt header body
            in case Put now rnd e s of
                 (Inl er, s1) \<Rightarrow> (Inl (StoreFailed er), None, s1)
               | (Inr i, s1) \<Rightarrow>
                 (Inr i,
                  Some \<lparr>jb_exchange = \<lparr>ex_id = i, startAt = StartedAt e\<rparr>, jb_method = method,
                    jb_target = tgt, jb_header = header, jb_body = body\<rparr>,
                  snd (SetRequestBody env i body s1)))))"

section \<open>Sending\<close>

text \<open>\<open>http.NewRequestWithContext\<close>, whose errors \<open>txt\<close> renders.\<close>

datatype request_error =
    BadMethod bytes
  | BadURL bytes

definition validMethod :: "bytes \<Rightarrow> bool" where
  "validMethod m \<longleftrightarrow> m \<noteq> [] \<and> list_all token_char m"

definition removeEmptyPort :: "bytes \<Rightarrow> bytes" where
  "removeEmptyPort h =
     (case LastIndexByte h CHR '':'' of
        None \<Rightarrow> h
      | Some i \<Rightarrow>
        (case LastIndexByte h CHR '']'' of
           Some j \<Rightarrow> if j < i then TrimSuffix h '':'' else h
         | None \<Rightarrow> TrimSuffix h '':''))"

definition NewRequest :: "bytes \<Rightarrow> bytes \<Rightarrow> bytes \<Rightarrow> request_error + unit request" where
  "NewRequest method u body =
     (let m = (if method = [] then ''GET'' else method) in
      if \<not> validMethod m then Inl (BadMethod m)
      else case url_Parse u of
        None \<Rightarrow> Inl (BadURL u)
      | Some v \<Rightarrow>
          Inr \<lparr>rq_Method = m, rq_URL = v\<lparr>Host := removeEmptyPort (Host v)\<rparr>,
            rq_Host = removeEmptyPort (Host v), rq_Header = [], rq_Body = body, rq_client = None, rq_ctx = None\<rparr>)"

text \<open>\<open>io.Copy\<close> to \<open>io.Discard\<close> reads up to the first error, \<open>io.EOF\<close> included.\<close>

type_synonym reads = "(envs \<times> gotime \<times> (bytes \<times> bytes option)) list"

fun until_error :: "reads \<Rightarrow> reads \<times> bool" where
  "until_error [] = ([], False)"
| "until_error ((env, now, (chunk, er)) # rds) =
     (if er \<noteq> None then ([(env, now, (chunk, er))], True)
      else (case until_error rds of (l, ended) \<Rightarrow> ((env, now, (chunk, er)) # l, ended)))"

record replay_run =
  rp_answer :: gotime
  rp_reads :: reads
  rp_envs :: envs
  rp_end :: gotime

definition send ::
  "(request_error \<Rightarrow> bytes) \<Rightarrow> 'db engine \<Rightarrow> (unit request \<Rightarrow> bytes + upstream) \<Rightarrow> replay_run \<Rightarrow> job
     \<Rightarrow> 'db store \<Rightarrow> 'db store" where
  "send txt exec client w j s =
     (let ex = jb_exchange j;
          fail = (\<lambda>msg. finalize exec (rp_envs w 1) (rp_end w) ex None (Some msg) s)
      in case NewRequest (jb_method j) (URL_String (jb_target j)) (jb_body j) of
           Inl er \<Rightarrow> fail (txt er)
         | Inr rq \<Rightarrow>
           (case client (rq\<lparr>rq_Header := jb_header j\<rparr>) of
              Inl msg \<Rightarrow> fail msg
            | Inr up \<Rightarrow>
              (let ttfb = Milliseconds (Sub (rp_answer w) (startAt ex));
                   fmt = detectFormat (header_Get (us_Header up) ''Content-Type'') [];
                   s1 = snd (Update (rp_answer w) (ex_id ex) (response_fn (us_Status up) (us_Header up) fmt ttfb) s);
                   (rds, ended) = until_error (rp_reads w);
                   (outs, c, s2) = read_all rds (newCaptureReader (ex_id ex) fmt) s1
               in if ended then snd (close_body exec (rp_envs w) (rp_end w) ex c s2) else s2)))"

section \<open>The headers of a replay\<close>

lemma fold_header_Add:
  "map_of (fold (header_Add name) vs h) = (if vs = [] then map_of h
     else (map_of h)(CanonicalHeaderKey name \<mapsto> header_values (CanonicalHeaderKey name) h @ vs))"
  by (induction vs arbitrary: h) (auto simp: map_of_header_Add header_values_def)

text \<open>The values composed for one canonical name, in order.\<close>

fun composed :: "header \<Rightarrow> bytes \<Rightarrow> bytes list" where
  "composed [] k = []"
| "composed ((name, vs) # hs) k =
     (if ToLower name \<notin> set strippedHeaders \<and> CanonicalHeaderKey name = k then vs else []) @ composed hs k"

lemma replay_header_values: "header_values k (replay_header hs h) = header_values k h @ composed hs k"
proof (induction hs arbitrary: h)
  case (Cons a hs)
  obtain name vs where a: "a = (name, vs)" by (cases a)
  have "header_values k (add_values name vs h) =
      header_values k h @ (if CanonicalHeaderKey name = k then vs else [])"
    by (simp add: add_values_def header_values_def fold_header_Add)
  with Cons.IH show ?case by (simp add: a)
qed simp

text \<open>A canonical name differs from the name in the case of ASCII letters at most.\<close>

lemma lower_upper_byte: "lower_byte (upper_byte c) = lower_byte c"
  by (auto simp: lower_byte_def upper_byte_def Let_def)

lemma token_ascii: "token_char c \<Longrightarrow> byte c < 128"
  by (auto simp: token_char_def alnum_def between_def byte_def)

lemma canonical_case_lower: "map lower_byte (canonical_case up s) = map lower_byte s"
  by (induction s arbitrary: up) (auto simp: lower_upper_byte lower_byte_idem)

lemma upper_byte_ascii: "byte c < 128 \<Longrightarrow> byte (upper_byte c) < 128" "byte c < 128 \<Longrightarrow> byte (lower_byte c) < 128"
  by (auto simp: byte_def upper_byte_def lower_byte_def Let_def)

lemma canonical_case_ascii: "\<forall>c \<in> set s. byte c < 128 \<Longrightarrow> \<forall>c \<in> set (canonical_case up s). byte c < 128"
  by (induction s arbitrary: up) (auto simp: upper_byte_ascii)

lemma ToLower_canonical: "ToLower (CanonicalHeaderKey k) = ToLower k"
proof (cases "list_all token_char k")
  case True
  then have a: "\<forall>c \<in> set k. byte c < 128" by (auto simp: list_all_iff token_ascii)
  then have "ToLower k = map lower_byte k" "ToLower (canonical_case True k) = map lower_byte (canonical_case True k)"
    using canonical_case_ascii [OF a, of True] by (auto intro!: ToLower_ascii simp: byte_def)
  with True show ?thesis by (simp add: CanonicalHeaderKey_def canonical_case_lower)
qed (simp add: CanonicalHeaderKey_def)

lemma composed_stripped: "ToLower k \<in> set strippedHeaders \<Longrightarrow> composed hs k = []"
  by (induction hs k rule: composed.induct) (auto simp: ToLower_canonical)

section \<open>The end of an exchange\<close>

text \<open>Finalizing takes an entry out of the memory whatever the disk does.\<close>

lemma Finalize_gone:
  assumes "sql_engine exec tbl" "answers exec"
  shows "mem_get i (mem (snd (Finalize exec env now i fn s))) = None"
proof -
  obtain r s' where f: "Finalize exec env now i fn s = (r, s')" by fastforce
  then show ?thesis
  proof (cases rule: Finalize_cases)
    case (insert_failed l er d1)
    with sql_engine.Finalize_answers [OF assms insert_failed(1) f] show ?thesis by simp
  qed (simp_all add: f)
qed

lemma finalize_gone:
  "sql_engine exec tbl \<Longrightarrow> answers exec \<Longrightarrow> mem_get (ex_id ex) (mem (finalize exec env now ex ms er s)) = None"
  by (simp add: finalize_def Finalize_gone)

lemma close_body_gone:
  assumes "sql_engine exec tbl" "answers exec" "\<not> closeOnce c"
  shows "mem_get (ex_id ex) (mem (snd (close_body exec env now ex c s))) = None"
proof -
  obtain oc c1 s1 where cl: "Close_reader env now c s = (oc, c1, s1)" by (rule prod_cases3)
  then have "oc \<noteq> None" using assms(3) by (auto simp: Close_reader_def Let_def)
  then show ?thesis using finalize_gone [OF assms(1,2)] by (auto simp: close_body_def cl)
qed

lemma consume_open: "closeOnce (fst (consume env now chunk c s)) = closeOnce c"
  by (auto simp: consume_def drain_eq Let_def split: prod.splits if_splits)

lemma Read_open: "closeOnce (fst (snd (Read env now rd c s))) = closeOnce c"
  by (auto simp: Read_def Let_def consume_open split: prod.splits)

lemma read_all_open: "read_all rds c s = (outs, c', s') \<Longrightarrow> closeOnce c' = closeOnce c"
proof (induction rds arbitrary: c s outs)
  case (Cons a rds)
  obtain env now rd where a: "a = (env, now, rd)" by (cases a)
  obtain out c1 s1 where r: "Read env now rd c s = (out, c1, s1)" by (rule prod_cases3)
  obtain outs1 where "read_all rds c1 s1 = (outs1, c', s')"
    using Cons.prems r by (auto simp: a Let_def split: prod.splits)
  from Cons.IH [OF this] Read_open [of env now rd c s] r show ?case by simp
qed simp

lemma newCaptureReader_open: "\<not> closeOnce (newCaptureReader i f)"
  by (simp add: newCaptureReader_def)

lemma handleError_gone:
  assumes "sql_engine exec tbl" "answers exec" "rq_ctx r = Some ex" "handleError cfg exec env now r msg s = (a, s')"
  shows "mem_get (ex_id ex) (mem s') = None"
  using assms(3,4) finalize_gone [OF assms(1,2)] by (auto simp: handleError_def Let_def)

lemma rp_ends:
  assumes "sql_engine exec tbl" "answers exec" "rq_ctx r = Some ex"
    and "rp_ServeHTTP cfg txt exec transport w r s = (Wrote a True, s')"
  shows "mem_get (ex_id ex) (mem s') = None"
proof (cases "ascii_print (upgradeType (rq_Header r)) \<and> (\<exists>up. transport (outgoing cfg r) = Inr up)")
  case False
  show ?thesis
  proof (cases "ascii_print (upgradeType (rq_Header r))")
    case True
    with False obtain msg where "transport (outgoing cfg r) = Inl msg" by (cases "transport (outgoing cfg r)") auto
    with True assms(4) have "handleError cfg exec (end_envs w 1) (at_end w) (outgoing cfg r) msg s = (a, s')"
      by (simp add: rp_ServeHTTP_def Let_def split: prod.splits)
    from handleError_gone [OF assms(1,2) _ this] assms(3) show ?thesis by simp
  next
    case False
    with assms(4) have "handleError cfg exec (end_envs w 1) (at_end w) r
        (txt (InvalidUpgrade (upgradeType (rq_Header r)))) s = (a, s')"
      by (simp add: rp_ServeHTTP_def Let_def split: prod.splits)
    from handleError_gone [OF assms(1-3) this] show ?thesis .
  qed
next
  case True
  then obtain up where up: "transport (outgoing cfg r) = Inr up" "ascii_print (upgradeType (rq_Header r))" by blast
  have ctx: "rq_ctx (outgoing cfg r) = Some ex" using assms(3) by simp
  show ?thesis
  proof (cases "us_Status up = 101")
    case True
    then obtain a' msg s1 where "handleError cfg exec (end_envs w 1) (at_end w) (outgoing cfg r) msg s1 = (a', s')"
      using assms(3,4) up by (auto simp: rp_ServeHTTP_def modifyResponse_def Let_def split: prod.splits)
    from handleError_gone [OF assms(1,2) ctx this] show ?thesis .
  next
    case False
    let ?h = "removeHopByHop (us_Header up)"
    let ?f = "detectFormat (header_Get ?h ''Content-Type'') []"
    obtain h s1 where m: "modifyResponse cfg (at_answer w) (outgoing cfg r) (us_Status up) ?h s =
        ((h, Some (newCaptureReader (ex_id ex) ?f)), s1)"
      using ctx by (simp add: modifyResponse_def Let_def)
    obtain outs c1 s2 where ra: "read_all (made (turns w)) (newCaptureReader (ex_id ex) ?f) s1 = (outs, c1, s2)"
      by (rule prod_cases3)
    obtain b e where d: "delivered (turns w) = (b, e)" by fastforce
    have "(Wrote a True, s') = (Wrote \<lparr>an_Status = us_Status up, an_Header = h, an_Body = b\<rparr> e,
        if e then snd (close_body exec (end_envs w) (at_end w) ex c1 s2) else s2)"
      unfolding assms(4) [symmetric] using assms(3) up False m ra d
      by (cases e) (simp_all add: rp_ServeHTTP_def copy_body_reads Let_def)
    then have "s' = snd (close_body exec (end_envs w) (at_end w) ex c1 s2)" by (auto split: if_splits)
    with close_body_gone [OF assms(1,2)] read_all_open [OF ra] newCaptureReader_open show ?thesis by metis
  qed
qed

section \<open>Properties\<close>


abbreviation demo_replay :: replayRequest where
  "demo_replay \<equiv> \<lparr>rr_Method = '' post'', rr_URL = ''http://h/a'', rr_Headers = [(''HOST'', [''x'']), (''x-a'', [''1'', ''2''])],
     rr_Body = ''{}''\<rparr>"


text \<open>
  A replay sends the composed headers, and none of the previous transfer's. Under every name
  a replay sends exactly the values composed for it, in order, names that differ in letter case
  joined as one header does; but it sends nothing under a name that describes the transfer, in
  whatever letter case it was written.
\<close>

lemma replay_headers_are_composed:
  "header_values k (replay_header hs []) = composed hs k \<and>
   (ToLower k \<in> set strippedHeaders \<longrightarrow> header_values k (replay_header hs []) = [])"
proof -
  have "header_values k [] = []" by (simp add: header_values_def)
  with composed_stripped [of k hs] show ?thesis by (simp add: replay_header_values)
qed

lemma replay_headers_are_composed_example:
  "header_values ''HoST'' (replay_header [(''HOST'', [''x'']), (''x-a'', [''1''])] []) = []"
proof -
  have "ToLower ''HoST'' \<in> set strippedHeaders" by code_simp
  with replay_headers_are_composed [of "''HoST''" "[(''HOST'', [''x'']), (''x-a'', [''1''])]"] show ?thesis by blast
qed

text \<open>
  C29. No exchange stays pending once it has ended. When the database answers, whatever the disk,
  the network and the client do: a captured request whose relay has ended, by an error, a
  refused switch, the end of the response or the client's leaving, has left the memory, and so
  has a replay that could not be sent, got no answer, or whose response was read to its end or to
  an error.
\<close>

theorem exchanges_end:
  assumes "sql_engine exec tbl" "answers exec"
  shows "(newID rnd = Inr i \<longrightarrow>
      ServeHTTP cfg txt exec transport w env now rnd (Some body) r s = (Wrote a True, s') \<longrightarrow>
      mem_get i (mem s') = None) \<and>
    (snd (until_error (rp_reads v)) \<or> \<not> is_ok (NewRequest (jb_method j) (URL_String (jb_target j)) (jb_body j)) \<or>
      (\<forall>rq. \<not> is_ok (client rq)) \<longrightarrow>
      mem_get (ex_id (jb_exchange j)) (mem (send etxt exec client v j s)) = None)"
proof (intro conjI impI)
  assume i: "newID rnd = Inr i" and
    e: "ServeHTTP cfg txt exec transport w env now rnd (Some body) r s = (Wrote a True, s')"
  let ?e = "relay_entry cfg now r body"
  have "put_id rnd ?e = Inr i" using i by (simp add: put_id_def relay_entry_def zero_entry_def Let_def)
  then obtain s1 where "Put now rnd ?e s = (Inr i, s1)" by (simp add: Put_eq)
  with e obtain s2 where "rp_ServeHTTP cfg txt exec transport w
      (r\<lparr>rq_Body := body, rq_ctx := Some \<lparr>ex_id = i, startAt = StartedAt ?e\<rparr>\<rparr>) s2 = (Wrote a True, s')"
    by (simp add: ServeHTTP_def Let_def)
  from rp_ends [OF assms _ this] show "mem_get i (mem s') = None" by simp
next
  assume ends: "snd (until_error (rp_reads v)) \<or> \<not> is_ok (NewRequest (jb_method j) (URL_String (jb_target j)) (jb_body j)) \<or>
      (\<forall>rq. \<not> is_ok (client rq))"
  show "mem_get (ex_id (jb_exchange j)) (mem (send etxt exec client v j s)) = None"
  proof (cases "NewRequest (jb_method j) (URL_String (jb_target j)) (jb_body j)")
    case (Inl er)
    then show ?thesis using finalize_gone [OF assms] by (simp add: send_def)
  next
    case (Inr rq)
    show ?thesis
    proof (cases "client (rq\<lparr>rq_Header := jb_header j\<rparr>)")
      case (Inl msg)
      with Inr show ?thesis using finalize_gone [OF assms] by (simp add: send_def)
    next
      case c: (Inr up)
      then have "is_ok (client (rq\<lparr>rq_Header := jb_header j\<rparr>))" by simp
      with ends Inr obtain rds where rds: "until_error (rp_reads v) = (rds, True)"
        by (cases "until_error (rp_reads v)") auto
      let ?ex = "jb_exchange j"
      let ?f = "detectFormat (header_Get (us_Header up) ''Content-Type'') []"
      let ?s = "snd (Update (rp_answer v) (ex_id ?ex) (response_fn (us_Status up) (us_Header up) ?f
        (Milliseconds (Sub (rp_answer v) (startAt ?ex)))) s)"
      obtain outs c1 s2 where ra: "read_all rds (newCaptureReader (ex_id ?ex) ?f) ?s = (outs, c1, s2)"
        by (rule prod_cases3)
      have "send etxt exec client v j s = snd (close_body exec (rp_envs v) (rp_end v) ?ex c1 s2)"
        by (simp add: send_def Inr c rds ra Let_def)
      with close_body_gone [OF assms] read_all_open [OF ra] newCaptureReader_open show ?thesis by metis
    qed
  qed
qed

lemma exchanges_end_witness:
  "mem_get ''4142434445464748'' (mem (snd (demo_serve (\<lambda>_. Inl ''refused'')))) = None"
proof -
  obtain out s' where d: "demo_serve (\<lambda>_. Inl ''refused'') = (out, s')" by fastforce
  moreover have "\<exists>a. out = Wrote a True"
    using d by (auto simp: ServeHTTP_def rp_ServeHTTP_def Let_def split: prod.splits sum.splits if_splits)
  ultimately obtain a where "demo_serve (\<lambda>_. Inl ''refused'') = (Wrote a True, s')" by auto
  with exchanges_end [OF table.sql_engine_axioms table_answers] demo_start(2) show ?thesis by (metis snd_conv)
qed

end
