(* ===== verification/Web.thy ===== *)
theory Web
  imports Numbers Replay
begin

text \<open>
  \<open>internal/web/server.go\<close>: the REST handlers, their payloads, and the event stream. A handler
  takes what the router and the client give it and returns what it writes; the payloads are
  values of type \<^typ>\<open>json\<close>, written by \<open>enc_json\<close>.
\<close>

definition defaultLimit :: int where "defaultLimit = 100"
definition maxLimit :: int where "maxLimit = 500"

section \<open>Payloads\<close>

text \<open>A member with \<open>omitempty\<close>, and a pointer that may be nil.\<close>

definition omit :: "bool \<Rightarrow> bytes \<Rightarrow> json \<Rightarrow> (bytes \<times> json) list" where
  "omit absent k v = (if absent then [] else [(k, v)])"

definition num :: "int \<Rightarrow> json" where
  "num i = JNum (show_int i)"

definition opt_num :: "int option \<Rightarrow> json" where
  "opt_num v = (case v of None \<Rightarrow> JNull | Some i \<Rightarrow> num i)"

definition str_map :: "(bytes \<times> bytes) list \<Rightarrow> json" where
  "str_map m = JObj (map (\<lambda>(k, v). (k, JStr v)) (sort_key fst m))"

record listRow =
  lr_ID :: bytes
  lr_Method :: bytes
  lr_URL :: bytes
  lr_Status :: status
  lr_StatusCode :: int
  lr_Error :: bytes
  lr_RequestFormat :: format
  lr_ResponseFormat :: format
  lr_IsOllama :: bool
  lr_IsReplay :: bool
  lr_StartedAt :: int
  lr_TTFBMs :: "int option"
  lr_StreamMs :: "int option"
  lr_TotalMs :: "int option"

definition newListRow :: "entry \<Rightarrow> listRow" where
  "newListRow e =
     \<lparr>lr_ID = ID e, lr_Method = Method e, lr_URL = URL e, lr_Status = Status e,
      lr_StatusCode = StatusCode e, lr_Error = Error e, lr_RequestFormat = RequestFormat e,
      lr_ResponseFormat = ResponseFormat e, lr_IsOllama = IsOllama e, lr_IsReplay = IsReplay e,
      lr_StartedAt = UnixMilli (StartedAt e), lr_TTFBMs = TTFBMs e, lr_StreamMs = StreamMs e,
      lr_TotalMs = TotalMs e\<rparr>"

definition listRow_members :: "listRow \<Rightarrow> (bytes \<times> json) list" where
  "listRow_members r =
     [(''id'', JStr (lr_ID r)), (''method'', JStr (lr_Method r)), (''url'', JStr (lr_URL r)),
      (''status'', JStr (lr_Status r))] @
     omit (lr_StatusCode r = 0) ''status_code'' (num (lr_StatusCode r)) @
     omit (lr_Error r = []) ''error'' (JStr (lr_Error r)) @
     omit (lr_RequestFormat r = []) ''request_format'' (JStr (lr_RequestFormat r)) @
     omit (lr_ResponseFormat r = []) ''response_format'' (JStr (lr_ResponseFormat r)) @
     [(''is_ollama'', JBool (lr_IsOllama r)), (''is_replay'', JBool (lr_IsReplay r)),
      (''started_at'', num (lr_StartedAt r)), (''ttfb_ms'', opt_num (lr_TTFBMs r)),
      (''stream_ms'', opt_num (lr_StreamMs r)), (''total_ms'', opt_num (lr_TotalMs r))]"

record bodyPayload =
  bp_Format :: format
  bp_Size :: int
  bp_Body :: bytes
  bp_Truncated :: bool
  bp_Binary :: bool
  bp_URL :: bytes

definition newBodyPayload :: "entry \<Rightarrow> side \<Rightarrow> bodyPayload" where
  "newBodyPayload e sd =
     (let (body, spilled, sz, fmt) =
        (if sd = SideRequest then (RequestBody e, RequestSpilled e, RequestBodySize e, RequestFormat e)
         else (ResponseBody e, ResponseSpilled e, ResponseBodySize e, ResponseFormat e));
          p = \<lparr>bp_Format = fmt, bp_Size = sz, bp_Body = [], bp_Truncated = spilled, bp_Binary = False,
               bp_URL = ''/api/requests/'' @ ID e @ ''/body/'' @ sd\<rparr>
      in if \<not> utf8_Valid body then p\<lparr>bp_Binary := True\<rparr> else p\<lparr>bp_Body := body\<rparr>)"

definition bodyPayload_json :: "bodyPayload \<Rightarrow> json" where
  "bodyPayload_json p = JObj
     (omit (bp_Format p = []) ''format'' (JStr (bp_Format p)) @
      [(''size'', num (bp_Size p))] @
      omit (bp_Body p = []) ''body'' (JStr (bp_Body p)) @
      [(''truncated'', JBool (bp_Truncated p)), (''binary'', JBool (bp_Binary p)), (''url'', JStr (bp_URL p))])"

definition flattenHeader :: "header \<Rightarrow> (bytes \<times> bytes) list" where
  "flattenHeader h = map (\<lambda>(k, vs). (k, Join vs '', '')) h"

record detail =
  dt_row :: listRow
  dt_FinishedAt :: "int option"
  dt_RequestHeaders :: "(bytes \<times> bytes) list"
  dt_ResponseHeaders :: "(bytes \<times> bytes) list"
  dt_Request :: bodyPayload
  dt_Response :: bodyPayload
  dt_OllamaPreview :: bytes

definition newDetail :: "entry \<Rightarrow> detail" where
  "newDetail e =
     \<lparr>dt_row = newListRow e,
      dt_FinishedAt = (case FinishedAt e of None \<Rightarrow> None | Some t \<Rightarrow> Some (UnixMilli t)),
      dt_RequestHeaders = flattenHeader (RequestHeaders e),
      dt_ResponseHeaders = flattenHeader (ResponseHeaders e),
      dt_Request = newBodyPayload e SideRequest, dt_Response = newBodyPayload e SideResponse,
      dt_OllamaPreview = (if IsOllama e then OllamaPreview (ResponseFormat e) (ResponseBody e) else [])\<rparr>"

definition detail_json :: "detail \<Rightarrow> json" where
  "detail_json d = JObj
     (listRow_members (dt_row d) @
      omit (dt_FinishedAt d = None) ''finished_at'' (opt_num (dt_FinishedAt d)) @
      [(''request_headers'', str_map (dt_RequestHeaders d)),
       (''response_headers'', str_map (dt_ResponseHeaders d)),
       (''request'', bodyPayload_json (dt_Request d)), (''response'', bodyPayload_json (dt_Response d))] @
      omit (dt_OllamaPreview d = []) ''ollama_preview'' (JStr (dt_OllamaPreview d)))"

section \<open>Writing\<close>

definition writeJSON :: "int \<Rightarrow> json \<Rightarrow> answer" where
  "writeJSON status v =
     \<lparr>an_Status = status, an_Header = [(''Content-Type'', [''application/json; charset=utf-8''])],
      an_Body = enc_json v @ [newline]\<rparr>"

definition writeError :: "int \<Rightarrow> bytes \<Rightarrow> answer" where
  "writeError status msg = writeJSON status (str_map [(''error'', msg)])"

definition fail :: "bytes \<Rightarrow> answer" where
  "fail what = writeError 500 (what @ '' failed'')"

section \<open>The REST handlers\<close>

text \<open>The two query parameters of the list: \<open>None\<close> is an invalid value.\<close>

definition list_limit :: "bytes \<Rightarrow> int option" where
  "list_limit v =
     (if v = [] then Some defaultLimit
      else case ParseInt v of
        None \<Rightarrow> None
      | Some n \<Rightarrow> if n \<le> 0 then None else Some (min n maxLimit))"

definition list_before :: "bytes \<Rightarrow> gotime option" where
  "list_before v = (if v = [] then Some zero_time else map_option time_UnixMilli (ParseInt v))"

definition listRequests :: "'db engine \<Rightarrow> bytes \<Rightarrow> 'db store \<Rightarrow> answer \<times> 'db store" where
  "listRequests exec query s =
     (case list_limit (query_Get query ''limit'') of
        None \<Rightarrow> (writeError 400 ''limit must be a positive integer'', s)
      | Some limit \<Rightarrow>
        (case list_before (query_Get query ''before'') of
           None \<Rightarrow> (writeError 400 ''before must be a unix timestamp in milliseconds'', s)
         | Some before \<Rightarrow>
           (case List exec limit before s of
              (Inl e, s') \<Rightarrow> (fail ''list requests'', s')
            | (Inr es, s') \<Rightarrow>
                (writeJSON 200 (JObj [(''requests'', JArr (map (\<lambda>e. JObj (listRow_members (newListRow e))) es))]), s'))))"

definition getRequest :: "'db engine \<Rightarrow> bytes \<Rightarrow> 'db store \<Rightarrow> answer \<times> 'db store" where
  "getRequest exec i s =
     (case Get exec i s of
        (Inl e, s') \<Rightarrow> ((if e = ErrNotFound then writeError 404 ''no such request'' else fail ''get request''), s')
      | (Inr e, s') \<Rightarrow> (writeJSON 200 (detail_json (newDetail e)), s'))"

definition getBody :: "'db engine \<Rightarrow> os_env \<Rightarrow> bytes \<Rightarrow> side \<Rightarrow> 'db store \<Rightarrow> answer \<times> 'db store" where
  "getBody exec env i sd s =
     (if sd \<noteq> SideRequest \<and> sd \<noteq> SideResponse
      then (writeError 400 (''side must be '' @ quote # ''request'' @ quote # '' or '' @ quote # ''response'' @ [quote]), s)
      else case Get exec i s of
        (Inl e, s1) \<Rightarrow> ((if e = ErrNotFound then writeError 404 ''no such request'' else fail ''get request''), s1)
      | (Inr entry, s1) \<Rightarrow>
        (case Body exec env i sd s1 of
           (Inl e, s2) \<Rightarrow> (fail ''open body'', s2)
         | (Inr (content, sz), s2) \<Rightarrow>
           (let headers = (if sd = SideRequest then RequestHeaders entry else ResponseHeaders entry);
                ct0 = header_Get headers ''Content-Type'';
                ct = (if ct0 = [] then ''application/octet-stream'' else ct0);
                h = header_Set ''X-Content-Type-Options'' ''nosniff''
                      (header_Set ''Content-Length'' (show_int sz) (header_Set ''Content-Type'' ct []))
            in (\<lparr>an_Status = 200, an_Header = h, an_Body = content\<rparr>, s2))))"

definition clearRequests :: "'db engine \<Rightarrow> os_env \<Rightarrow> 'db store \<Rightarrow> answer \<times> 'db store" where
  "clearRequests exec env s =
     (case Clear exec env s of
        (Inl e, s') \<Rightarrow> (fail ''clear history'', s')
      | (Inr _, s') \<Rightarrow> (\<lparr>an_Status = 204, an_Header = [], an_Body = []\<rparr>, s'))"

definition getConfig :: "bytes \<Rightarrow> answer" where
  "getConfig tgt = writeJSON 200 (str_map [(''target_url'', tgt)])"

section \<open>Replaying\<close>

text \<open>
  Decoding into a \<open>ReplayRequest\<close>: the decoder reads the first value of the input and no further;
  a member of another type is an error, \<open>null\<close> leaves a field alone.
\<close>

definition limit_read :: "int \<Rightarrow> bytes \<Rightarrow> bytes" where
  "limit_read n s = (if int (length s) \<le> n then s else take (nat n) s)"

definition set_headers :: "json \<Rightarrow> header \<Rightarrow> header \<times> bool" where
  "set_headers v h =
     (case v of
        JNull \<Rightarrow> ([], True)
      | JObj ms \<Rightarrow>
          fold (\<lambda>(k, w) (h, ok). case json_to_strs w of
                Inr vs \<Rightarrow> (AList.update k vs h, ok) | Inl _ \<Rightarrow> (h, False)) ms (h, True)
      | _ \<Rightarrow> (h, False))"

fun set_replay :: "(bytes \<times> json) list \<Rightarrow> replayRequest \<Rightarrow> replayRequest \<times> bool" where
  "set_replay [] q = (q, True)"
| "set_replay ((k, v) # ms) q =
     (let (q1, ok) =
        (if names ''method'' k then (case set_string v (rr_Method q) of (x, ok) \<Rightarrow> (q\<lparr>rr_Method := x\<rparr>, ok))
         else if names ''url'' k then (case set_string v (rr_URL q) of (x, ok) \<Rightarrow> (q\<lparr>rr_URL := x\<rparr>, ok))
         else if names ''headers'' k then (case set_headers v (rr_Headers q) of (x, ok) \<Rightarrow> (q\<lparr>rr_Headers := x\<rparr>, ok))
         else if names ''body'' k then (case set_string v (rr_Body q) of (x, ok) \<Rightarrow> (q\<lparr>rr_Body := x\<rparr>, ok))
         else (q, True));
          (q2, ok2) = set_replay ms q1
      in (q2, ok \<and> ok2))"

definition decode_replay :: "bytes \<Rightarrow> replayRequest option" where
  "decode_replay input =
     (let zero = \<lparr>rr_Method = [], rr_URL = [], rr_Headers = [], rr_Body = []\<rparr> in
      case parse_value (json_fuel input) 0 input of
        Some (JObj ms, _) \<Rightarrow> (case set_replay ms zero of (q, ok) \<Rightarrow> if ok then Some q else None)
      | Some (JNull, _) \<Rightarrow> Some zero
      | _ \<Rightarrow> None)"

text \<open>\<open>txt\<close> renders the errors of the decoder and of \<open>Replay\<close>.\<close>

definition replayRequest_handler ::
  "(replay_error option \<Rightarrow> bytes) \<Rightarrow> gotime \<Rightarrow> bytes option \<Rightarrow> os_env \<Rightarrow> bytes \<Rightarrow> 'db store
     \<Rightarrow> answer \<times> job option \<times> 'db store" where
  "replayRequest_handler txt now rnd env input s =
     (case decode_replay (limit_read 33554432 input) of
        None \<Rightarrow> (writeError 400 (''invalid JSON body: '' @ txt None), None, s)
      | Some q \<Rightarrow>
        (case Replay now rnd env q s of
           (Inl e, j, s') \<Rightarrow> (writeError 400 (txt (Some e)), j, s')
         | (Inr i, j, s') \<Rightarrow> (writeJSON 202 (str_map [(''id'', i)]), j, s')))"

section \<open>The event stream\<close>

definition event_name :: "event_type \<Rightarrow> bytes" where
  "event_name t = (case t of EventCreated \<Rightarrow> ''created'' | EventUpdated \<Rightarrow> ''updated''
     | EventDelta \<Rightarrow> ''delta'' | EventDeleted \<Rightarrow> ''deleted'')"

text \<open>The payload of an event; \<open>None\<close> is the panic of a nil entry.\<close>

definition eventPayload :: "event \<Rightarrow> json option" where
  "eventPayload ev =
     (case ev_Type ev of
        EventCreated \<Rightarrow> map_option (\<lambda>e. JObj (listRow_members (newListRow e))) (ev_Entry ev)
      | EventUpdated \<Rightarrow>
          map_option (\<lambda>e. JObj
            [(''id'', JStr (ev_ID ev)), (''status'', JStr (Status e)), (''status_code'', num (StatusCode e)),
             (''stream_ms'', opt_num (StreamMs e)), (''total_ms'', opt_num (TotalMs e)),
             (''ttfb_ms'', opt_num (TTFBMs e))]) (ev_Entry ev)
      | EventDelta \<Rightarrow> Some (JObj [(''chunk'', JStr (ev_Chunk ev)), (''id'', JStr (ev_ID ev))])
      | EventDeleted \<Rightarrow> Some (JObj [(''id'', JStr (ev_ID ev))]))"

definition event_block :: "bytes \<Rightarrow> bytes \<Rightarrow> bytes" where
  "event_block name payload =
     ''event: '' @ name @ [newline] @ ''data: '' @ payload @ [newline, newline]"

definition comment_block :: "bytes \<Rightarrow> bytes" where
  "comment_block c = '': '' @ c @ [newline, newline]"

text \<open>
  What the loop of the handler may find at each turn, with whether the write and the flush that
  follow succeed; and how it leaves: the client or the channel is gone, a write failed, or a panic.
\<close>

datatype wakeup =
    Gone
  | Channel received
  | Tick

datatype stream_end = Running | Returned | Panicked

fun event_loop :: "(wakeup \<times> bool) list \<Rightarrow> bytes \<times> stream_end" where
  "event_loop [] = ([], Running)"
| "event_loop ((Gone, ok) # ws) = ([], Returned)"
| "event_loop ((Channel ChanClosed, ok) # ws) = ([], Returned)"
| "event_loop ((Channel Blocked, ok) # ws) = event_loop ws"
| "event_loop ((Channel (Received ev), ok) # ws) =
     (case eventPayload ev of
        None \<Rightarrow> ([], Panicked)
      | Some v \<Rightarrow>
        (if \<not> ok then ([], Returned)
         else (case event_loop ws of (out, e) \<Rightarrow>
           (event_block (event_name (ev_Type ev)) (enc_json v) @ out, e))))"
| "event_loop ((Tick, ok) # ws) =
     (if \<not> ok then ([], Returned)
      else (case event_loop ws of (out, e) \<Rightarrow> (comment_block ''ping'' @ out, e)))"

definition event_headers :: header where
  "event_headers =
     header_Set ''X-Accel-Buffering'' ''no'' (header_Set ''Connection'' ''keep-alive''
       (header_Set ''Cache-Control'' ''no-cache'' (header_Set ''Content-Type'' ''text/event-stream'' [])))"

definition serve_events :: "bool \<Rightarrow> (wakeup \<times> bool) list \<Rightarrow> answer \<times> stream_end" where
  "serve_events ok ws =
     (if \<not> ok then (\<lparr>an_Status = 200, an_Header = event_headers, an_Body = []\<rparr>, Returned)
      else case event_loop ws of
        (out, e) \<Rightarrow> (\<lparr>an_Status = 200, an_Header = event_headers, an_Body = comment_block ''connected'' @ out\<rparr>, e))"

text \<open>
  What the handler does to the store: it subscribes when it starts and, whichever way it leaves, runs
  the deferred unsubscription; in between it only receives.
\<close>

definition stream_start :: "'db store \<Rightarrow> nat \<times> unsubscriber \<times> 'db store" where
  "stream_start s = (case Subscribe (events s) of (ch, u, b) \<Rightarrow> (ch, u, s\<lparr>events := b\<rparr>))"

definition stream_receive :: "nat \<Rightarrow> 'db store \<Rightarrow> received \<times> 'db store" where
  "stream_receive ch s = (case chan_receive ch (events s) of (r, b) \<Rightarrow> (r, s\<lparr>events := b\<rparr>))"

definition stream_stop :: "unsubscriber \<Rightarrow> 'db store \<Rightarrow> 'db store" where
  "stream_stop u s = s\<lparr>events := snd (unsubscribe u (events s))\<rparr>"

end
