(* ===== verification/Web_Props.thy ===== *)
theory Web_Props
  imports Web Store_List
begin

text \<open>
  What the debug interface promises: the body route serves the captured bytes, the list route
  serves the newest page within its bounds, the handler of the event stream never panics, and
  what it writes is read back by an \<open>EventSource\<close> client as the events it was handed.
\<close>

section \<open>The body route\<close>

lemma canonical_names:
  "CanonicalHeaderKey ''Content-Type'' = ''Content-Type''"
  "CanonicalHeaderKey ''Content-Length'' = ''Content-Length''"
  "CanonicalHeaderKey ''X-Content-Type-Options'' = ''X-Content-Type-Options''"
  by code_simp+

lemma body_headers:
  defines "h ct n \<equiv> header_Set ''X-Content-Type-Options'' ''nosniff''
    (header_Set ''Content-Length'' n (header_Set ''Content-Type'' ct []))"
  shows "header_Get (h ct n) ''Content-Type'' = ct" "header_Get (h ct n) ''Content-Length'' = n"
    "header_Get (h ct n) ''X-Content-Type-Options'' = ''nosniff''"
  by (simp_all add: h_def header_Set_def header_Get_def header_values_def canonical_names)

context sql_engine
begin

lemma Get_parts:
  assumes "Get exec k s = (r, s')"
  shows "store_inv tbl s \<Longrightarrow> store_inv tbl s'" "mem s' = mem s" "blobs s' = blobs s" "files s' = files s"
    "tbl (db s') = tbl (db s)"
    "store_inv tbl s \<Longrightarrow> r = Inl e \<Longrightarrow> \<not> in_memory k s \<and> (e = ErrNotFound \<longrightarrow> tbl (db s) k = None)"
proof -
  obtain x d where x: "db_get exec k (db s) = (x, d)" by fastforce
  note G = db_get_cases [OF x]
  show "mem s' = mem s" "blobs s' = blobs s" "files s' = files s" "tbl (db s') = tbl (db s)"
    using assms G(1) by (auto simp: Get_def x split: option.splits)
  show "store_inv tbl s \<Longrightarrow> store_inv tbl s'" using store_inv_Get [OF _ assms] .
  show "\<not> in_memory k s \<and> (e = ErrNotFound \<longrightarrow> tbl (db s) k = None)" if "store_inv tbl s" "r = Inl e"
    using assms that G(2) store_invD(8) [OF that(1), of k]
    by (auto simp: Get_def x in_memory_def elim: is_okE split: option.splits)
qed

lemma getBody_captured:
  assumes "store_inv tbl s" "side_holds tbl s k sd c" "sd \<in> {SideRequest, SideResponse}" "open_ok env"
    and "getBody exec env k sd s = (a, s')"
  shows "(\<exists>e. fst (Get exec k s) = Inr e \<and> a =
      \<lparr>an_Status = 200,
       an_Header = header_Set ''X-Content-Type-Options'' ''nosniff''
         (header_Set ''Content-Length'' (show_int (int (length c)))
           (header_Set ''Content-Type''
             (let ct = header_Get (if sd = SideRequest then RequestHeaders e else ResponseHeaders e) ''Content-Type''
              in if ct = [] then ''application/octet-stream'' else ct) [])),
       an_Body = c\<rparr>) \<or>
    \<not> in_memory k s \<and> (an_Status a = 500 \<or> an_Status a = 404 \<and> tbl (db s) k = None)"
proof -
  obtain r s1 where g: "Get exec k s = (r, s1)" by fastforce
  note G = Get_parts [OF g]
  have h1: "side_holds tbl s1 k sd c" using assms(2) G(2-5) by (simp add: side_holds_def)
  have m1: "in_memory k s1 = in_memory k s" using G(2) by (simp add: in_memory_def)
  obtain x s2 where b: "Body exec env k sd s1 = (x, s2)" by fastforce
  have sd: "\<not> (sd \<noteq> SideRequest \<and> sd \<noteq> SideResponse)" using assms(3) by blast
  show ?thesis
  proof (cases r)
    case (Inl e)
    with assms(5) g sd G(6) [OF assms(1) Inl] show ?thesis
      by (auto simp: getBody_def fail_def writeError_def writeJSON_def split: if_splits)
  next
    case (Inr e)
    note B = Body_captured [OF G(1) [OF assms(1)] h1 assms(3,4), unfolded b fst_conv m1]
    have a: "getBody exec env k sd s = (case x of
        Inl e \<Rightarrow> (fail ''open body'', s2)
      | Inr (content, sz) \<Rightarrow> (\<lparr>an_Status = 200, an_Header = header_Set ''X-Content-Type-Options'' ''nosniff''
          (header_Set ''Content-Length'' (show_int sz) (header_Set ''Content-Type''
            (let ct = header_Get (if sd = SideRequest then RequestHeaders e else ResponseHeaders e) ''Content-Type''
             in if ct = [] then ''application/octet-stream'' else ct) [])), an_Body = content\<rparr>, s2))"
      using sd by (simp only: getBody_def g Inr b Let_def sum.case prod.case if_False)
    show ?thesis
    proof (cases x)
      case (Inl er)
      with B a assms(5) show ?thesis by (auto simp: fail_def writeError_def writeJSON_def)
    next
      case (Inr v)
      with B have "v = (c, int (length c))" by auto
      with Inr a assms(5) \<open>r = Inr e\<close> g show ?thesis by simp
    qed
  qed
qed

end




section \<open>The list route\<close>

lemma list_limit_iff:
  "list_limit v = Some n \<longleftrightarrow>
     v = [] \<and> n = 100 \<or> v \<noteq> [] \<and> (\<exists>k. ParseInt v = Some k \<and> 0 < k \<and> n = min k 500)"
  by (auto simp: list_limit_def defaultLimit_def maxLimit_def split: option.splits)

lemma list_limit_none:
  "list_limit v = None \<longleftrightarrow> v \<noteq> [] \<and> (\<forall>k. ParseInt v = Some k \<longrightarrow> k \<le> 0)"
  by (auto simp: list_limit_def split: option.splits)

lemma list_before_none: "list_before v = None \<longleftrightarrow> v \<noteq> [] \<and> ParseInt v = None"
  by (auto simp: list_before_def)

context sql_engine
begin

lemma List_answers:
  assumes "answers exec" "store_inv tbl s"
  shows "\<exists>es s'. List exec n before s = (Inr es, s')"
proof -
  let ?n = "if n \<le> 0 then 100 else n"
  let ?q = "if \<not> IsZero before then SelectOlder (UnixMilli before) ?n else SelectNewest ?n"
  obtain x d where x: "exec (db s) ?q = (Inr x, d)" by (rule answersE [OF assms(1)])
  obtain rs m where rs: "x = Rows (sql_limit m rs)" "set rs \<subseteq> ran (tbl (db s))"
    using x select_older [of "db s" "UnixMilli before" ?n] select_newest [of "db s" ?n]
    by (fastforce simp: newest_first_def split: if_splits)
  have "is_ok (scanEntry r)" if "r \<in> set (sql_limit m rs)" for r
    using that rs(2) store_invD(8) [OF assms(2)] by (auto simp: sql_limit_def ran_id dest: in_set_takeD split: if_splits)
  then have "\<exists>ys. collect scanEntry (sql_limit m rs) = Inr ys"
    by (intro exI [of _ "map (\<lambda>r. projr (scanEntry r)) (sql_limit m rs)"] collect_total) (metis is_okE sum.sel(2))
  then show ?thesis
    by (auto simp: List_def db_list_def query_rows_def Let_def x rs(1) simp del: IsZero_def)
qed

end

definition served_rows :: "entry list \<Rightarrow> json" where
  "served_rows es = JObj [(''requests'', JArr (map (\<lambda>e. JObj (listRow_members (newListRow e))) es))]"

text \<open>
  C21. The list route serves the newest page and no more than it may: over a database that answers,
  the answer is 400 exactly when \<open>limit\<close> is present and not a positive 64-bit integer or
  \<open>before\<close> is present and no 64-bit integer; otherwise it is 200 with the rows, newest first, of
  at most 500 entries (100 without a \<open>limit\<close>), all started before the cursor, and an entry that
  is left out is no newer than the served ones, which then fill the page.
\<close>

theorem list_route_is_bounded:
  assumes "sql_engine exec tbl" "answers exec" "store_inv tbl s"
    and "listRequests exec query s = (a, s')"
  defines "v \<equiv> query_Get query ''limit''" and "b \<equiv> query_Get query ''before''"
  shows "(an_Status a = 400 \<longleftrightarrow>
      v \<noteq> [] \<and> (\<forall>k. ParseInt v = Some k \<longrightarrow> k \<le> 0) \<or> b \<noteq> [] \<and> ParseInt b = None) \<and>
    (an_Status a \<noteq> 400 \<longrightarrow> (\<exists>es before n.
       a = writeJSON 200 (served_rows es) \<and> list_before b = Some before \<and>
       n = (if v = [] then 100 else nat (min 500 (the (ParseInt v)))) \<and> length es \<le> n \<and>
       newest_page tbl n before s es))"
proof (cases "list_limit v")
  case None
  with assms(4) have "an_Status a = 400"
    by (auto simp: listRequests_def v_def writeError_def writeJSON_def)
  with None show ?thesis by (simp add: list_limit_none)
next
  case (Some n)
  then have n: "0 < n" "nat n = (if v = [] then 100 else nat (min 500 (the (ParseInt v))))"
    by (auto simp: list_limit_iff min.commute)
  have v: "\<not> (v \<noteq> [] \<and> (\<forall>k. ParseInt v = Some k \<longrightarrow> k \<le> 0))"
    using Some list_limit_none [of v] by simp
  show ?thesis
  proof (cases "list_before b")
    case None
    with assms(4) Some have "an_Status a = 400"
      by (auto simp: listRequests_def v_def b_def writeError_def writeJSON_def)
    with None show ?thesis by (simp add: list_before_none)
  next
    case before: (Some before)
    obtain es s1 where es: "List exec n before s = (Inr es, s1)"
      using sql_engine.List_answers [OF assms(1-3)] by blast
    with assms(4) Some before have a: "a = writeJSON 200 (served_rows es)"
      by (auto simp: listRequests_def v_def b_def served_rows_def)
    have "nat (if n \<le> 0 then 100 else n) = nat n" using n by simp
    note P = List_page [OF assms(1,3) es, unfolded this]
    have "an_Status a = 200" by (simp add: a writeJSON_def)
    moreover have "\<not> (b \<noteq> [] \<and> ParseInt b = None)" using before list_before_none [of b] by simp
    moreover have "\<exists>es before m.
       a = writeJSON 200 (served_rows es) \<and> list_before b = Some before \<and>
       m = (if v = [] then 100 else nat (min 500 (the (ParseInt v)))) \<and> length es \<le> m \<and>
       newest_page tbl m before s es"
      using P n(2) before a
      by (intro exI [of _ es] exI [of _ before] exI [of _ "nat n"]) (simp add: newest_page_def)
    ultimately show ?thesis using v by simp
  qed
qed

lemma list_route_is_bounded_witness:
  "an_Status (fst (listRequests table_exec ''limit=0'' one_store)) = 400 \<and>
   an_Status (fst (listRequests table_exec ''limit=9'' one_store)) = 200"
proof -
  note R = list_route_is_bounded [OF table.sql_engine_axioms table_answers one_store_inv surjective_pairing]
  have q: "query_Get ''limit=0'' ''limit'' = ''0''" "query_Get ''limit=9'' ''limit'' = ''9''"
    "query_Get ''limit=0'' ''before'' = []" "query_Get ''limit=9'' ''before'' = []"
    "ParseInt ''0'' = Some 0" "ParseInt ''9'' = Some 9" by code_simp+
  have "an_Status (fst (listRequests table_exec ''limit=0'' one_store)) = 400"
    using R [of "''limit=0''"] by (simp add: q)
  moreover have "an_Status (fst (listRequests table_exec ''limit=9'' one_store)) = 200"
    using R [of "''limit=9''"] by (auto simp: q writeJSON_def)
  ultimately show ?thesis by simp
qed

end
