(* ===== verification/Web_Stream.thy ===== *)
theory Web_Stream
  imports Web
begin

text \<open>
  The event stream: the handler never meets an event without the entry its payload needs, and a
  client reads back what the handler wrote as the events the handler was handed.
\<close>

section \<open>Every event a subscriber is handed has its payload\<close>

definition has_payload :: "event \<Rightarrow> bool" where
  "has_payload ev \<longleftrightarrow> (ev_Type ev = EventCreated \<or> ev_Type ev = EventUpdated \<longrightarrow> ev_Entry ev \<noteq> None)"

lemma has_payload_iff: "has_payload ev \<longleftrightarrow> eventPayload ev \<noteq> None"
  by (cases "ev_Type ev") (auto simp: has_payload_def eventPayload_def)

text \<open>What holds of the broker of a running store: its invariant, and that of the events queued.\<close>

definition feed_ok :: "broker \<Rightarrow> bool" where
  "feed_ok b \<longleftrightarrow> broker_ok b \<and> (\<forall>ch. \<forall>ev \<in> set (queue (chans b ch)). has_payload ev)"

lemma queue_close_chan [simp]: "queue (chans (close_chan c b) ch) = queue (chans b ch)"
  by (simp add: close_chan_def)

lemma queue_disconnect [simp]: "queue (chans (disconnect c b) ch) = queue (chans b ch)"
  by (simp add: disconnect_def delete_sub_def)

lemma queue_fold_disconnect [simp]: "queue (chans (fold disconnect cs b) ch) = queue (chans b ch)"
  by (induction cs arbitrary: b) simp_all

lemma queue_publish_to:
  "set (queue (chans (publish_to ev c b) ch)) \<subseteq> insert ev (set (queue (chans b ch)))"
  by (auto simp: publish_to_def)

lemma queue_Publish:
  "set (queue (chans (Publish ev b) ch)) \<subseteq> insert ev (set (queue (chans b ch)))"
proof -
  have "set (queue (chans (fold (publish_to ev) cs b) ch)) \<subseteq> insert ev (set (queue (chans b ch)))" for cs
    by (rule fold_invariant) (use queue_publish_to in fast)+
  then show ?thesis by (auto simp: Publish_def)
qed

lemma Close_broker_payloads [intro]: "feed_ok b \<Longrightarrow> feed_ok (Close_broker b)"
  by (auto simp: feed_ok_def Close_broker_def broker_ok_Close [unfolded Close_broker_def] split: if_splits)

lemma Publish_payloads [intro]: "feed_ok b \<Longrightarrow> has_payload ev \<Longrightarrow> feed_ok (Publish ev b)"
  unfolding feed_ok_def using queue_Publish [of ev b] by (blast intro: broker_ok_Publish)

lemma Subscribe_payloads: "feed_ok b \<Longrightarrow> Subscribe b = (ch, u, b') \<Longrightarrow> feed_ok b'"
  using broker_ok_Subscribe [of b ch u b']
  by (auto simp: Subscribe_def Let_def feed_ok_def fresh_chan_def split: if_splits)

lemma unsubscribe_payloads: "feed_ok b \<Longrightarrow> unsubscribe u b = (u', b') \<Longrightarrow> feed_ok b'"
  using broker_ok_unsubscribe [of b u u' b']
  by (auto simp: unsubscribe_def drop_sub_def feed_ok_def split: release.splits if_splits)

lemma chan_receive_payloads:
  assumes "feed_ok b" "chan_receive ch b = (r, b')"
  shows "feed_ok b'" "r = Received ev \<Longrightarrow> has_payload ev"
proof -
  have "broker_ok b'" using assms broker_ok_chan_receive by (auto simp: feed_ok_def)
  moreover have "set (queue (chans b' c)) \<subseteq> set (queue (chans b c))" for c
    using assms(2) by (auto simp: chan_receive_def split: list.splits if_splits)
  ultimately show "feed_ok b'" using assms(1) by (auto simp: feed_ok_def)
  show "has_payload ev" if "r = Received ev"
  proof -
    have "ev \<in> set (queue (chans b ch))"
      using assms(2) that by (auto simp: chan_receive_def split: list.splits if_splits)
    with assms(1) show ?thesis by (simp add: feed_ok_def)
  qed
qed

lemma publish_payloads [intro]:
  "feed_ok (events s) \<Longrightarrow> ty \<in> {EventCreated, EventUpdated} \<longrightarrow> e \<noteq> None \<Longrightarrow>
   feed_ok (events (publish ty i e c s))"
  by (auto simp: publish_def has_payload_def)

lemma fold_publish_payloads:
  "feed_ok (events s) \<Longrightarrow> (\<And>x s. feed_ok (events s) \<Longrightarrow> feed_ok (events (f x s))) \<Longrightarrow>
   feed_ok (events (fold f xs s))"
  by (rule fold_invariant [where P = "\<lambda>s. feed_ok (events s)"])

lemma deleted_payload [simp]: "has_payload (deleted i)"
  by (simp add: has_payload_def)

lemma fold_Publish_payloads:
  "feed_ok b \<Longrightarrow> (\<And>ev. ev \<in> set evs \<Longrightarrow> has_payload ev) \<Longrightarrow> feed_ok (fold Publish evs b)"
  by (induction evs arbitrary: b) auto

lemma Finalize_payloads:
  assumes "feed_ok (events s)"
  shows "feed_ok (events (snd (Finalize exec env now i fn s)))"
proof (cases "Finalize exec env now i fn s" rule: prod.exhaust)
  case (Pair r s')
  have p: "feed_ok (events ((published_final i e d1 s)\<lparr>db := d2\<rparr>))" for e d1 d2
    using assms by (auto simp: has_payload_def)
  from Pair show ?thesis
  proof (cases rule: Finalize_cases)
    case (success l d1 vs d2)
    have "feed_ok (events s')" unfolding success(5)
      by (rule fold_publish_payloads [OF p]) (auto simp: purge_def)
    with Pair show ?thesis by simp
  qed (use assms p Pair in auto)
qed

lemma do_op_payloads:
  assumes "feed_ok (events s)"
  shows "feed_ok (events (snd (do_op exec op s)))"
proof (cases op)
  case (OpFinalize env now i fn)
  then show ?thesis using Finalize_payloads [OF assms] by (simp add: map_prod_def case_prod_beta)
next
  case (OpSweep env now t)
  then show ?thesis using assms
    by (auto simp: SweepPending_def Let_def intro!: fold_publish_payloads Finalize_payloads)
next
  case (OpClear env)
  then show ?thesis using assms
    by (auto simp: Clear_def intro!: fold_Publish_payloads split: prod.splits sum.splits)
next
  case (OpClose)
  then show ?thesis using assms by (auto simp: Close_def)
next
  case (OpPut now rnd e)
  then show ?thesis using assms by (auto simp: Put_def Let_def has_payload_def split: prod.splits sum.splits)
next
  case (OpSetRequestBody env i b)
  then show ?thesis using assms by (auto simp: SetRequestBody_def Let_def split: prod.splits option.splits sum.splits)
next
  case (OpAppend env now i c d)
  then show ?thesis using assms by (auto simp: AppendResponse_def Let_def has_payload_def split: prod.splits option.splits sum.splits)
next
  case (OpUpdate now i fn)
  then show ?thesis using assms by (auto simp: Update_def Let_def has_payload_def split: option.splits)
next
  case (OpGet i)
  then show ?thesis using assms by (auto simp: Get_def Let_def split: option.splits prod.splits)
next
  case (OpList n before)
  then show ?thesis using assms by (auto simp: List_def Let_def split: option.splits prod.splits sum.splits)
next
  case (OpBody env i sd)
  have "events (snd (Body exec env i sd s)) = events s"
    by (simp add: Body_def Get_def Let_def split: option.split prod.split sum.split)
  with OpBody assms show ?thesis by simp
qed

text \<open>
  The states of a running store: opened, then any calls, whatever their arguments and results,
  and subscribers that come, receive and go.
\<close>

inductive serving :: "'db engine \<Rightarrow> 'db store \<Rightarrow> bool" for exec where
  opened: "New exec env opts fs d = Inr s \<Longrightarrow> serving exec s"
| called: "serving exec s \<Longrightarrow> serving exec (snd (do_op exec op s))"
| subscribed: "serving exec s \<Longrightarrow> Subscribe (events s) = (ch, u, b) \<Longrightarrow> serving exec (s\<lparr>events := b\<rparr>)"
| released: "serving exec s \<Longrightarrow> unsubscribe u (events s) = (u', b) \<Longrightarrow> serving exec (s\<lparr>events := b\<rparr>)"
| received: "serving exec s \<Longrightarrow> chan_receive ch (events s) = (r, b) \<Longrightarrow> serving exec (s\<lparr>events := b\<rparr>)"

lemma serving_payloads: "serving exec s \<Longrightarrow> feed_ok (events s)"
proof (induction rule: serving.induct)
  case (opened env opts fs d s)
  then have "events s = NewBroker"
    by (auto simp: New_def Let_def split: sum.splits prod.splits if_splits)
  then show ?case using broker_ok_NewBroker by (simp add: feed_ok_def NewBroker_def fresh_chan_def)
qed (auto intro: do_op_payloads Subscribe_payloads unsubscribe_payloads chan_receive_payloads)

lemma event_loop_panics:
  "snd (event_loop ws) = Panicked \<Longrightarrow> \<exists>ev ok. (Channel (Received ev), ok) \<in> set ws \<and> \<not> has_payload ev"
  by (induction ws rule: event_loop.induct)
    (auto simp: has_payload_iff split: option.splits if_splits prod.splits)

section \<open>What a client reads\<close>

text \<open>
  The lines of a stream (ended by a line feed, a carriage return or both; an unfinished line does
  not count) and the events an \<open>EventSource\<close> dispatches: \<open>ty\<close> and \<open>data\<close> are its two buffers.
\<close>

function sse_split :: "bytes \<Rightarrow> bytes \<Rightarrow> bytes list" where
  "sse_split acc [] = []"
| "sse_split acc (c # s) =
     (if c = newline then acc # sse_split [] s
      else if c = CHR 0x0D then acc # sse_split [] (if HasPrefix s [newline] then tl s else s)
      else sse_split (acc @ [c]) s)"
  by pat_completeness auto
termination
  by (relation "measure (\<lambda>(acc, s). length s)") auto

fun sse_dispatch :: "bytes \<Rightarrow> bytes \<Rightarrow> bytes list \<Rightarrow> (bytes \<times> bytes) list" where
  "sse_dispatch ty data [] = []"
| "sse_dispatch ty data (l # ls) =
     (if l = [] then (if data = [] then [] else [(ty, butlast data)]) @ sse_dispatch [] [] ls
      else if hd l = CHR '':'' then sse_dispatch ty data ls
      else (case Cut l CHR '':'' of (field, v, _) \<Rightarrow>
        (let v = (if HasPrefix v '' '' then tl v else v) in
         if field = ''event'' then sse_dispatch v data ls
         else if field = ''data'' then sse_dispatch ty (data @ v @ [newline]) ls
         else sse_dispatch ty data ls)))"

definition sse_client :: "bytes \<Rightarrow> (bytes \<times> bytes) list" where
  "sse_client s = sse_dispatch [] [] (sse_split [] s)"

lemma sse_split_line:
  "(\<And>c. c \<in> set l \<Longrightarrow> 32 \<le> byte c) \<Longrightarrow> sse_split acc (l @ newline # s) = (acc @ l) # sse_split [] s"
proof (induction l arbitrary: acc)
  case (Cons c l)
  then have "32 \<le> byte c" by simp
  then have "c \<noteq> newline" "c \<noteq> CHR 0x0D" by (auto simp: newline_def byte_def)
  with Cons show ?case by simp
qed (simp add: newline_def)

lemma event_name_plain: "c \<in> set (event_name t) \<Longrightarrow> 32 \<le> byte c \<and> c \<noteq> CHR '':''"
  by (cases t) (auto simp: event_name_def byte_def)

lemma sse_client_comment:
  assumes "\<And>c. c \<in> set t \<Longrightarrow> 32 \<le> byte c"
  shows "sse_client (comment_block t @ s) = sse_client s"
proof -
  have "sse_split [] (('': '' @ t) @ newline # [] @ newline # s) = ('': '' @ t) # [] # sse_split [] s"
    using assms by (subst sse_split_line) (auto simp: byte_def newline_def)
  then show ?thesis by (simp add: sse_client_def comment_block_def)
qed

lemma sse_client_comments:
  "sse_client (comment_block ''connected'' @ s) = sse_client s"
  "sse_client (comment_block ''ping'' @ s) = sse_client s"
  by (rule sse_client_comment, auto simp: byte_def)+

lemma sse_client_event:
  assumes "\<And>c. c \<in> set p \<Longrightarrow> 32 \<le> byte c" "p \<noteq> []" "hd p \<noteq> CHR '' ''"
  shows "sse_client (event_block (event_name t) p @ s) = (event_name t, p) # sse_client s"
proof -
  have "sse_split [] ((''event: '' @ event_name t) @ newline # (''data: '' @ p) @ newline # [] @ newline # s) =
      (''event: '' @ event_name t) # (''data: '' @ p) # [] # sse_split [] s"
    using assms event_name_plain [of _ t]
    by (subst sse_split_line, force simp: byte_def, subst sse_split_line, force simp: byte_def)
      (simp add: newline_def)
  moreover have "Cut (''event: '' @ v) CHR '':'' = (''event'', '' '' @ v, True)"
    "Cut (''data: '' @ v) CHR '':'' = (''data'', '' '' @ v, True)" for v
    by (simp_all add: Cut_def)
  ultimately show ?thesis by (simp add: sse_client_def event_block_def HasPrefix_def)
qed

text \<open>The wake-ups at which the loop leaves, and the events written before it does.\<close>

fun leaves :: "wakeup \<times> bool \<Rightarrow> bool" where
  "leaves (Gone, ok) = True"
| "leaves (Channel ChanClosed, ok) = True"
| "leaves (Channel Blocked, ok) = False"
| "leaves (Channel (Received ev), ok) = (eventPayload ev = None \<or> \<not> ok)"
| "leaves (Tick, ok) = (\<not> ok)"

fun event_of :: "wakeup \<times> bool \<Rightarrow> event list" where
  "event_of (Channel (Received ev), ok) = [ev]"
| "event_of _ = []"

definition written :: "(wakeup \<times> bool) list \<Rightarrow> event list" where
  "written ws = concat (map event_of (takeWhile (\<lambda>w. \<not> leaves w) ws))"

definition message :: "event \<Rightarrow> bytes \<times> bytes" where
  "message ev = (event_name (ev_Type ev), enc_json (the (eventPayload ev)))"

lemma opt_num_json [simp]: "int_json (opt_num v)" "json_depth (opt_num v) = 0" "int_json (num i)" "json_depth (num i) = 0"
  by (auto simp: opt_num_def num_def split: option.splits)

lemma payload_json:
  assumes "eventPayload ev = Some v"
  shows "int_json v" "json_depth v = 1"
  using assms
  by (auto simp: eventPayload_def listRow_members_def omit_def split: event_type.splits option.splits)

lemma message_line:
  assumes "eventPayload ev = Some v"
  shows "c \<in> set (enc_json v) \<Longrightarrow> 32 \<le> byte c" "enc_json v \<noteq> []" "hd (enc_json v) \<noteq> CHR '' ''"
proof -
  note I = payload_json(1) [OF assms]
  show "c \<in> set (enc_json v) \<Longrightarrow> 32 \<le> byte c" by (rule enc_json_printable [OF I])
  show "enc_json v \<noteq> []" "hd (enc_json v) \<noteq> CHR '' ''"
    using enc_json_hd [OF I] by (auto simp: json_space_def)
qed

lemma event_loop_read: "sse_client (fst (event_loop ws)) = map message (written ws)"
proof (induction ws rule: event_loop.induct)
  case (5 ev ok ws)
  show ?case
  proof (cases "eventPayload ev = None \<or> \<not> ok")
    case True
    then show ?thesis by (auto simp: written_def sse_client_def split: option.splits)
  next
    case False
    then obtain v where v: "eventPayload ev = Some v" and "ok" by auto
    with 5 show ?thesis
      by (auto simp: written_def sse_client_event message_line [OF v] message_def split: prod.splits)
  qed
next
  case (6 ok ws)
  then show ?case
    by (auto simp: written_def sse_client_comments split: prod.splits) (simp add: sse_client_def)
qed (simp_all add: written_def sse_client_def)

lemma written_payload: "ev \<in> set (written ws) \<Longrightarrow> \<exists>v. eventPayload ev = Some v"
proof -
  assume "ev \<in> set (written ws)"
  then obtain w where "w \<in> set ws" "\<not> leaves w" "ev \<in> set (event_of w)"
    by (auto simp: written_def dest: set_takeWhileD)
  then show ?thesis by (cases w rule: event_of.cases) auto
qed

section \<open>The end of a stream\<close>

text \<open>The results of \<open>n\<close> receives in a row, and those a sequence of wake-ups consumes.\<close>

fun receives :: "nat \<Rightarrow> nat \<Rightarrow> broker \<Rightarrow> received list" where
  "receives 0 ch b = []"
| "receives (Suc n) ch b = (case chan_receive ch b of (r, b') \<Rightarrow> r # receives n ch b')"

fun received_of :: "wakeup \<times> bool \<Rightarrow> received list" where
  "received_of (Channel r, ok) = [r]"
| "received_of _ = []"

lemma receives_closed:
  "chan_closed (chans b ch) \<Longrightarrow> length (queue (chans b ch)) < n \<Longrightarrow>
   receives n ch b = map Received (queue (chans b ch)) @ replicate (n - length (queue (chans b ch))) ChanClosed"
proof (induction n arbitrary: b)
  case (Suc n)
  show ?case
  proof (cases "queue (chans b ch)")
    case Nil
    have "receives k ch b = replicate k ChanClosed" for k
      by (induction k) (simp_all add: chan_receive_def Nil Suc.prems)
    with Nil show ?thesis by simp
  next
    case (Cons ev q)
    let ?b = "b\<lparr>chans := (chans b)(ch := (chans b ch)\<lparr>queue := q\<rparr>)\<rparr>"
    have "receives n ch ?b = map Received q @ replicate (n - length q) ChanClosed"
      using Suc.IH [of ?b] Suc.prems Cons by simp
    with Cons show ?thesis by (simp add: chan_receive_def)
  qed
qed simp

lemma event_loop_running: "snd (event_loop ws) = Running \<Longrightarrow> w \<in> set ws \<Longrightarrow> \<not> leaves w"
  by (induction ws rule: event_loop.induct) (auto split: option.splits if_splits prod.splits)

lemma ChanClosed_leaves: "ChanClosed \<in> set (concat (map received_of ws)) \<Longrightarrow> \<exists>w \<in> set ws. leaves w"
proof -
  assume "ChanClosed \<in> set (concat (map received_of ws))"
  then obtain w where "w \<in> set ws" "ChanClosed \<in> set (received_of w)" by auto
  then show ?thesis by (cases w rule: received_of.cases) (auto intro!: bexI [of _ w])
qed

lemma written_received:
  assumes "\<forall>(w, ok) \<in> set ws. ok \<and> w \<noteq> Gone" "concat (map received_of ws) = map Received evs @ ChanClosed # rs"
    and "\<forall>ev \<in> set evs. has_payload ev"
  shows "written ws = evs"
  using assms
proof (induction ws arbitrary: evs)
  case (Cons w ws)
  obtain v ok where w: "w = (v, ok)" by (cases w)
  with Cons.prems(1) have ok: "ok" "v \<noteq> Gone" by auto
  show ?case
  proof (cases v)
    case (Channel r)
    show ?thesis
    proof (cases evs)
      case Nil
      with Cons.prems(2) Channel w show ?thesis by (simp add: written_def)
    next
      case (Cons ev evs')
      with Cons.prems(2) Channel w have r: "r = Received ev"
        "concat (map received_of ws) = map Received evs' @ ChanClosed # rs" by simp_all
      with Cons Cons.IH [of evs'] Cons.prems(1,3) have "written ws = evs'" by simp
      with Cons.prems(3) Cons Channel w r ok show ?thesis by (simp add: written_def has_payload_iff)
    qed
  next
    case Tick
    with Cons ok w show ?thesis by (simp add: written_def)
  qed (use ok in simp)
qed simp

text \<open>A store with one subscriber, after one \<open>Put\<close>.\<close>

definition watched_store :: "row list store" where
  "watched_store = snd (do_op table_exec one_put
     (small_store\<lparr>events := snd (snd (Subscribe NewBroker))\<rparr>))"

definition watched_event :: event where
  "watched_event = \<lparr>ev_Type = EventCreated, ev_ID = ''1f'', ev_Entry =
     Some (snapshot (new_live (Time 5) ''1f'' (zero_entry\<lparr>ID := ''1f''\<rparr>))), ev_Chunk = []\<rparr>"

lemma watched_serving: "serving table_exec watched_store"
proof -
  have "Subscribe (events small_store) =
      (fst (Subscribe NewBroker), fst (snd (Subscribe NewBroker)), snd (snd (Subscribe NewBroker)))"
    by (simp add: small_store_def)
  from serving.subscribed [OF serving.opened [OF New_small] this] show ?thesis
    unfolding watched_store_def by (rule serving.called)
qed

lemma watched_queue: "queue (chans (events watched_store) 0) = [watched_event]"
  "next_chan (events watched_store) = 1" "subs (events watched_store) = [0]" "\<not> closed (events watched_store)"
  by (simp_all add: watched_store_def watched_event_def one_put_def Put_eq put_id_def zero_entry_def
    Subscribe_def NewBroker_def Let_def Publish_def publish_to_def subscriberBuffer_def fresh_chan_def)

section \<open>Properties\<close>

text \<open>
  C19. The handler of the event stream never panics: \<open>eventPayload\<close> dereferences the entry of a
  created or updated event, and whatever a subscriber receives in any state of a running store,
  whichever calls were made and failed, has one. So a stream whose events were all received in such
  states ends only because the client, the channel or a write did.
\<close>

theorem event_stream_never_panics:
  assumes "\<forall>(w, wrote) \<in> set ws. \<forall>r. w = Channel r \<longrightarrow>
      (\<exists>s ch b. serving exec s \<and> chan_receive ch (events s) = (r, b))"
  shows "snd (serve_events ok ws) \<noteq> Panicked"
proof
  assume "snd (serve_events ok ws) = Panicked"
  then have "snd (event_loop ws) = Panicked"
    by (auto simp: serve_events_def split: if_splits prod.splits)
  then obtain ev wrote where "(Channel (Received ev), wrote) \<in> set ws" "\<not> has_payload ev"
    using event_loop_panics by blast
  with assms obtain s ch b where "serving exec s" "chan_receive ch (events s) = (Received ev, b)" by blast
  with \<open>\<not> has_payload ev\<close> show False using chan_receive_payloads(2) serving_payloads by blast
qed



lemma event_stream_never_panics_witness:
  "snd (serve_events True [(Channel (Received watched_event), True)]) \<noteq> Panicked"
proof -
  have "fst (chan_receive 0 (events watched_store)) = Received watched_event"
    using watched_queue by (simp add: chan_receive_def)
  then have "\<exists>s ch b. serving table_exec s \<and> chan_receive ch (events s) = (Received watched_event, b)"
    using watched_serving by (metis fst_conv surj_pair)
  then show ?thesis
    by (intro event_stream_never_panics [of _ table_exec]) (simp del: do_op.simps)
qed

text \<open>
  C16. The stream can be read back: an \<open>EventSource\<close> client that is fed everything the handler wrote
  dispatches, in order, exactly the events that were written before the handler left, heartbeats
  and comments giving none; each under the name of its type, and with data that a JSON parser
  reads back as the event's payload, its strings in valid UTF-8: no chunk of a captured
  body can break the framing.
\<close>

theorem event_stream_reads_back:
  shows "list_all2 (\<lambda>(name, data) ev. name = event_name (ev_Type ev) \<and>
      (\<exists>v. eventPayload ev = Some v \<and> json_parse data = Some (sanitize_json v)))
    (sse_client (an_Body (fst (serve_events True ws)))) (written ws)"
proof -
  have "sse_client (an_Body (fst (serve_events True ws))) = map message (written ws)"
    using event_loop_read [of ws] by (cases "event_loop ws") (simp add: serve_events_def sse_client_comments)
  moreover have "\<exists>v. eventPayload ev = Some v \<and> json_parse (snd (message ev)) = Some (sanitize_json v)"
    if w: "ev \<in> set (written ws)" for ev
  proof -
    obtain v where v: "eventPayload ev = Some v" using written_payload [OF w] by blast
    note J = payload_json [OF v]
    have "json_parse (enc_json v) = Some (sanitize_json v)"
      using J by (intro enc_json_round_trip) (simp_all add: maxNestingDepth_def)
    with v show ?thesis by (simp add: message_def)
  qed
  ultimately show ?thesis
    by (auto simp: list_all2_map1 message_def split_def intro!: list.rel_refl_strong)
qed


text \<open>
  C31. Streams end: once a subscriber is disconnected, because it was too slow or because the store
  was closed, its handler returns after at most 257 receives, whenever heartbeats come in between; if
  the client stays and its writes succeed, it has by then been written every event that was still
  unread, in order, and nothing more.
\<close>

theorem disconnected_stream_ends:
  assumes "serving exec s" "ch < next_chan (events s)" "closed (events s) \<or> \<not> subscribed ch (events s)"
    and "concat (map received_of ws) = receives 257 ch (events s)"
  shows "snd (serve_events ok ws) = Returned \<and>
    ((\<forall>(w, wrote) \<in> set ws. wrote \<and> w \<noteq> Gone) \<longrightarrow> written ws = unread ch (events s))"
proof -
  let ?q = "queue (chans (events s) ch)"
  have F: "feed_ok (events s)" by (rule serving_payloads [OF assms(1)])
  then have q: "\<forall>ev \<in> set ?q. has_payload ev" by (simp add: feed_ok_def)
  have "chan_closed (chans (events s) ch)" "length ?q \<le> subscriberBuffer"
    using F assms(2,3) by (auto simp: feed_ok_def broker_ok_def subscribed_def)
  then have r: "concat (map received_of ws) = map Received ?q @ ChanClosed # replicate (256 - length ?q) ChanClosed"
    using receives_closed [of "events s" ch 257] assms(4)
    by (simp add: subscriberBuffer_def Suc_diff_le replicate_Suc [symmetric] del: replicate_Suc)
  then have "snd (event_loop ws) \<noteq> Running"
    using ChanClosed_leaves [of ws] event_loop_running [of ws] by auto
  moreover have "snd (event_loop ws) \<noteq> Panicked"
  proof
    assume "snd (event_loop ws) = Panicked"
    then obtain ev wrote where e: "(Channel (Received ev), wrote) \<in> set ws" "\<not> has_payload ev"
      using event_loop_panics by blast
    then have "Received ev \<in> set (concat (map received_of ws))" by force
    with e(2) q r show False by auto
  qed
  ultimately have "snd (event_loop ws) = Returned" by (cases "snd (event_loop ws)") simp_all
  then have "snd (serve_events ok ws) = Returned" by (auto simp: serve_events_def split: prod.splits)
  with written_received [OF _ r q] show ?thesis by (simp add: unread_def)
qed

lemma disconnected_stream_ends_witness:
  "snd (serve_events True ((Channel (Received watched_event), True) # replicate 256 (Channel ChanClosed, True))) =
     Returned"
proof -
  let ?s = "Close watched_store"
  have v: "serving table_exec ?s" using serving.called [OF watched_serving, of OpClose] by simp
  have b: "events ?s = Close_broker (events watched_store)" by (simp add: Close_def)
  have c: "closed (events ?s)" "next_chan (events ?s) = 1" "queue (chans (events ?s) 0) = [watched_event]"
    by (simp_all add: b Close_broker_def disconnect_def close_chan_def delete_sub_def watched_queue)
  have "broker_ok (events ?s)" using serving_payloads [OF v] by (simp add: feed_ok_def)
  then have "chan_closed (chans (events ?s) 0)" using c by (auto simp: broker_ok_def)
  from receives_closed [OF this, of 257] c(3)
  have "receives 257 0 (events ?s) = Received watched_event # replicate 256 ChanClosed" by simp
  then show ?thesis
    using disconnected_stream_ends [OF v _ disjI1 [OF c(1)], of 0
        "(Channel (Received watched_event), True) # replicate 256 (Channel ChanClosed, True)" True] c(2)
    by (simp add: concat_replicate_single del: do_op.simps)
qed

end
