(* ===== verification/Routes.thy ===== *)
theory Routes
  imports Web_Props
begin

text \<open>
  The router of \<open>internal/web/server.go\<close> (\<open>Server.Handler\<close>): the patterns it registers, the matching of
  \<open>http.ServeMux\<close> over them, and the whole handler, composed of the router and the handlers of theory
  \<open>Web\<close>. The mux keeps a tree per method: a node has children for literal segments, one for a
  wildcard, and a handler for a pattern that ends in a slash, which matches any rest. A literal is
  preferred to a wildcard, and both to a trailing slash.
\<close>

section \<open>Patterns\<close>

datatype segment = Lit bytes | Wild bytes | Tail

definition pathUnescape :: "bytes \<Rightarrow> bytes" where
  "pathUnescape p = (case url_unescape encodePath p of None \<Rightarrow> p | Some u \<Rightarrow> u)"

definition parse_segment :: "bytes \<Rightarrow> segment" where
  "parse_segment seg =
     (if seg = [] then Tail
      else if hd seg = CHR ''{'' then Wild (butlast (tl seg))
      else Lit (pathUnescape seg))"

text \<open>A pattern: method, space, path.\<close>

definition parse_pattern :: "bytes \<Rightarrow> bytes \<times> segment list" where
  "parse_pattern p = (case Cut p CHR '' '' of (m, pth, _) \<Rightarrow> (m, map parse_segment (Split CHR ''/'' (tl pth))))"

section \<open>The tree\<close>

type_synonym 'h pattern = "bytes list \<times> 'h"

text \<open>The handler a node or a trailing slash holds comes with the names of the wildcards on the way.\<close>

datatype 'h node = Node (children: "(bytes \<times> 'h node) list") (single: "'h node option")
  (multi: "'h pattern option") (leaf: "'h pattern option")

definition no_node :: "'h node" where
  "no_node = Node [] None None None"

fun add_segments :: "segment list \<Rightarrow> bytes list \<Rightarrow> 'h \<Rightarrow> 'h node \<Rightarrow> 'h node" where
  "add_segments [] ns h (Node cs w mu l) = Node cs w mu (Some (ns, h))"
| "add_segments (Lit s # ss) ns h (Node cs w mu l) =
     (let c = (case map_of cs s of None \<Rightarrow> no_node | Some c \<Rightarrow> c)
      in Node (AList.update s (add_segments ss ns h c) cs) w mu l)"
| "add_segments (Wild n # ss) ns h (Node cs w mu l) =
     (let c = (case w of None \<Rightarrow> no_node | Some c \<Rightarrow> c)
      in Node cs (Some (add_segments ss (ns @ [n]) h c)) mu l)"
| "add_segments (Tail # ss) ns h (Node cs w mu l) = Node cs w (Some (ns, h)) l"

type_synonym 'h mux = "(bytes \<times> 'h node) list"

definition HandleFunc :: "bytes \<times> 'h \<Rightarrow> 'h mux \<Rightarrow> 'h mux" where
  "HandleFunc r m =
     (case r of (p, h) \<Rightarrow> case parse_pattern p of (verb, ss) \<Rightarrow>
       AList.update verb
         (add_segments ss [] h (case map_of m verb of None \<Rightarrow> no_node | Some n \<Rightarrow> n)) m)"

text \<open>
  The segments of a path, each unescaped; a final slash is a segment of its own.
\<close>

function path_segments :: "bytes \<Rightarrow> bytes list" where
  "path_segments p =
     (if p = [] then []
      else if p = ''/'' then [''/'']
      else pathUnescape (takeWhile (\<lambda>c. c \<noteq> CHR ''/'') (tl p)) # path_segments (dropWhile (\<lambda>c. c \<noteq> CHR ''/'') (tl p)))"
  by auto
termination
  by (relation "measure length") (auto simp: le_imp_less_Suc length_dropWhile_le split: list.split
    intro: le_less_trans [OF length_dropWhile_le] simp: Suc_leI)

declare path_segments.simps [simp del]

section \<open>Matching\<close>

primrec match_path :: "bytes list \<Rightarrow> 'h node \<Rightarrow> bytes list \<Rightarrow> ('h pattern \<times> bytes list) option" where
  "match_path [] n ms = map_option (\<lambda>h. (h, ms)) (leaf n)"
| "match_path (seg # segs) n ms =
     (case (case map_of (children n) seg of None \<Rightarrow> None | Some c \<Rightarrow> match_path segs c ms) of
        Some r \<Rightarrow> Some r
      | None \<Rightarrow>
        (case (if seg \<noteq> ''/'' then (case single n of None \<Rightarrow> None | Some c \<Rightarrow> match_path segs c (ms @ [seg]))
               else None) of
           Some r \<Rightarrow> Some r
         | None \<Rightarrow> map_option (\<lambda>h. (h, ms)) (multi n)))"

definition match_method :: "'h mux \<Rightarrow> bytes \<Rightarrow> bytes \<Rightarrow> ('h pattern \<times> bytes list) option" where
  "match_method m verb p =
     (case map_of m verb of None \<Rightarrow> None | Some n \<Rightarrow> match_path (path_segments p) n [])"

text \<open>A GET pattern serves HEAD too.\<close>

definition mux_match :: "'h mux \<Rightarrow> bytes \<Rightarrow> bytes \<Rightarrow> ('h pattern \<times> bytes list) option" where
  "mux_match m verb p =
     (case match_method m verb p of
        Some r \<Rightarrow> Some r
      | None \<Rightarrow> if verb = ''HEAD'' then match_method m ''GET'' p else None)"

text \<open>The methods another request for this path could use, in order.\<close>

definition matchingMethods :: "'h mux \<Rightarrow> bytes \<Rightarrow> bytes list" where
  "matchingMethods m p =
     (let ps = (if HasSuffix p ''/'' then [p] else [p, p @ ''/'']);
          ms = filter (\<lambda>verb. list_ex (\<lambda>p. match_method m verb p \<noteq> None) ps) (map fst m)
      in sort (if ''GET'' \<in> set ms then List.insert ''HEAD'' ms else ms))"

text \<open>\<open>path.Clean\<close> of a rooted path, and \<open>cleanPath\<close>, which keeps a final slash.\<close>

definition clean_segment :: "bytes \<Rightarrow> bytes list \<Rightarrow> bytes list" where
  "clean_segment seg acc =
     (if seg = [] \<or> seg = ''.'' then acc else if seg = ''..'' then butlast acc else acc @ [seg])"

definition path_Clean :: "bytes \<Rightarrow> bytes" where
  "path_Clean p = CHR ''/'' # Join (fold clean_segment (Split CHR ''/'' p) []) ''/''"

definition cleanPath :: "bytes \<Rightarrow> bytes" where
  "cleanPath p0 =
     (if p0 = [] then ''/''
      else let p = (if hd p0 \<noteq> CHR ''/'' then CHR ''/'' # p0 else p0);
               np = path_Clean p
           in if last p = CHR ''/'' \<and> np \<noteq> ''/'' then np @ ''/'' else np)"

text \<open>
  Where a request goes: to a handler with the values of its wildcards, to a redirection to the clean
  path, or to an error. No pattern of the program but \<open>/\<close> ends in a slash, so the mux never redirects
  to a path with one.
\<close>

datatype 'h routed =
    Found 'h "(bytes \<times> bytes) list"
  | Moved bytes
  | NotAllowed "bytes list"
  | NoMatch
  | Asterisk

definition find_handler :: "'h mux \<Rightarrow> bytes \<Rightarrow> url \<Rightarrow> 'h routed" where
  "find_handler m verb u =
     (if Path u = ''*'' then Asterisk
      else let ep = EscapedPath u;
               p = (if verb = ''CONNECT'' then ep else cleanPath ep)
           in if p \<noteq> ep then Moved p
              else case mux_match m verb p of
                Some ((ns, h), vs) \<Rightarrow> Found h (zip ns vs)
              | None \<Rightarrow> (case matchingMethods m p of [] \<Rightarrow> NoMatch | ms \<Rightarrow> NotAllowed ms))"

section \<open>The program's routes\<close>

datatype endpoint = ListRequests | ReplayRequest | ClearRequests | GetRequest | GetBody | EventStream | GetConfig
  | DetailPage | FileServer

definition routes :: "(bytes \<times> endpoint) list" where
  "routes =
     [(''GET /api/requests'', ListRequests),
      (''POST /api/requests'', ReplayRequest),
      (''DELETE /api/requests'', ClearRequests),
      (''GET /api/requests/{id}'', GetRequest),
      (''GET /api/requests/{id}/body/{side}'', GetBody),
      (''GET /api/events'', EventStream),
      (''GET /api/config'', GetConfig),
      (''GET /r/{id}'', DetailPage),
      (''GET /'', FileServer)]"

definition router :: "endpoint mux" where
  "router = fold HandleFunc routes []"

lemma router_eval: "router =
  [(''GET'', Node
     [(''api'', Node
        [(''requests'', Node [] (Some (Node [(''body'', Node [] (Some (Node [] None None (Some ([''id'', ''side''], GetBody)))) None None)] None None (Some ([''id''], GetRequest)))) None (Some ([], ListRequests))),
         (''events'', Node [] None None (Some ([], EventStream))),
         (''config'', Node [] None None (Some ([], GetConfig)))] None None None),
      (''r'', Node [] (Some (Node [] None None (Some ([''id''], DetailPage)))) None None)] None (Some ([], FileServer)) None),
   (''POST'', Node [(''api'', Node [(''requests'', Node [] None None (Some ([], ReplayRequest)))] None None None)] None None None),
   (''DELETE'', Node [(''api'', Node [(''requests'', Node [] None None (Some ([], ClearRequests)))] None None None)] None None None)]"
  by code_simp

section \<open>The table the tree stands for\<close>

definition get_target :: "bytes list \<Rightarrow> endpoint \<times> (bytes \<times> bytes) list" where
  "get_target segs =
     (if segs = [''api'', ''requests''] then (ListRequests, [])
      else if segs = [''api'', ''events''] then (EventStream, [])
      else if segs = [''api'', ''config''] then (GetConfig, [])
      else case segs of
        [a, b] \<Rightarrow> if a = ''r'' \<and> b \<noteq> ''/'' then (DetailPage, [(''id'', b)]) else (FileServer, [])
      | [a, b, i] \<Rightarrow> if a = ''api'' \<and> b = ''requests'' \<and> i \<noteq> ''/'' then (GetRequest, [(''id'', i)]) else (FileServer, [])
      | [a, b, i, c, sd] \<Rightarrow>
          if a = ''api'' \<and> b = ''requests'' \<and> i \<noteq> ''/'' \<and> c = ''body'' \<and> sd \<noteq> ''/''
          then (GetBody, [(''id'', i), (''side'', sd)]) else (FileServer, [])
      | _ \<Rightarrow> (FileServer, []))"

lemma match_get:
  assumes "p \<noteq> []"
  shows "\<exists>ns vs. match_method router ''GET'' p = Some ((ns, fst (get_target (path_segments p))), vs) \<and>
    zip ns vs = snd (get_target (path_segments p))"
proof -
  have "path_segments p \<noteq> []" using assms by (simp add: path_segments.simps)
  then consider (one) a where "path_segments p = [a]" | (two) a b where "path_segments p = [a, b]"
    | (three) a b c where "path_segments p = [a, b, c]" | (four) a b c d where "path_segments p = [a, b, c, d]"
    | (five) a b c d e where "path_segments p = [a, b, c, d, e]"
    | (more) a b c d e f r where "path_segments p = a # b # c # d # e # f # r"
    by (metis list.exhaust)
  then show ?thesis
    by cases (simp_all add: match_method_def router_eval get_target_def)
qed

lemma match_post:
  assumes "verb = ''POST'' \<or> verb = ''DELETE''"
  shows "match_method router verb p =
    (if path_segments p = [''api'', ''requests'']
     then Some (([], if verb = ''POST'' then ReplayRequest else ClearRequests), []) else None)"
proof -
  consider (none) "path_segments p = []" | (one) a where "path_segments p = [a]" | (two) a b where "path_segments p = [a, b]"
    | (more) a b c r where "path_segments p = a # b # c # r"
    by (metis list.exhaust)
  then show ?thesis
    by cases (use assms in \<open>auto simp: match_method_def router_eval\<close>)
qed

lemma match_other:
  "verb \<notin> {''GET'', ''POST'', ''DELETE''} \<Longrightarrow> match_method router verb p = None"
  by (simp add: match_method_def router_eval)

lemma last_segment:
  "p \<noteq> [] \<Longrightarrow> last p = CHR ''/'' \<Longrightarrow> path_segments p \<noteq> [] \<and> last (path_segments p) = ''/''"
proof (induction p rule: path_segments.induct)
  case (1 p)
  show ?case
  proof (cases "p = ''/''")
    case True
    then show ?thesis by (simp add: path_segments.simps)
  next
    case False
    let ?q = "dropWhile (\<lambda>c. c \<noteq> CHR ''/'') (tl p)"
    have "tl p \<noteq> []" using False 1(2,3) by (cases p) auto
    then have "CHR ''/'' \<in> set (tl p)" using 1(2,3) by (metis last_in_set last_tl)
    then have "?q \<noteq> []" by auto
    moreover have "last ?q = CHR ''/''"
      using \<open>?q \<noteq> []\<close> 1(3) \<open>tl p \<noteq> []\<close> by (metis last_appendR last_tl takeWhile_dropWhile_id)
    ultimately show ?thesis using 1(1) [OF 1(2) False] False 1(2) by (subst (1 2) path_segments.simps) simp
  qed
qed

lemma cleanPath_nonempty: "cleanPath p \<noteq> []"
  by (simp add: cleanPath_def path_Clean_def Let_def)

definition allowed :: "bytes list \<Rightarrow> bytes list" where
  "allowed segs =
     (if segs = [''api'', ''requests''] then [''DELETE'', ''GET'', ''HEAD'', ''POST''] else [''GET'', ''HEAD''])"

lemma sort_allowed:
  "sort [''HEAD'', ''GET'', ''POST'', ''DELETE''] = [''DELETE'', ''GET'', ''HEAD'', ''POST'']"
  "sort [''HEAD'', ''GET''] = [''GET'', ''HEAD'']"
  by code_simp+

lemma matchingMethods_router: "matchingMethods router p = allowed (path_segments p)"
proof -
  let ?ps = "if HasSuffix p ''/'' then [p] else [p, p @ ''/'']"
  have g: "\<exists>q \<in> set ?ps. match_method router ''GET'' q \<noteq> None"
  proof -
    let ?q = "if HasSuffix p ''/'' then p else p @ ''/''"
    have "?q \<noteq> []" "?q \<in> set ?ps" by (auto simp: HasSuffix_def)
    with match_get [of ?q] show ?thesis by blast
  qed
  have "path_segments (p @ ''/'') \<noteq> [''api'', ''requests'']" using last_segment [of "p @ ''/''"] by auto
  then have m: "(\<exists>q \<in> set ?ps. match_method router m q \<noteq> None) \<longleftrightarrow> path_segments p = [''api'', ''requests'']"
    if "m = ''POST'' \<or> m = ''DELETE''" for m
    using match_post [OF that] by auto
  have k: "map fst router = [''GET'', ''POST'', ''DELETE'']" by (simp add: router_eval)
  show ?thesis
    unfolding matchingMethods_def Let_def k using g m [of "''POST''"] m [of "''DELETE''"]
    by (auto simp: allowed_def list_ex_iff sort_allowed List.insert_def simp del: sort_key_simps)
qed

lemma find_handler_router:
  "find_handler router verb u =
     (let ep = EscapedPath u; segs = path_segments ep in
      if Path u = ''*'' then Asterisk
      else if verb \<noteq> ''CONNECT'' \<and> cleanPath ep \<noteq> ep then Moved (cleanPath ep)
      else if verb \<in> {''GET'', ''HEAD''} then (case get_target segs of (h, vs) \<Rightarrow> Found h vs)
      else if verb = ''POST'' \<and> segs = [''api'', ''requests''] then Found ReplayRequest []
      else if verb = ''DELETE'' \<and> segs = [''api'', ''requests''] then Found ClearRequests []
      else NotAllowed (if segs = [''api'', ''requests''] then [''DELETE'', ''GET'', ''HEAD'', ''POST''] else [''GET'', ''HEAD'']))"
proof -
  let ?ep = "EscapedPath u"
  have no_match: "mux_match router verb ?ep = None" if "verb \<notin> {''GET'', ''HEAD'', ''POST'', ''DELETE''}"
    using that match_other [of verb] by (simp add: mux_match_def)
  have found: "\<exists>ns vs. mux_match router verb ?ep = Some ((ns, fst (get_target (path_segments ?ep))), vs) \<and>
      zip ns vs = snd (get_target (path_segments ?ep))"
    if "verb = ''GET'' \<or> verb = ''HEAD''" "cleanPath ?ep = ?ep"
  proof -
    have "?ep \<noteq> []" using that(2) cleanPath_nonempty by metis
    from match_get [OF this] that(1) match_other [of "''HEAD''"] show ?thesis by (auto simp: mux_match_def)
  qed
  consider (get) "verb = ''GET'' \<or> verb = ''HEAD''" | (unsafe) "verb = ''POST'' \<or> verb = ''DELETE''"
    | (other) "verb \<notin> {''GET'', ''HEAD'', ''POST'', ''DELETE''}" by blast
  then show ?thesis
  proof cases
    case get
    show ?thesis
    proof (cases "cleanPath ?ep = ?ep")
      case True
      from found [OF get True] obtain ns vs where
        "mux_match router verb ?ep = Some ((ns, fst (get_target (path_segments ?ep))), vs)"
        "zip ns vs = snd (get_target (path_segments ?ep))" by blast
      with get True show ?thesis by (simp add: find_handler_def Let_def case_prod_beta)
    qed (use get in \<open>auto simp: find_handler_def Let_def\<close>)
  next
    case unsafe
    have "mux_match router verb ?ep = match_method router verb ?ep"
      using unsafe by (auto simp: mux_match_def split: option.split)
    with unsafe match_post [OF unsafe, of ?ep] show ?thesis
      by (auto simp: find_handler_def Let_def matchingMethods_router allowed_def)
  next
    case other
    have "find_handler router verb u =
      (if Path u = ''*'' then Asterisk
       else if verb \<noteq> ''CONNECT'' \<and> cleanPath ?ep \<noteq> ?ep then Moved (cleanPath ?ep)
       else NotAllowed (allowed (path_segments ?ep)))"
    proof (cases "verb \<noteq> ''CONNECT'' \<and> cleanPath ?ep \<noteq> ?ep")
      case True
      then show ?thesis by (simp add: find_handler_def Let_def)
    next
      case False
      then have p: "(if verb = ''CONNECT'' then ?ep else cleanPath ?ep) = ?ep" by auto
      show ?thesis
        by (simp only: find_handler_def Let_def p False no_match [OF other] matchingMethods_router if_False
            not_True_eq_False simp_thms option.case allowed_def)
          (simp split: list.split)
    qed
    with other show ?thesis by (simp add: allowed_def)
  qed
qed

text \<open>
  C22. The router is its table. For every method and URL: a path that is not clean is redirected to
  the clean one; GET and HEAD reach the handler of the pattern the path's segments match, with the
  values of its wildcards, and the file server when there is none; POST and DELETE reach replaying and
  clearing on \<open>/api/requests\<close> alone; and everything else is refused with exactly the methods that would do.
  The mux is the tree that registering the program's patterns in order builds.
\<close>

theorem routing_is_the_table:
  "find_handler router verb u =
     (let ep = EscapedPath u; segs = path_segments ep in
      if Path u = ''*'' then Asterisk
      else if verb \<noteq> ''CONNECT'' \<and> cleanPath ep \<noteq> ep then Moved (cleanPath ep)
      else if verb \<in> {''GET'', ''HEAD''} then (case get_target segs of (h, vs) \<Rightarrow> Found h vs)
      else if verb = ''POST'' \<and> segs = [''api'', ''requests''] then Found ReplayRequest []
      else if verb = ''DELETE'' \<and> segs = [''api'', ''requests''] then Found ClearRequests []
      else NotAllowed (if segs = [''api'', ''requests''] then [''DELETE'', ''GET'', ''HEAD'', ''POST''] else [''GET'', ''HEAD'']))"
  by (rule find_handler_router)

section \<open>The handler\<close>

text \<open>
  What serving a request comes to: an answer, or a stream on a subscription of the broker. The
  redirection to the clean path and the file server over the embedded assets are the library's:
  \<open>redirect\<close> and \<open>files\<close> stand for what they write.
\<close>

datatype served = Answered answer | Streaming nat unsubscriber

definition path_value :: "bytes \<Rightarrow> (bytes \<times> bytes) list \<Rightarrow> bytes" where
  "path_value n vs = (case map_of vs n of None \<Rightarrow> [] | Some v \<Rightarrow> v)"

definition asterisk_answer :: answer where
  "asterisk_answer = \<lparr>an_Status = 400, an_Header = [(''Connection'', [''close''])], an_Body = []\<rparr>"

definition not_allowed :: "bytes list \<Rightarrow> answer" where
  "not_allowed ms =
     (let a = http_Error ''Method Not Allowed'' 405
      in a\<lparr>an_Header := header_Set ''Allow'' (Join ms '', '') (an_Header a)\<rparr>)"

record 'x web_env =
  we_os :: os_env
  we_now :: gotime
  we_random :: "bytes option"
  we_error :: "replay_error option \<Rightarrow> bytes"
  we_redirect :: "'x request \<Rightarrow> bytes \<Rightarrow> answer"
  we_files :: "'x request \<Rightarrow> answer"

text \<open>One endpoint, with the values of its wildcards.\<close>

definition endpoint_serve ::
  "'db engine \<Rightarrow> bytes \<Rightarrow> 'x web_env \<Rightarrow> 'x request \<Rightarrow> endpoint \<Rightarrow> (bytes \<times> bytes) list \<Rightarrow> 'db store
     \<Rightarrow> served \<times> job option \<times> 'db store" where
  "endpoint_serve exec tgt env q ep vs s =
     (case ep of
        ListRequests \<Rightarrow> (case listRequests exec (RawQuery (rq_URL q)) s of (a, s') \<Rightarrow> (Answered a, None, s'))
      | ReplayRequest \<Rightarrow>
          (case replayRequest_handler (we_error env) (we_now env) (we_random env) (we_os env) (rq_Body q) s of
             (a, j, s') \<Rightarrow> (Answered a, j, s'))
      | ClearRequests \<Rightarrow> (case clearRequests exec (we_os env) s of (a, s') \<Rightarrow> (Answered a, None, s'))
      | GetRequest \<Rightarrow> (case getRequest exec (path_value ''id'' vs) s of (a, s') \<Rightarrow> (Answered a, None, s'))
      | GetBody \<Rightarrow>
          (case getBody exec (we_os env) (path_value ''id'' vs) (path_value ''side'' vs) s of
             (a, s') \<Rightarrow> (Answered a, None, s'))
      | EventStream \<Rightarrow> (case stream_start s of (ch, u, s') \<Rightarrow> (Streaming ch u, None, s'))
      | GetConfig \<Rightarrow> (Answered (getConfig tgt), None, s)
      | DetailPage \<Rightarrow> (Answered (we_files env (q\<lparr>rq_URL := (rq_URL q)\<lparr>Path := ''/''\<rparr>\<rparr>)), None, s)
      | FileServer \<Rightarrow> (Answered (we_files env q), None, s))"

definition Handler ::
  "'db engine \<Rightarrow> bytes \<Rightarrow> 'x web_env \<Rightarrow> 'x request \<Rightarrow> 'db store \<Rightarrow> served \<times> job option \<times> 'db store" where
  "Handler exec tgt env q s =
     (case find_handler router (rq_Method q) (rq_URL q) of
        Found ep vs \<Rightarrow> endpoint_serve exec tgt env q ep vs s
      | Moved p \<Rightarrow> (Answered (we_redirect env q p), None, s)
      | NotAllowed ms \<Rightarrow> (Answered (not_allowed ms), None, s)
      | NoMatch \<Rightarrow> (Answered (http_Error ''404 page not found'' 404), None, s)
      | Asterisk \<Rightarrow> (Answered asterisk_answer, None, s))"

end
