(* ===== verification/Routes_Props.thy ===== *)
theory Routes_Props
  imports Routes
begin

text \<open>
  What the router and the handlers promise together: the links the program hands out lead back to what
  they name, and a request changes no more than its method says.
\<close>

section \<open>Links\<close>

definition plain_segment :: "bytes \<Rightarrow> bool" where
  "plain_segment s \<longleftrightarrow> s \<noteq> [] \<and> list_all alnum s"

definition rooted :: "bytes list \<Rightarrow> bytes" where
  "rooted segs = concat (map ((#) CHR ''/'') segs)"

lemma alnum_not: "alnum c \<Longrightarrow> c \<noteq> CHR ''/'' \<and> c \<noteq> CHR ''%'' \<and> c \<noteq> CHR ''.'' \<and> c \<noteq> CHR ''?'' \<and> c \<noteq> CHR ''#'' \<and> c \<noteq> CHR '':''"
proof -
  have "\<not> alnum d" if "d \<in> {CHR ''/'', CHR ''%'', CHR ''.'', CHR ''?'', CHR ''#'', CHR '':''}" for d
  proof -
    have "list_all (\<lambda>d. \<not> alnum d) ''/%.?#:''" by code_simp
    with that show ?thesis by auto
  qed
  then show "alnum c \<Longrightarrow> ?thesis" by blast
qed

lemma alnum_escape: "alnum c \<or> c = CHR ''/'' \<Longrightarrow> \<not> shouldEscape c encodePath"
  by (auto simp: shouldEscape_def alnum_def between_def)

lemma escape_plain: "list_all (\<lambda>c. alnum c \<or> c = CHR ''/'') p \<Longrightarrow> escape encodePath p = p"
  by (induction p) (auto simp: escape_def alnum_escape)

lemma unescape_plain: "list_all (\<lambda>c. alnum c \<or> c = CHR ''/'') p \<Longrightarrow> url_unescape encodePath p = Some p"
  by (induction p) (auto simp: shown_host_def dest: alnum_not)

lemma rooted_plain: "list_all plain_segment segs \<Longrightarrow> list_all (\<lambda>c. alnum c \<or> c = CHR ''/'') (rooted segs)"
  by (induction segs) (auto simp: rooted_def plain_segment_def list_all_iff)

lemma rooted_simps [simp]: "rooted [] = []" "rooted (s # segs) = CHR ''/'' # s @ rooted segs"
  by (simp_all add: rooted_def)

lemma slash_free: "plain_segment s \<Longrightarrow> CHR ''/'' \<notin> set s"
  by (auto simp: plain_segment_def list_all_iff dest: alnum_not)

lemma takeWhile_segment:
  "plain_segment s \<Longrightarrow> takeWhile (\<lambda>c. c \<noteq> CHR ''/'') (s @ rooted segs) = s"
  "plain_segment s \<Longrightarrow> dropWhile (\<lambda>c. c \<noteq> CHR ''/'') (s @ rooted segs) = rooted segs"
  using slash_free [of s] by (cases segs; force simp: takeWhile_append dropWhile_append)+

lemma path_segments_rooted: "list_all plain_segment segs \<Longrightarrow> path_segments (rooted segs) = segs"
proof (induction segs)
  case (Cons s segs)
  then have "s \<noteq> []" "list_all (\<lambda>c. alnum c \<or> c = CHR ''/'') s"
    by (auto simp: plain_segment_def list_all_iff)
  then have "s \<noteq> []" "pathUnescape s = s" by (simp_all add: pathUnescape_def unescape_plain)
  with Cons show ?case by (subst path_segments.simps) (simp add: takeWhile_segment)
qed (simp add: path_segments.simps)

lemma Split_rooted: "plain_segment s \<Longrightarrow> list_all plain_segment segs \<Longrightarrow> Split CHR ''/'' (s @ rooted segs) = s # segs"
  by (induction segs arbitrary: s) (simp_all add: Split_single Split_append_sep slash_free)

lemma clean_plain: "list_all plain_segment segs \<Longrightarrow> fold clean_segment segs acc = acc @ segs"
proof (induction segs arbitrary: acc)
  case (Cons s segs)
  have "s \<notin> {[], ''.'', ''..''}" using Cons.prems alnum_not [of "CHR ''.''"] by (auto simp: plain_segment_def)
  with Cons show ?case by (simp add: clean_segment_def)
qed simp

lemma Join_rooted: "CHR ''/'' # Join (s # segs) ''/'' = rooted (s # segs)"
  by (induction segs arbitrary: s) auto

lemma cleanPath_rooted:
  assumes "list_all plain_segment (s # segs)"
  shows "cleanPath (rooted (s # segs)) = rooted (s # segs)"
proof -
  have "Split CHR ''/'' (rooted (s # segs)) = [] # s # segs" using assms Split_rooted by simp
  then have "path_Clean (rooted (s # segs)) = CHR ''/'' # Join (s # segs) ''/''"
    using clean_plain [OF assms, of "[]"] by (simp add: path_Clean_def clean_segment_def)
  then have c: "path_Clean (rooted (s # segs)) = rooted (s # segs)" by (simp only: Join_rooted)
  have "last (rooted (s # segs)) \<noteq> CHR ''/''"
    using assms
  proof (induction segs arbitrary: s)
    case Nil
    then have "s \<noteq> []" "CHR ''/'' \<notin> set s" using slash_free [of s] by (simp_all add: plain_segment_def)
    then have "last s \<noteq> CHR ''/''" by (metis last_in_set)
    with \<open>s \<noteq> []\<close> show ?case by simp
  next
    case (Cons t segs)
    then show ?case using Cons.IH [of t] by simp
  qed
  with c show ?thesis by (simp add: cleanPath_def Let_def)
qed

lemma EscapedPath_rooted:
  assumes "list_all plain_segment segs" "Path u = rooted segs" "RawPath u = []"
  shows "EscapedPath u = rooted segs"
  using escape_plain [OF rooted_plain [OF assms(1)]] assms(2,3) by (cases segs) (auto simp: EscapedPath_def)

text \<open>What a client makes of such a link, and where the router sends it.\<close>

lemma url_Parse_path:
  assumes "list_all (\<lambda>c. alnum c \<or> c = CHR ''/'') p" "HasPrefix p ''/''" "\<not> HasPrefix p ''//''"
  shows "url_Parse p = Some (zero_url\<lparr>Path := p\<rparr>)"
proof -
  have free: "CHR ''#'' \<notin> set p" "CHR ''?'' \<notin> set p"
    using assms(1) by (auto simp: list_all_iff dest: alnum_not)
  have "byte CHR ''/'' = 47" by code_simp
  then have "\<not> (byte c < 32 \<or> byte c = 127)" if "alnum c \<or> c = CHR ''/''" for c
    using that by (auto simp: alnum_def between_def)
  with assms(1) have print: "\<not> list_ex (\<lambda>c. byte c < 32 \<or> byte c = 127) p" by (auto simp: list_all_iff list_ex_iff)
  have scheme: "getScheme p = Some ([], p)"
  proof -
    have "\<not> scheme_char (CHR ''/'')" using alnum_not [of "CHR ''/''"] by (auto simp: scheme_char_def)
    then show ?thesis using assms(2) by (cases p) (auto simp: getScheme_def Let_def HasPrefix_def)
  qed
  have star: "p \<noteq> ''*''" using assms(2) by (auto simp: HasPrefix_def)
  have query: "\<not> HasSuffix p ''?''" "Cut p CHR ''?'' = (p, [], False)"
    using free(2) by (auto simp: HasSuffix_def suffix_def Cut_none)
  have "url_parse p = setPath p zero_url"
    using assms(2,3) print star query
    by (simp add: url_parse_def scheme Let_def zero_url_def)
  moreover have "setPath p zero_url = Some (zero_url\<lparr>Path := p\<rparr>)"
    using escape_plain [OF assms(1)] unescape_plain [OF assms(1)] by (simp add: setPath_def zero_url_def)
  ultimately show ?thesis using free(1) by (simp add: url_Parse_def Cut_none)
qed

lemma url_Parse_rooted:
  assumes "list_all plain_segment (s # segs)"
  shows "url_Parse (rooted (s # segs)) = Some (zero_url\<lparr>Path := rooted (s # segs)\<rparr>)"
proof (rule url_Parse_path [OF rooted_plain [OF assms]])
  show "\<not> HasPrefix (rooted (s # segs)) ''//''" using assms slash_free [of s]
    by (cases s) (auto simp: HasPrefix_def plain_segment_def)
qed (simp add: HasPrefix_def)

lemma find_rooted:
  assumes "list_all plain_segment (s # segs)" "get_target (s # segs) = (h, vs)"
    and "url_Parse (rooted (s # segs)) = Some u"
  shows "find_handler router ''GET'' u = Found h vs"
proof -
  have u: "Path u = rooted (s # segs)" "RawPath u = []"
    using assms(3) url_Parse_rooted [OF assms(1)] by (auto simp: zero_url_def simp del: rooted_simps)
  have "Path u \<noteq> ''*''" by (simp add: u)
  moreover have "EscapedPath u = rooted (s # segs)" by (rule EscapedPath_rooted [OF assms(1) u])
  ultimately show ?thesis
    using cleanPath_rooted [OF assms(1)] path_segments_rooted [OF assms(1)] assms(2)
    by (simp add: find_handler_router del: rooted_simps)
qed

lemma newID_plain:
  assumes "newID (Some b) = Inr i" "b \<noteq> []"
  shows "plain_segment i"
proof -
  have "alnum (hex_char n)" if "n < 16" for n
    using that by (simp add: alnum_def between_def byte_def hex_char_def)
  moreover have "byte c div 16 < 16" for c using byte_less [of c] by simp
  ultimately show ?thesis using assms
    by (cases b) (auto simp: newID_def plain_segment_def list_all_iff)
qed

text \<open>What a client gets that follows a link.\<close>

definition follow ::
  "'db engine \<Rightarrow> bytes \<Rightarrow> 'x web_env \<Rightarrow> 'x request \<Rightarrow> bytes \<Rightarrow> 'db store \<Rightarrow> (served \<times> job option \<times> 'db store) option" where
  "follow exec tgt env q link s =
     map_option (\<lambda>u. Handler exec tgt env (q\<lparr>rq_Method := ''GET'', rq_URL := u\<rparr>) s) (url_Parse link)"

lemma follow_rooted:
  assumes "list_all plain_segment (a # segs)" "get_target (a # segs) = (h, vs)" "link = rooted (a # segs)"
  shows "follow exec tgt env q link s =
    Some (endpoint_serve exec tgt env (q\<lparr>rq_Method := ''GET'', rq_URL := zero_url\<lparr>Path := link\<rparr>\<rparr>) h vs s)"
  using url_Parse_rooted [OF assms(1)] find_rooted [OF assms(1,2)]
  by (simp add: follow_def Handler_def assms(3) del: rooted_simps)

text \<open>
  C24. The links the program hands out lead back to what they name. For an entry with an id the store
  drew, the URL a detail gives for a raw body parses, and a GET of it is answered by the body handler for
  this id and side; the entry's own URL leads to its detail; and the path the proxy announces in
  \<open>X-Debug-Url\<close> is the document of the interface.
\<close>

theorem links_lead_back:
  assumes "newID (Some b) = Inr (ID e)" "b \<noteq> []" "sd = SideRequest \<or> sd = SideResponse"
  shows "follow exec tgt env q (bp_URL (newBodyPayload e sd)) s =
      Some (case getBody exec (we_os env) (ID e) sd s of (a, s') \<Rightarrow> (Answered a, None, s')) \<and>
    follow exec tgt env q (''/api/requests/'' @ ID e) s =
      Some (case getRequest exec (ID e) s of (a, s') \<Rightarrow> (Answered a, None, s')) \<and>
    follow exec tgt env q (''/r/'' @ ID e) s =
      Some (Answered (we_files env (q\<lparr>rq_Method := ''GET'', rq_URL := zero_url\<lparr>Path := ''/''\<rparr>\<rparr>)), None, s)"
proof (intro conjI)
  have id: "plain_segment (ID e)" by (rule newID_plain [OF assms(1,2)])
  have words: "list_all plain_segment [''api'', ''requests'', ''body'', ''r'', SideRequest, SideResponse]"
    unfolding side_defs by code_simp
  then have sd: "plain_segment sd" using assms(3) by auto
  have no_slash: "ID e \<noteq> ''/''" "sd \<noteq> ''/''" using slash_free [OF id] slash_free [OF sd] by auto
  have "bp_URL (newBodyPayload e sd) = rooted [''api'', ''requests'', ID e, ''body'', sd]"
    by (simp add: newBodyPayload_def Let_def split: prod.split)
  from follow_rooted [OF _ _ this, of GetBody "[(''id'', ID e), (''side'', sd)]"] no_slash id sd words
  show "follow exec tgt env q (bp_URL (newBodyPayload e sd)) s =
      Some (case getBody exec (we_os env) (ID e) sd s of (a, s') \<Rightarrow> (Answered a, None, s'))"
    by (simp add: get_target_def endpoint_serve_def path_value_def)
  have "''/api/requests/'' @ ID e = rooted [''api'', ''requests'', ID e]" by simp
  from follow_rooted [OF _ _ this, of GetRequest "[(''id'', ID e)]"] no_slash id words
  show "follow exec tgt env q (''/api/requests/'' @ ID e) s =
      Some (case getRequest exec (ID e) s of (a, s') \<Rightarrow> (Answered a, None, s'))"
    by (simp add: get_target_def endpoint_serve_def path_value_def)
  have "''/r/'' @ ID e = rooted [''r'', ID e]" by simp
  from follow_rooted [OF _ _ this, of DetailPage "[(''id'', ID e)]"] no_slash id words
  show "follow exec tgt env q (''/r/'' @ ID e) s =
      Some (Answered (we_files env (q\<lparr>rq_Method := ''GET'', rq_URL := zero_url\<lparr>Path := ''/''\<rparr>\<rparr>)), None, s)"
    by (simp add: get_target_def endpoint_serve_def)
qed

text \<open>A server whose assets and redirections are empty answers, and a request for its root.\<close>

definition small_web :: "unit web_env" where
  "small_web = \<lparr>we_os = os_fine, we_now = Time 9, we_random = None, we_error = (\<lambda>_. ''refused''),
     we_redirect = (\<lambda>_ _. http_Error [] 301), we_files = (\<lambda>_. http_Error [] 200)\<rparr>"

definition small_request :: "unit request" where
  "small_request = \<lparr>rq_Method = ''GET'', rq_URL = zero_url\<lparr>Path := ''/''\<rparr>, rq_Host = ''localhost'', rq_Header = [],
     rq_Body = [], rq_client = None, rq_ctx = None\<rparr>"

lemma links_lead_back_witness:
  "\<exists>a s'. follow table_exec [] small_web small_request
      (bp_URL (newBodyPayload (zero_entry\<lparr>ID := ''1f''\<rparr>) SideResponse)) one_store = Some (Answered a, None, s') \<and>
    an_Status a = 200 \<and> an_Body a = ''abcdef''"
proof -
  let ?e = "zero_entry\<lparr>ID := ''1f''\<rparr>"
  have "newID (Some [CHR 0x1F]) = Inr ''1f''" by code_simp
  then have new: "newID (Some [CHR 0x1F]) = Inr (ID ?e)" by simp
  obtain a s' where b: "getBody table_exec os_fine ''1f'' SideResponse one_store = (a, s')" by fastforce
  have "an_Status (fst (getBody table_exec os_fine ''1f'' SideResponse one_store)) = 200 \<and>
      an_Body (fst (getBody table_exec os_fine ''1f'' SideResponse one_store)) = ''abcdef''" by code_simp
  with links_lead_back [OF new _ disjI2 [OF refl], of table_exec "[]" small_web small_request one_store] b
  show ?thesis by (simp add: small_web_def)
qed

section \<open>What a request may change\<close>

lemma found_cases:
  assumes "find_handler router m u = Found ep vs"
  defines "segs \<equiv> path_segments (EscapedPath u)"
  shows "ep = ReplayRequest \<Longrightarrow> m = ''POST'' \<and> segs = [''api'', ''requests'']"
    "ep = ClearRequests \<Longrightarrow> m = ''DELETE'' \<and> segs = [''api'', ''requests'']"
    "ep = EventStream \<Longrightarrow> m \<in> {''GET'', ''HEAD''} \<and> segs = [''api'', ''events'']"
proof -
  have t: "fst (get_target segs) \<notin> {ReplayRequest, ClearRequests}"
    "fst (get_target segs) = EventStream \<Longrightarrow> segs = [''api'', ''events'']"
    by (auto simp: get_target_def split: list.splits if_splits)
  have "(ep = ReplayRequest \<longrightarrow> m = ''POST'' \<and> segs = [''api'', ''requests'']) \<and>
    (ep = ClearRequests \<longrightarrow> m = ''DELETE'' \<and> segs = [''api'', ''requests'']) \<and>
    (ep = EventStream \<longrightarrow> m \<in> {''GET'', ''HEAD''} \<and> segs = [''api'', ''events''])"
    using assms(1) t unfolding find_handler_router Let_def segs_def [symmetric]
    by (cases "get_target segs") (auto split: if_splits)
  then show "ep = ReplayRequest \<Longrightarrow> m = ''POST'' \<and> segs = [''api'', ''requests'']"
    "ep = ClearRequests \<Longrightarrow> m = ''DELETE'' \<and> segs = [''api'', ''requests'']"
    "ep = EventStream \<Longrightarrow> m \<in> {''GET'', ''HEAD''} \<and> segs = [''api'', ''events'']"
    by blast+
qed

lemma Replay_frame:
  fixes s :: "'db store"
  assumes "Replay now rnd env r s = (out, j, s')"
  shows "db s' = db s"
proof -
  have "db s1 = db s" if "Put now rnd e s = (x, s1)" for e x s1
    using history_of_calls(1) [of now rnd e s] that by (simp add: history_of_def)
  moreover have "db (snd (SetRequestBody env i p s1)) = db s1" for i p and s1 :: "'db store"
    using history_of_calls(2) [of env i p s1] by (simp add: history_of_def)
  ultimately show ?thesis
    using assms by (auto simp: Replay_def Let_def split: option.splits if_splits sum.splits prod.splits)
qed

lemma Clear_frame:
  assumes "Clear exec env s = (r, s')"
  shows "mem s' = mem s"
proof -
  have "mem (fold (\<lambda>i. publish ty i e c) ids s) = mem s" for ty e c ids and s :: "'a store"
    by (induction ids arbitrary: s) (simp_all add: publish_def)
  with assms show ?thesis by (auto simp: Clear_def split: prod.splits sum.splits)
qed

text \<open>A state that differs from another by what the engine keeps beside its table.\<close>

definition only_read :: "('db \<Rightarrow> bytes \<Rightarrow> row option) \<Rightarrow> 'db store \<Rightarrow> 'db store \<Rightarrow> bool" where
  "only_read tbl s s' \<longleftrightarrow> (\<exists>d. s' = s\<lparr>db := d\<rparr> \<and> tbl d = tbl (db s))"

lemma only_read_refl [simp]: "only_read tbl s s"
  by (auto simp: only_read_def intro: exI [of _ "db s"])

lemma only_read_db: "tbl d = tbl (db s) \<Longrightarrow> only_read tbl s (s\<lparr>db := d\<rparr>)"
  by (auto simp: only_read_def)

context sql_engine
begin

lemma only_read_Get: "Get exec i s = (r, s') \<Longrightarrow> only_read tbl s s'"
  by (auto simp: Get_def intro: only_read_db dest: db_get_cases(1) split: option.splits prod.splits)

lemma only_read_trans: "only_read tbl s s' \<Longrightarrow> only_read tbl s' s'' \<Longrightarrow> only_read tbl s s''"
  by (auto simp: only_read_def)

lemma only_read_Body: "Body exec env i sd s = (r, s') \<Longrightarrow> only_read tbl s s'"
proof -
  assume b: "Body exec env i sd s = (r, s')"
  obtain x s1 where g: "Get exec i s = (x, s1)" by fastforce
  with b have "s' = s1" by (auto simp: Body_def Let_def split: sum.splits prod.splits if_splits)
  with only_read_Get [OF g] show ?thesis by simp
qed

lemma only_read_listRequests: "listRequests exec query s = (a, s') \<Longrightarrow> only_read tbl s s'"
proof -
  have "only_read tbl s s'" if "List exec n before s = (r, s')" for n before r s'
    using that by (auto simp: List_def Let_def intro: only_read_db dest: db_list_cases(1) split: prod.splits sum.splits)
  then show "listRequests exec query s = (a, s') \<Longrightarrow> only_read tbl s s'"
    by (auto simp: listRequests_def split: option.splits prod.splits sum.splits)
qed

lemma only_read_getRequest: "getRequest exec i s = (a, s') \<Longrightarrow> only_read tbl s s'"
  using only_read_Get by (auto simp: getRequest_def split: prod.splits sum.splits)

lemma only_read_getBody:
  assumes "getBody exec env i sd s = (a, s')"
  shows "only_read tbl s s'"
proof -
  obtain x s1 where g: "Get exec i s = (x, s1)" by fastforce
  obtain y s2 where b: "Body exec env i sd s1 = (y, s2)" by fastforce
  have "s' \<in> {s, s1, s2}" using assms by (auto simp: getBody_def g b Let_def split: if_splits sum.splits prod.splits)
  then show ?thesis
    using only_read_Get [OF g] only_read_trans [OF only_read_Get [OF g] only_read_Body [OF b]] by auto
qed

lemma endpoint_changes:
  assumes "endpoint_serve exec tgt env q ep vs s = (out, j, s')"
  shows "ep \<notin> {ReplayRequest, ClearRequests, EventStream} \<Longrightarrow> only_read tbl s s' \<and> j = None \<and> (\<exists>a. out = Answered a)"
    "ep = ReplayRequest \<Longrightarrow> db s' = db s \<and> (\<exists>a. out = Answered a)"
    "ep = ClearRequests \<Longrightarrow> mem s' = mem s \<and> j = None \<and> (\<exists>a. out = Answered a)"
    "ep = EventStream \<Longrightarrow> (\<exists>b. s' = s\<lparr>events := b\<rparr>) \<and> j = None"
proof -
  show "ep \<notin> {ReplayRequest, ClearRequests, EventStream} \<Longrightarrow> only_read tbl s s' \<and> j = None \<and> (\<exists>a. out = Answered a)"
    using assms by (cases ep) (auto simp: endpoint_serve_def dest: only_read_listRequests only_read_getRequest
      only_read_getBody split: prod.splits)
  show "ep = ReplayRequest \<Longrightarrow> db s' = db s \<and> (\<exists>a. out = Answered a)"
    using assms by (auto simp: endpoint_serve_def replayRequest_handler_def dest!: Replay_frame
      split: prod.splits option.splits sum.splits)
  show "ep = ClearRequests \<Longrightarrow> mem s' = mem s \<and> j = None \<and> (\<exists>a. out = Answered a)"
    using assms by (auto simp: endpoint_serve_def clearRequests_def dest!: Clear_frame split: prod.splits sum.splits)
  show "ep = EventStream \<Longrightarrow> (\<exists>b. s' = s\<lparr>events := b\<rparr>) \<and> j = None"
    using assms by (auto simp: endpoint_serve_def stream_start_def split: prod.splits)
qed

end

text \<open>
  C23. A request changes no more than its method says. Whatever the request and whichever calls fail:
  only a POST to \<open>/api/requests\<close> starts a job or touches the entries in flight; only a DELETE of it
  removes rows; only these two change files; and only a GET or HEAD of \<open>/api/events\<close> opens a stream.
  (The path is compared by its unescaped segments.)
\<close>

theorem requests_change_what_they_say:
  assumes "sql_engine exec tbl" "Handler exec tgt env q s = (out, j, s')"
  defines "segs \<equiv> path_segments (EscapedPath (rq_URL q))"
  shows "(j \<noteq> None \<or> mem s' \<noteq> mem s \<longrightarrow> rq_Method q = ''POST'' \<and> segs = [''api'', ''requests'']) \<and>
    (tbl (db s') \<noteq> tbl (db s) \<longrightarrow> rq_Method q = ''DELETE'' \<and> segs = [''api'', ''requests'']) \<and>
    (files s' \<noteq> files s \<longrightarrow> rq_Method q \<in> {''POST'', ''DELETE''} \<and> segs = [''api'', ''requests'']) \<and>
    ((\<exists>ch u. out = Streaming ch u) \<longrightarrow> rq_Method q \<in> {''GET'', ''HEAD''} \<and> segs = [''api'', ''events''])"
proof (cases "find_handler router (rq_Method q) (rq_URL q)")
  case (Found ep vs)
  note F = found_cases [OF Found, folded segs_def]
  have e: "endpoint_serve exec tgt env q ep vs s = (out, j, s')" using assms(2) Found by (simp add: Handler_def)
  note E = sql_engine.endpoint_changes [OF assms(1) e]
  consider "ep \<notin> {ReplayRequest, ClearRequests, EventStream}" | "ep = ReplayRequest" | "ep = ClearRequests"
    | "ep = EventStream" by blast
  then show ?thesis
  proof cases
    case 1
    with E(1) show ?thesis by (auto simp: only_read_def)
  next
    case 2
    with E(2) F(1) show ?thesis by auto
  next
    case 3
    with E(3) F(2) show ?thesis by auto
  next
    case 4
    from E(4) [OF 4] obtain b where "s' = s\<lparr>events := b\<rparr>" "j = None" by blast
    with F(3) [OF 4] show ?thesis by simp
  qed
qed (use assms(2) in \<open>auto simp: Handler_def\<close>)

lemma requests_change_what_they_say_witness:
  "mem (snd (snd (Handler table_exec [] small_web small_request one_store))) = mem one_store \<and>
   fst (snd (Handler table_exec [] small_web small_request one_store)) = None"
proof -
  obtain out j s' where h: "Handler table_exec [] small_web small_request one_store = (out, j, s')"
    by (rule prod_cases3)
  have get: "rq_Method small_request = ''GET''" by (simp add: small_request_def)
  from requests_change_what_they_say [OF table.sql_engine_axioms h] show ?thesis
    by (simp add: h get)
qed

end
