(* ===== verification/Debugproxy.thy ===== *)
theory Debugproxy
  imports Web
begin

text \<open>
  \<open>cmd/debugproxy/main.go\<close>: the configuration read from the environment, the start-up that wires
  the store, the proxy and the interface together, and the sweeper of stale entries. The environment
  is the function \<open>getenv\<close>, which gives the empty string for a variable that is not set; \<open>frac\<close> is the
  rounding of \<^const>\<open>ParseDuration\<close>.
\<close>

section \<open>The environment\<close>

datatype config_error =
    TargetRequired
  | TargetNotAbsolute bytes
  | NotPositiveInteger bytes bytes
  | NotPositiveDuration bytes bytes
  | NotBoolean bytes bytes

definition envString :: "(bytes \<Rightarrow> bytes) \<Rightarrow> bytes \<Rightarrow> bytes \<Rightarrow> bytes" where
  "envString getenv name fallback = (let v = getenv name in if v \<noteq> [] then v else fallback)"

text \<open>On an error the Go functions also return the fallback, which no caller uses.\<close>

definition envInt64 :: "(bytes \<Rightarrow> bytes) \<Rightarrow> bytes \<Rightarrow> int \<Rightarrow> config_error + int" where
  "envInt64 getenv name fallback =
     (let raw = getenv name
      in if raw = [] then Inr fallback
         else case ParseInt raw of
           None \<Rightarrow> Inl (NotPositiveInteger name raw)
         | Some n \<Rightarrow> if n \<le> 0 then Inl (NotPositiveInteger name raw) else Inr n)"

text \<open>An \<open>int\<close> has 64 bits on the platforms the program is built for, so the conversions keep the value.\<close>

definition envInt :: "(bytes \<Rightarrow> bytes) \<Rightarrow> bytes \<Rightarrow> int \<Rightarrow> config_error + int" where
  "envInt getenv name fallback = envInt64 getenv name fallback"

definition envDuration ::
  "(int \<Rightarrow> int \<Rightarrow> int \<Rightarrow> nat) \<Rightarrow> (bytes \<Rightarrow> bytes) \<Rightarrow> bytes \<Rightarrow> int \<Rightarrow> config_error + int" where
  "envDuration frac getenv name fallback =
     (let raw = getenv name
      in if raw = [] then Inr fallback
         else case ParseDuration frac raw of
           None \<Rightarrow> Inl (NotPositiveDuration name raw)
         | Some d \<Rightarrow> if d \<le> 0 then Inl (NotPositiveDuration name raw) else Inr d)"

definition envBool :: "(bytes \<Rightarrow> bytes) \<Rightarrow> bytes \<Rightarrow> bool \<Rightarrow> config_error + bool" where
  "envBool getenv name fallback =
     (let raw = getenv name
      in if raw = [] then Inr fallback
         else case ParseBool raw of None \<Rightarrow> Inl (NotBoolean name raw) | Some b \<Rightarrow> Inr b)"

definition defaultPublicURL :: "bytes \<Rightarrow> bytes" where
  "defaultPublicURL webAddr =
     (case Cut webAddr CHR '':'' of (host, port, found) \<Rightarrow>
        if \<not> found then ''http://localhost'' @ webAddr
        else let host = (if host = [] \<or> host = ''0.0.0.0'' \<or> host = ''[::]'' then ''localhost'' else host)
             in ''http://'' @ host @ '':'' @ port)"

section \<open>The configuration\<close>

record settings =
  TargetURL :: bytes
  ListenAddr :: bytes
  WebAddr :: bytes
  cf_PublicURL :: bytes
  cf_DataDir :: bytes
  cf_MaxInlineBodySize :: int
  cf_MaxEntries :: int
  PendingTimeout :: int
  cf_SetDebugCookie :: bool

definition loadConfig ::
  "(int \<Rightarrow> int \<Rightarrow> int \<Rightarrow> nat) \<Rightarrow> (bytes \<Rightarrow> bytes) \<Rightarrow> config_error + settings" where
  "loadConfig frac getenv =
     (let cfg = \<lparr>TargetURL = getenv ''TARGET_URL'', ListenAddr = envString getenv ''LISTEN_ADDR'' '':8080'',
            WebAddr = envString getenv ''WEB_ADDR'' '':8081'', cf_PublicURL = [],
            cf_DataDir = envString getenv ''DATA_DIR'' ''/data'', cf_MaxInlineBodySize = 1048576,
            cf_MaxEntries = 1000, PendingTimeout = 300000000000, cf_SetDebugCookie = False\<rparr>
      in if TargetURL cfg = [] then Inl TargetRequired
         else case url_Parse (TargetURL cfg) of
           None \<Rightarrow> Inl (TargetNotAbsolute (TargetURL cfg))
         | Some tgt \<Rightarrow>
           (if \<not> IsAbs tgt \<or> Host tgt = [] then Inl (TargetNotAbsolute (TargetURL cfg))
            else let cfg = cfg\<lparr>cf_PublicURL := envString getenv ''PUBLIC_URL'' (defaultPublicURL (WebAddr cfg))\<rparr>
            in case envInt64 getenv ''MAX_INLINE_BODY_SIZE'' (cf_MaxInlineBodySize cfg) of
              Inl e \<Rightarrow> Inl e
            | Inr inline \<Rightarrow>
           (case envInt getenv ''MAX_ENTRIES'' (cf_MaxEntries cfg) of
              Inl e \<Rightarrow> Inl e
            | Inr entries \<Rightarrow>
           (case envDuration frac getenv ''PENDING_TIMEOUT'' (PendingTimeout cfg) of
              Inl e \<Rightarrow> Inl e
            | Inr timeout \<Rightarrow>
           (case envBool getenv ''SET_DEBUG_COOKIE'' False of
              Inl e \<Rightarrow> Inl e
            | Inr cookie \<Rightarrow>
              Inr (cfg\<lparr>cf_MaxInlineBodySize := inline, cf_MaxEntries := entries,
                    PendingTimeout := timeout, cf_SetDebugCookie := cookie\<rparr>))))))"

section \<open>The sweeper\<close>

definition sweep_interval :: "int \<Rightarrow> int" where
  "sweep_interval timeout =
     (let interval = go_div timeout 2;
          interval = (if interval < 5000000000 then 5000000000 else interval)
      in if interval > 60000000000 then 60000000000 else interval)"

text \<open>
  The loop of \<open>sweepPending\<close>: a turn either finds the context done or a tick, at the clock's
  reading, with the outcome of its system calls.
\<close>

datatype sweep_turn = SweepTick os_env gotime | SweepDone

fun sweepPending :: "'db engine \<Rightarrow> int \<Rightarrow> sweep_turn list \<Rightarrow> 'db store \<Rightarrow> 'db store" where
  "sweepPending exec timeout [] s = s"
| "sweepPending exec timeout (SweepDone # ts) s = s"
| "sweepPending exec timeout (SweepTick env now # ts) s =
     sweepPending exec timeout ts (snd (SweepPending exec env now timeout s))"

section \<open>Starting and stopping\<close>

text \<open>What \<open>run\<close> has made when the two servers start.\<close>

record 'db service =
  sv_store :: "'db store"
  sv_proxy :: config
  sv_target :: bytes
  sv_listen :: bytes
  sv_web :: bytes
  sv_timeout :: int

datatype run_error = BadConfig config_error | BadTarget | NoStore go_error | ServerFailed bytes bytes bytes

definition start_service ::
  "(int \<Rightarrow> int \<Rightarrow> int \<Rightarrow> nat) \<Rightarrow> 'db engine \<Rightarrow> (bytes \<Rightarrow> bytes) \<Rightarrow> os_env \<Rightarrow> fs \<Rightarrow> 'db
     \<Rightarrow> run_error + 'db service" where
  "start_service frac exec getenv env fs d =
     (case loadConfig frac getenv of
        Inl e \<Rightarrow> Inl (BadConfig e)
      | Inr cfg \<Rightarrow>
        (case url_Parse (TargetURL cfg) of
           None \<Rightarrow> Inl BadTarget
         | Some tgt \<Rightarrow>
           (case New exec env \<lparr>DataDir = cf_DataDir cfg, MaxInlineBodySize = cf_MaxInlineBodySize cfg,
                   MaxEntries = cf_MaxEntries cfg\<rparr> fs d of
              Inl e \<Rightarrow> Inl (NoStore e)
            | Inr st \<Rightarrow>
              Inr \<lparr>sv_store = st,
                sv_proxy = \<lparr>Target = tgt, PublicURL = cf_PublicURL cfg, SetDebugCookie = cf_SetDebugCookie cfg\<rparr>,
                sv_target = TargetURL cfg, sv_listen = ListenAddr cfg, sv_web = WebAddr cfg,
                sv_timeout = PendingTimeout cfg\<rparr>)))"

text \<open>
  \<open>serve\<close>: what it sends on the channel when the server ends with the error \<open>e\<close>; \<open>None\<close> is the
  error of a server that was shut down.
\<close>

definition serve :: "bytes \<Rightarrow> bytes \<Rightarrow> bytes option \<Rightarrow> run_error option" where
  "serve name addr e = (case e of None \<Rightarrow> None | Some msg \<Rightarrow> Some (ServerFailed name addr msg))"

text \<open>
  The end of \<open>run\<close>: a signal, or the first error of a server, found while the store had become \<open>s\<close>;
  both servers are shut down and the deferred \<open>Close\<close> runs.
\<close>

datatype stop = Signal | ServerError run_error

definition finish :: "stop \<Rightarrow> 'db store \<Rightarrow> run_error option \<times> 'db store" where
  "finish why s = ((case why of Signal \<Rightarrow> None | ServerError e \<Rightarrow> Some e), Close s)"

text \<open>
  \<open>shutdown\<close>: each server in turn waits for its requests, until the deadline of the one context they
  share, five seconds (in nanoseconds) from the start. A request ends by itself at some time, or, as
  an event stream, not before the store is closed, which is later: \<open>None\<close>. The result is when it returns.
\<close>

definition srv_Shutdown :: "int \<Rightarrow> int option list \<Rightarrow> int \<Rightarrow> int" where
  "srv_Shutdown deadline ends now =
     (if list_all (\<lambda>e. case e of None \<Rightarrow> False | Some t \<Rightarrow> t \<le> deadline) ends
      then fold (\<lambda>e t. case e of None \<Rightarrow> t | Some u \<Rightarrow> max t u) ends now
      else max now deadline)"

definition shutdown :: "int \<Rightarrow> int option list list \<Rightarrow> int" where
  "shutdown now servers = fold (srv_Shutdown (now + 5000000000)) servers now"

text \<open>The exit code of \<open>main\<close>.\<close>

definition main_exit :: "run_error option \<Rightarrow> int" where
  "main_exit r = (case r of None \<Rightarrow> 0 | Some _ \<Rightarrow> 1)"

text \<open>\<open>live\<close> is what the service does to the store between its start and its end.\<close>

definition run_main ::
  "(int \<Rightarrow> int \<Rightarrow> int \<Rightarrow> nat) \<Rightarrow> 'db engine \<Rightarrow> (bytes \<Rightarrow> bytes) \<Rightarrow> os_env \<Rightarrow> fs \<Rightarrow> 'db
     \<Rightarrow> ('db service \<Rightarrow> stop \<times> 'db store) \<Rightarrow> run_error option \<times> 'db store option" where
  "run_main frac exec getenv env fs d live =
     (case start_service frac exec getenv env fs d of
        Inl e \<Rightarrow> (Some e, None)
      | Inr sv \<Rightarrow> (case live sv of (why, s) \<Rightarrow> apsnd Some (finish why s)))"

section \<open>Examples\<close>

definition demo_env :: "bytes \<Rightarrow> bytes" where
  "demo_env name =
     (if name = ''TARGET_URL'' then ''http://localhost:11434'' else if name = ''MAX_ENTRIES'' then ''20'' else [])"

text \<open>The case for the IPv6 wildcard is never reached: the address is cut at its first colon.\<close>

lemma ipv6_wildcard_is_not_local: "defaultPublicURL (''[::]:'' @ port) = ''http://[::]:'' @ port"
  by (simp add: defaultPublicURL_def Cut_def)

lemma test_config:
  "loadConfig exact_frac demo_env = Inr \<lparr>TargetURL = ''http://localhost:11434'', ListenAddr = '':8080'',
     WebAddr = '':8081'', cf_PublicURL = ''http://localhost:8081'', cf_DataDir = ''/data'',
     cf_MaxInlineBodySize = 1048576, cf_MaxEntries = 20, PendingTimeout = 300000000000,
     cf_SetDebugCookie = False\<rparr>"
  "loadConfig exact_frac (demo_env(''TARGET_URL'' := ''localhost:11434'')) =
     Inl (TargetNotAbsolute ''localhost:11434'')"
  "loadConfig exact_frac (demo_env(''MAX_ENTRIES'' := ''0'')) = Inl (NotPositiveInteger ''MAX_ENTRIES'' ''0'')"
  by code_simp+

section \<open>Shutting down\<close>

lemma srv_Shutdown_bounds:
  assumes "now \<le> deadline"
  shows "now \<le> srv_Shutdown deadline ends now" "srv_Shutdown deadline ends now \<le> deadline"
proof -
  have "t \<le> fold (\<lambda>e t. case e of None \<Rightarrow> t | Some u \<Rightarrow> max t u) ends t" for t
  proof (induction ends arbitrary: t)
    case (Cons e es)
    from Cons.IH [of "case e of None \<Rightarrow> t | Some u \<Rightarrow> max t u"] show ?case by (cases e) auto
  qed simp
  moreover have "fold (\<lambda>e t. case e of None \<Rightarrow> t | Some u \<Rightarrow> max t u) ends t \<le> deadline"
    if "t \<le> deadline" "list_all (\<lambda>e. case e of None \<Rightarrow> False | Some t \<Rightarrow> t \<le> deadline) ends" for t
    using that by (induction ends arbitrary: t) (auto split: option.splits)
  ultimately show "now \<le> srv_Shutdown deadline ends now" "srv_Shutdown deadline ends now \<le> deadline"
    using assms by (simp_all add: srv_Shutdown_def)
qed

text \<open>It never takes more than five seconds, and all of them while a client follows the event stream.\<close>

lemma open_stream_delays_shutdown:
  "shutdown now servers \<le> now + 5000000000"
  "ends \<in> set servers \<Longrightarrow> None \<in> set ends \<Longrightarrow> shutdown now servers = now + 5000000000"
proof -
  let ?d = "now + 5000000000"
  have b: "t \<le> fold (srv_Shutdown ?d) ss t \<and> fold (srv_Shutdown ?d) ss t \<le> ?d" if "t \<le> ?d" for ss t
    using that
  proof (induction ss arbitrary: t)
    case (Cons e ss)
    from srv_Shutdown_bounds [OF Cons.prems, of e] Cons.IH [of "srv_Shutdown ?d e t"] show ?case by simp
  qed simp
  then show "shutdown now servers \<le> ?d" by (simp add: shutdown_def)
  assume "ends \<in> set servers" "None \<in> set ends"
  then obtain us vs where s: "servers = us @ ends # vs" by (meson split_list)
  let ?t = "fold (srv_Shutdown ?d) us now"
  have "?t \<le> ?d" using b by simp
  then have "srv_Shutdown ?d ends ?t = ?d"
    using \<open>None \<in> set ends\<close> by (auto simp: srv_Shutdown_def list_all_iff)
  with b [of ?d vs] show "shutdown now servers = ?d" by (simp add: shutdown_def s)
qed

end
