(* ===== verification/Debugproxy_Props.thy ===== *)
theory Debugproxy_Props
  imports Debugproxy
begin

text \<open>
  What the command promises: a service starts only with a usable configuration and hands the
  configured limits to its parts unchanged; and an exchange that stays silent is closed within the
  pending timeout and one interval of the sweeper.
\<close>

section \<open>The configuration\<close>

lemma envInt64_iff:
  "envInt64 getenv name d = Inr n \<longleftrightarrow>
     getenv name = [] \<and> n = d \<or> getenv name \<noteq> [] \<and> ParseInt (getenv name) = Some n \<and> 0 < n"
  by (auto simp: envInt64_def Let_def split: option.splits)

lemma envDuration_iff:
  "envDuration frac getenv name d = Inr n \<longleftrightarrow>
     getenv name = [] \<and> n = d \<or> getenv name \<noteq> [] \<and> ParseDuration frac (getenv name) = Some n \<and> 0 < n"
  by (auto simp: envDuration_def Let_def split: option.splits)

lemma loadConfig_ok:
  assumes "loadConfig frac getenv = Inr c"
  shows "TargetURL c = getenv ''TARGET_URL''"
    "\<exists>u. url_Parse (TargetURL c) = Some u \<and> Scheme u \<noteq> [] \<and> Host u \<noteq> []"
    "envInt64 getenv ''MAX_INLINE_BODY_SIZE'' 1048576 = Inr (cf_MaxInlineBodySize c)"
    "envInt64 getenv ''MAX_ENTRIES'' 1000 = Inr (cf_MaxEntries c)"
    "envDuration frac getenv ''PENDING_TIMEOUT'' 300000000000 = Inr (PendingTimeout c)"
    "cf_PublicURL c = envString getenv ''PUBLIC_URL'' (defaultPublicURL (envString getenv ''WEB_ADDR'' '':8081''))"
    "cf_DataDir c \<noteq> []"
proof -
  obtain u where u: "getenv ''TARGET_URL'' \<noteq> []" "url_Parse (getenv ''TARGET_URL'') = Some u"
    "Scheme u \<noteq> []" "Host u \<noteq> []"
    using assms by (auto simp: loadConfig_def Let_def IsAbs_def split: option.splits if_splits)
  obtain m where m: "envInt64 getenv ''MAX_INLINE_BODY_SIZE'' 1048576 = Inr m"
    using assms u by (cases "envInt64 getenv ''MAX_INLINE_BODY_SIZE'' 1048576") (auto simp: loadConfig_def IsAbs_def)
  obtain n where n: "envInt getenv ''MAX_ENTRIES'' 1000 = Inr n"
    using assms u m by (cases "envInt getenv ''MAX_ENTRIES'' 1000") (auto simp: loadConfig_def IsAbs_def)
  obtain t where t: "envDuration frac getenv ''PENDING_TIMEOUT'' 300000000000 = Inr t"
    using assms u m n
    by (cases "envDuration frac getenv ''PENDING_TIMEOUT'' 300000000000") (auto simp: loadConfig_def IsAbs_def)
  obtain b where b: "envBool getenv ''SET_DEBUG_COOKIE'' False = Inr b"
    using assms u m n t by (cases "envBool getenv ''SET_DEBUG_COOKIE'' False") (auto simp: loadConfig_def IsAbs_def)
  have c: "c = \<lparr>TargetURL = getenv ''TARGET_URL'', ListenAddr = envString getenv ''LISTEN_ADDR'' '':8080'',
      WebAddr = envString getenv ''WEB_ADDR'' '':8081'',
      cf_PublicURL = envString getenv ''PUBLIC_URL'' (defaultPublicURL (envString getenv ''WEB_ADDR'' '':8081'')),
      cf_DataDir = envString getenv ''DATA_DIR'' ''/data'', cf_MaxInlineBodySize = m, cf_MaxEntries = n,
      PendingTimeout = t, cf_SetDebugCookie = b\<rparr>"
    using assms u m n t b by (simp add: loadConfig_def IsAbs_def)
  show "TargetURL c = getenv ''TARGET_URL''"
    "\<exists>u. url_Parse (TargetURL c) = Some u \<and> Scheme u \<noteq> [] \<and> Host u \<noteq> []"
    "envInt64 getenv ''MAX_INLINE_BODY_SIZE'' 1048576 = Inr (cf_MaxInlineBodySize c)"
    "envInt64 getenv ''MAX_ENTRIES'' 1000 = Inr (cf_MaxEntries c)"
    "envDuration frac getenv ''PENDING_TIMEOUT'' 300000000000 = Inr (PendingTimeout c)"
    "cf_PublicURL c = envString getenv ''PUBLIC_URL'' (defaultPublicURL (envString getenv ''WEB_ADDR'' '':8081''))"
    using u m n t by (simp_all add: c envInt_def)
  have "cf_DataDir c = envString getenv ''DATA_DIR'' ''/data''" by (simp add: c)
  then show "cf_DataDir c \<noteq> []" by (simp add: envString_def Let_def)
qed

lemma sweep_interval_bounds: "5000000000 \<le> sweep_interval t \<and> sweep_interval t \<le> 60000000000"
  by (simp add: sweep_interval_def Let_def)

lemma New_limits:
  assumes "New exec env opts fs d = Inr s"
  shows "0 < MaxInlineBodySize opts \<Longrightarrow> maxInline (blobs s) = MaxInlineBodySize opts"
    "0 < MaxEntries opts \<Longrightarrow> maxEntries s = MaxEntries opts"
  using assms by (auto simp: New_def newBlobStore_def Let_def split: sum.splits prod.splits if_splits)

text \<open>
  C32. A service that starts is configured as the environment says: its target is an absolute URL with
  a host; the inline threshold, the retention cap and the pending timeout are positive 64-bit
  numbers, the ones given or, for an unset variable, 1 MiB, 1000 and five minutes; the store works
  with exactly these and never with a default of its own; and the sweeper waits at least
  5 seconds and at most a minute from one sweep to the next.
\<close>

theorem service_is_configured:
  assumes "start_service frac exec getenv env fs d = Inr sv"
  defines "given \<equiv> \<lambda>name parse default.
    if getenv name = [] then default else the (parse (getenv name) :: int option)"
  shows "(\<exists>u. url_Parse (getenv ''TARGET_URL'') = Some u \<and> Target (sv_proxy sv) = u \<and>
      Scheme u \<noteq> [] \<and> Host u \<noteq> []) \<and> sv_target sv = getenv ''TARGET_URL'' \<and>
    maxInline (blobs (sv_store sv)) = given ''MAX_INLINE_BODY_SIZE'' ParseInt 1048576 \<and>
    maxEntries (sv_store sv) = given ''MAX_ENTRIES'' ParseInt 1000 \<and>
    sv_timeout sv = given ''PENDING_TIMEOUT'' (ParseDuration frac) 300000000000 \<and>
    {maxInline (blobs (sv_store sv)), maxEntries (sv_store sv), sv_timeout sv} \<subseteq> {1..max_int64} \<and>
    sweep_interval (sv_timeout sv) \<in> {5000000000..60000000000}"
proof -
  obtain c u st where c: "loadConfig frac getenv = Inr c" "url_Parse (TargetURL c) = Some u"
    "New exec env \<lparr>DataDir = cf_DataDir c, MaxInlineBodySize = cf_MaxInlineBodySize c,
       MaxEntries = cf_MaxEntries c\<rparr> fs d = Inr st"
    and sv: "sv_store sv = st" "Target (sv_proxy sv) = u" "sv_target sv = TargetURL c"
      "sv_timeout sv = PendingTimeout c"
    using assms(1) by (auto simp: start_service_def split: sum.splits option.splits)
  note L = loadConfig_ok [OF c(1)]
  have m: "1 \<le> x \<and> x \<le> max_int64" if "envInt64 getenv k d = Inr x" "d \<in> {1..max_int64}" for x k d
    using that ParseInt_bounds by (auto simp: envInt64_iff)
  have i: "cf_MaxInlineBodySize c \<in> {1..max_int64}" "cf_MaxEntries c \<in> {1..max_int64}"
    using m [OF L(3)] m [OF L(4)] by (simp_all add: max_int64_def)
  have t: "PendingTimeout c \<in> {1..max_int64}"
    using L(5) ParseDuration_bounds by (force simp: envDuration_iff max_int64_def)
  have "maxInline (blobs st) = cf_MaxInlineBodySize c" "maxEntries st = cf_MaxEntries c"
    using New_limits [OF c(3)] i by simp_all
  moreover have "cf_MaxInlineBodySize c = given ''MAX_INLINE_BODY_SIZE'' ParseInt 1048576"
    "cf_MaxEntries c = given ''MAX_ENTRIES'' ParseInt 1000"
    "PendingTimeout c = given ''PENDING_TIMEOUT'' (ParseDuration frac) 300000000000"
    using L(3-5) by (auto simp: envInt64_iff envDuration_iff given_def)
  ultimately show ?thesis
    using L(1,2) c(2) i t sweep_interval_bounds [of "PendingTimeout c"] by (simp add: sv)
qed

lemma url_Parse_demo: "\<exists>u. url_Parse ''http://localhost:11434'' = Some u"
proof -
  have "url_Parse ''http://localhost:11434'' \<noteq> None" by code_simp
  then show ?thesis by blast
qed

lemma service_is_configured_witness:
  "\<exists>sv. start_service exact_frac table_exec demo_env os_fine empty_fs [] = Inr sv \<and>
     maxEntries (sv_store sv) = 20 \<and> sv_timeout sv = 300000000000"
proof -
  obtain sv where sv: "start_service exact_frac table_exec demo_env os_fine empty_fs [] = Inr sv"
    using url_Parse_demo
    by (auto simp: start_service_def test_config New_def os_fine_def newBlobStore_def path_join_def
      openDB_def knownIDs_def query_ids_def table_rows_def removeOrphans_def os_ReadDir_def empty_fs_def)
  have "ParseInt ''20'' = Some 20" by code_simp
  with service_is_configured [OF sv] sv show ?thesis by (simp add: demo_env_def)
qed


section \<open>The sweeper\<close>

text \<open>What happens to a store of a running service: calls, and ticks of the sweeper.\<close>

datatype moment = Called op | Ticked os_env gotime

fun passed :: "'db engine \<Rightarrow> int \<Rightarrow> moment list \<Rightarrow> 'db store \<Rightarrow> 'db store" where
  "passed exec timeout [] s = s"
| "passed exec timeout (Called op # ms) s = passed exec timeout ms (snd (do_op exec op s))"
| "passed exec timeout (Ticked env now # ms) s =
     passed exec timeout ms (sweepPending exec timeout [SweepTick env now] s)"

fun tick_times :: "moment list \<Rightarrow> gotime list" where
  "tick_times [] = []"
| "tick_times (Called op # ms) = tick_times ms"
| "tick_times (Ticked env now # ms) = now # tick_times ms"

text \<open>The calls that are activity on the entry \<open>k\<close>, and the moments without any.\<close>

fun concerns :: "op \<Rightarrow> bytes \<Rightarrow> bool" where
  "concerns (OpPut now rnd e) k = (put_id rnd e = Inr k)"
| "concerns (OpSetRequestBody env i body) k = (i = k)"
| "concerns (OpAppend env now i chunk d) k = (i = k)"
| "concerns (OpUpdate now i fn) k = (i = k)"
| "concerns (OpFinalize env now i fn) k = (i = k)"
| "concerns _ k = False"

fun silent ::
  "'db engine \<Rightarrow> ('db \<Rightarrow> bytes \<Rightarrow> row option) \<Rightarrow> int \<Rightarrow> bytes \<Rightarrow> moment list \<Rightarrow> 'db store \<Rightarrow> bool" where
  "silent exec tbl timeout k [] s = True"
| "silent exec tbl timeout k (Called op # ms) s =
     (admissible tbl op s \<and> \<not> concerns op k \<and> silent exec tbl timeout k ms (snd (do_op exec op s)))"
| "silent exec tbl timeout k (Ticked env now # ms) s =
     silent exec tbl timeout k ms (passed exec timeout [Ticked env now] s)"

lemma passed_append: "passed exec t (ms @ ns) s = passed exec t ns (passed exec t ms s)"
  by (induction exec t ms s rule: passed.induct) simp_all

lemma silent_append:
  "silent exec tbl t k (ms @ ns) s \<longleftrightarrow> silent exec tbl t k ms s \<and> silent exec tbl t k ns (passed exec t ms s)"
  by (induction exec tbl t k ms s rule: silent.induct) simp_all

lemma tick_times_iff: "now \<in> set (tick_times ms) \<longleftrightarrow> (\<exists>env. Ticked env now \<in> set ms)"
  by (induction ms rule: tick_times.induct) auto

text \<open>Among ticks that are at most \<open>g\<close> apart, one falls within \<open>g\<close> after any instant they span.\<close>

lemma tick_within:
  assumes "successively (\<lambda>a b. nanos b \<le> nanos a + g) (t0 # ts)" "nanos t0 \<le> x" "x < nanos (last (t0 # ts))"
  shows "\<exists>t \<in> set ts. x < nanos t \<and> nanos t \<le> x + g"
  using assms
proof (induction ts arbitrary: t0)
  case (Cons t ts)
  then show ?case by (cases "nanos t \<le> x") (auto split: if_splits)
qed simp

text \<open>The entry, if it is still there, was last seen no later than at \<open>u\<close>.\<close>

definition unseen_since :: "int \<Rightarrow> bytes \<Rightarrow> 'db store \<Rightarrow> bool" where
  "unseen_since u k s \<longleftrightarrow> (\<forall>l. mem_get k (mem s) = Some l \<longrightarrow> nanos (lastSeen l) \<le> u)"

lemma unseen_since_same: "mem_get k (mem s') = mem_get k (mem s) \<Longrightarrow> unseen_since u k s \<Longrightarrow> unseen_since u k s'"
  by (simp add: unseen_since_def)

lemma unseen_since_gone: "mem_get k (mem s) = None \<Longrightarrow> unseen_since u k s"
  by (simp add: unseen_since_def)

context sql_engine
begin

lemma sweep_run_gone:
  assumes "answers exec" "store_inv tbl s" "mem_get k (mem s) = None \<or> k \<in> set xs"
  shows "mem_get k (mem (sweep_run exec env now t xs s)) = None"
  using assms(2,3)
proof (induction xs arbitrary: s)
  case (Cons x xs)
  obtain r s1 where f: "Finalize exec env now x (Some (timed_out t)) s = (r, s1)" by fastforce
  have inv: "store_inv tbl s1" using sweep_run_step [OF Cons.prems(1)] f by (metis snd_conv)
  have "mem_get k (mem s1) = None" if "mem_get k (mem s) = None \<or> k = x"
  proof (cases "k = x")
    case True
    show ?thesis
    proof (cases "mem_get x (mem s)")
      case None
      with f True show ?thesis by (auto simp: Finalize_def)
    next
      case (Some l)
      have f': "Finalize exec env now x (Some (timed_out t)) s = (Inr (), s1)"
        using Finalize_answers [OF assms(1) Some f] f by simp
      have "mem s1 = mem_delete x (mem s)"
        by (rule Finalize_success [OF Cons.prems(1) Some _ f']) simp_all
      with True show ?thesis by simp
    qed
  next
    case False
    with that Finalize_mem_other [OF f] show ?thesis by simp
  qed
  then have "mem_get k (mem s1) = None \<or> k \<in> set xs" using Cons.prems(2) by auto
  from Cons.IH [OF inv this] show ?case using f by simp
qed simp

lemma SweepPending_mem:
  assumes "answers exec" "store_inv tbl s"
  shows "mem_get k (mem (snd (SweepPending exec env now t s))) =
    (if \<exists>l. mem_get k (mem s) = Some l \<and> nanos (lastSeen l) < nanos now - t then None
     else mem_get k (mem s))"
  using sweep_run_other [OF assms(2), of k "staleIDs now t (mem s)" env now t]
    sweep_run_gone [OF assms, of k "staleIDs now t (mem s)" env now t]
  by (auto simp: SweepPending_def Let_def staleIDs_iff [OF store_invD(1) [OF assms(2)]])

lemma unseen_since_call:
  assumes "answers exec" "store_inv tbl s" "\<not> concerns op k" "unseen_since u k s"
  shows "unseen_since u k (snd (do_op exec op s))"
proof (cases op)
  case (OpSweep env now t)
  with assms(4) SweepPending_mem [OF assms(1,2), of k env now t] show ?thesis
    by (simp add: unseen_since_def)
next
  case (OpFinalize env now i fn)
  obtain r s' where f: "Finalize exec env now i fn s = (r, s')" by fastforce
  with assms(3,4) OpFinalize Finalize_mem_other [OF f, of k] show ?thesis
    by (simp add: unseen_since_def)
next
  case (OpBody env i sd)
  have "mem (snd (Body exec env i sd s)) = mem s"
    by (simp add: Body_def Get_def Let_def split: option.split prod.split sum.split)
  with OpBody assms(4) show ?thesis by (simp add: unseen_since_def)
qed (use assms(3,4) in \<open>auto intro!: unseen_since_same [OF _ assms(4)] simp: Put_eq SetRequestBody_def
    AppendResponse_def Update_def Get_def List_def Clear_def Close_def Let_def
    split: prod.splits option.splits sum.splits\<close>)

lemma passed_silent:
  assumes "answers exec" "silent exec tbl t k ms s" "store_inv tbl s" "unseen_since u k s"
  shows "store_inv tbl (passed exec t ms s) \<and> unseen_since u k (passed exec t ms s)"
  using assms(2-)
proof (induction ms arbitrary: s)
  case (Cons m ms)
  show ?case
  proof (cases m)
    case (Called op)
    with Cons store_inv_do_op [OF Cons.prems(2), of op] unseen_since_call [OF assms(1) Cons.prems(2) _ Cons.prems(3), of op]
    show ?thesis by simp
  next
    case (Ticked env now)
    have "unseen_since u k (snd (SweepPending exec env now t s))"
      using Cons.prems(3) SweepPending_mem [OF assms(1) Cons.prems(2), of k env now t]
      by (simp add: unseen_since_def)
    with Cons Ticked store_inv_SweepPending [OF Cons.prems(2) surjective_pairing] show ?thesis by simp
  qed
qed simp

lemma tick_closes:
  assumes "answers exec" "store_inv tbl s" "unseen_since u k s" "u + t < nanos now"
  shows "\<not> in_memory k (passed exec t [Ticked env now] s)"
  using assms(3,4) SweepPending_mem [OF assms(1,2), of k env now t]
  by (cases "mem_get k (mem s)") (auto simp: unseen_since_def in_memory_def)

end

text \<open>
  C18. No exchange stays in flight for ever: over a database that answers, take any run of calls and
  sweeps during which nothing happens to an entry that was last seen at \<open>u\<close>, with ticks that
  come at most the interval and a delay \<open>late\<close> apart. Once the ticks have passed the pending
  timeout, one of them came no later than the timeout, the interval and the delay after \<open>u\<close>, and
  from that tick on the entry is no longer in flight.
\<close>

theorem silent_entry_is_closed:
  assumes "sql_engine exec tbl" "answers exec" "store_inv tbl s"
    and "mem_get k (mem s) = Some l" "nanos (lastSeen l) \<le> u" "silent exec tbl timeout k ms s"
    and "successively (\<lambda>a b. nanos b \<le> nanos a + (sweep_interval timeout + late)) (t0 # tick_times ms)"
    and "nanos t0 \<le> u + timeout" "u + timeout < nanos (last (t0 # tick_times ms))"
  shows "\<exists>before env now after. ms = before @ Ticked env now # after \<and>
    nanos now \<le> u + timeout + sweep_interval timeout + late \<and>
    (\<forall>n. \<not> in_memory k (passed exec timeout (before @ Ticked env now # take n after) s))"
proof -
  obtain now where now: "now \<in> set (tick_times ms)" "u + timeout < nanos now"
    "nanos now \<le> u + timeout + (sweep_interval timeout + late)"
    using tick_within [OF assms(7-9)] by blast
  then obtain env before after where ms: "ms = before @ Ticked env now # after"
    by (auto simp: tick_times_iff dest: split_list)
  have "\<not> in_memory k (passed exec timeout (before @ Ticked env now # take n after) s)" for n
  proof -
    have sil: "silent exec tbl timeout k before s"
      "silent exec tbl timeout k (take n after) (passed exec timeout (before @ [Ticked env now]) s)"
      using assms(6) silent_append [of exec tbl timeout k "take n after" "drop n after"]
      by (simp_all add: ms silent_append passed_append)
    have "unseen_since u k s" using assms(4,5) by (simp add: unseen_since_def)
    note B = sql_engine.passed_silent [OF assms(1,2) sil(1) assms(3) this]
    let ?s1 = "passed exec timeout [Ticked env now] (passed exec timeout before s)"
    have g: "\<not> in_memory k ?s1"
      using sql_engine.tick_closes [OF assms(1,2)] B now(2) by blast
    have "store_inv tbl ?s1"
      using sql_engine.store_inv_SweepPending [OF assms(1) _ surjective_pairing] B by simp
    have "unseen_since v k ?s1" for v using g by (simp add: unseen_since_def in_memory_def)
    then have v: "unseen_since v k (passed exec timeout (take n after) ?s1)" for v
      using sql_engine.passed_silent [OF assms(1,2) _ \<open>store_inv tbl ?s1\<close>] sil(2) by (simp add: passed_append)
    have "\<not> in_memory k (passed exec timeout (take n after) ?s1)"
    proof (cases "mem_get k (mem (passed exec timeout (take n after) ?s1))")
      case None
      then show ?thesis by (simp add: in_memory_def)
    next
      case (Some l)
      then show ?thesis using v [of "nanos (lastSeen l) - 1"] by (simp add: unseen_since_def)
    qed
    then show ?thesis by (simp add: passed_append)
  qed
  with ms now(3) show ?thesis by (intro exI [of _ before] exI [of _ env] exI [of _ now] exI [of _ after]) simp
qed

lemma silent_entry_is_closed_witness:
  "\<not> in_memory ''1f'' (passed table_exec 10 [Ticked os_fine (Time 5000000000)] one_store)"
proof -
  let ?ms = "[Ticked os_fine (Time 5000000000)]"
  obtain l where l: "mem_get ''1f'' (mem one_store) = Some l" using one_store_live by blast
  have "map (\<lambda>(k, l). (k, lastSeen l)) (mem one_store) = [(''1f'', Time 6)]" by code_simp
  then have "nanos (lastSeen l) \<le> 6" using l by (auto simp: mem_get_def split: if_splits)
  moreover have "sweep_interval 10 = 5000000000" by (simp add: sweep_interval_def go_div_def)
  ultimately have "\<exists>before env now after. ?ms = before @ Ticked env now # after \<and>
      nanos now \<le> 6 + 10 + sweep_interval 10 + 0 \<and>
      (\<forall>n. \<not> in_memory ''1f'' (passed table_exec 10 (before @ Ticked env now # take n after) one_store))"
    by (intro silent_entry_is_closed [OF table.sql_engine_axioms table_answers one_store_inv l,
          where ?t0.0 = "Time 0"]) simp_all
  then show ?thesis by (auto simp: Cons_eq_append_conv)
qed

end
